(* ===== verification/Prelude.thy ===== *)
theory Prelude
  imports Main "HOL-Library.Word" "HOL-Library.Signed_Division"
begin

text \<open>
  Shared vocabulary of the development: bytes and machine words, the sum type in which
  every C function that may stop the process returns its result, block copies between
  buffers, and the big-endian and host-order byte images the compiler writes and the
  virtual machine reads.
\<close>

unbundle bit_operations_syntax

named_theorems psh_simps \<open>unfolding rules of the model's operations\<close>
named_theorems be_simps \<open>byte images of integers\<close>

type_synonym byte = "8 word"
type_synonym i32 = "32 word"

subsection \<open>Ways in which the process stops\<close>

text \<open>
  Every value is one way in which the C program leaves its defined behaviour or exits:
  an access outside an allocated block, a read of memory no one wrote, the arithmetic trap
  of a division, \<open>vm_do_panic\<close> and \<open>compiler_panic\<close> (both call \<open>exit(255)\<close>), a NULL
  dereference, a node cast to the wrong struct, a copy past the end of a buffer, a use of a node
  that was freed, a pointer that \<open>realloc\<close> has invalidated. \<open>Out_Of_Fuel\<close> is not
  behaviour of the program: it is the answer of a bounded run that needs more steps.
\<close>

datatype fault =
    Stack_Fault
  | Local_Fault
  | Uninit_Read
  | Code_Fault
  | Div_Trap
  | Vm_Panic byte
  | Method_Not_Found string
  | Bad_Signature string
  | Frame_Overflow
  | Pool_Fault
  | Stale_Realloc
  | Page_Overflow
  | Null_Deref
  | Bad_Node
  | Buffer_Overflow
  | Use_After_Free
  | Table_Full
  | Compiler_Panic string
  | Out_Of_Fuel

type_synonym 'a result = "fault + 'a"

definition sbind :: "'e + 'a \<Rightarrow> ('a \<Rightarrow> 'e + 'b) \<Rightarrow> 'e + 'b" where
  "sbind m f = (case m of Inl e \<Rightarrow> Inl e | Inr a \<Rightarrow> f a)"

definition require :: "bool \<Rightarrow> 'e \<Rightarrow> 'e + unit" where
  "require b e = (if b then Inr () else Inl e)"

lemma sbind_Inl [simp]: "sbind (Inl e) f = Inl e"
  by (simp add: sbind_def)

lemma sbind_Inr [simp]: "sbind (Inr a) f = f a"
  by (simp add: sbind_def)

lemma sbind_eq_Inr [simp]: "sbind m f = Inr b \<longleftrightarrow> (\<exists>a. m = Inr a \<and> f a = Inr b)"
  by (cases m) simp_all

lemma sbind_eq_Inl: "sbind m f = Inl e \<longleftrightarrow> m = Inl e \<or> (\<exists>a. m = Inr a \<and> f a = Inl e)"
  by (cases m) simp_all

lemma sbind_assoc: "sbind (sbind m f) g = sbind m (\<lambda>x. sbind (f x) g)"
  by (cases m) simp_all

lemma require_eq_Inr [simp]: "require b e = Inr u \<longleftrightarrow> b"
  by (simp add: require_def)

lemma require_True [simp]: "require True e = Inr ()"
  by (simp add: require_def)

lemma require_False [simp]: "require False e = Inl e"
  by (simp add: require_def)

lemma sbind_cong [fundef_cong]:
  "m = m' \<Longrightarrow> (\<And>a. m' = Inr a \<Longrightarrow> f a = f' a) \<Longrightarrow> sbind m f = sbind m' f'"
  by (cases m') simp_all

subsection \<open>Block copies\<close>

text \<open>
  \<open>blit dst off src\<close> is \<open>memcpy(dst + off, src, length src)\<close> for a copy that stays inside
  the block; the callers check the bounds, and report a fault where the C code would write
  outside.
\<close>

definition blit :: "'a list \<Rightarrow> nat \<Rightarrow> 'a list \<Rightarrow> 'a list" where
  "blit dst off src = take off dst @ src @ drop (off + length src) dst"

lemma length_blit [simp]: "off + length src \<le> length dst \<Longrightarrow> length (blit dst off src) = length dst"
  by (simp add: blit_def)

lemma take_blit: "off + length src \<le> length dst \<Longrightarrow>
    take (off + length src) (blit dst off src) = take off dst @ src"
  by (simp add: blit_def)

lemma take_blit_less: "n \<le> off \<Longrightarrow> off + length src \<le> length dst \<Longrightarrow> take n (blit dst off src) = take n dst"
  by (simp add: blit_def min_absorb2)

lemma blit_full: "length src = length dst \<Longrightarrow> blit dst 0 src = src"
  by (simp add: blit_def)

subsection \<open>Byte images of integers\<close>

text \<open>
  \<open>htobe16\<close> and \<open>htobe32\<close> followed by \<open>memcpy\<close> lay the most significant byte first. The
  float constant is copied as the host has it: least significant byte first (\<open>types.h\<close>
  supports x86-64 only).
\<close>

definition be16_bytes :: "nat \<Rightarrow> byte list" where
  "be16_bytes n = [word_of_nat (n div 256), word_of_nat n]"

definition be16_val :: "byte \<Rightarrow> byte \<Rightarrow> nat" where
  "be16_val hi lo = unat hi * 256 + unat lo"

definition be32_bytes :: "i32 \<Rightarrow> byte list" where
  "be32_bytes w = [ucast (drop_bit 24 w), ucast (drop_bit 16 w), ucast (drop_bit 8 w), ucast w]"

definition be32_val :: "byte \<Rightarrow> byte \<Rightarrow> byte \<Rightarrow> byte \<Rightarrow> i32" where
  "be32_val a b c d =
     push_bit 24 (ucast a) OR push_bit 16 (ucast b) OR push_bit 8 (ucast c) OR ucast d"

definition le32_bytes :: "i32 \<Rightarrow> byte list" where
  "le32_bytes w = rev (be32_bytes w)"

lemma length_be16_bytes [simp]: "length (be16_bytes n) = 2"
  by (simp add: be16_bytes_def)

lemma length_be32_bytes [simp]: "length (be32_bytes w) = 4"
  by (simp add: be32_bytes_def)

lemma length_le32_bytes [simp]: "length (le32_bytes w) = 4"
  by (simp add: le32_bytes_def)

lemma be16_val_bytes [be_simps]: "n < 65536 \<Longrightarrow> be16_val (word_of_nat (n div 256)) (word_of_nat n) = n"
  by (simp add: be16_val_def unat_of_nat)

lemma bit_word_of_nat: "bit (word_of_nat m :: 'a::len word) n \<longleftrightarrow> n < LENGTH('a) \<and> bit m n"
  by transfer (simp add: bit_take_bit_iff bit_of_nat_iff_bit)

lemma unat_byte_less [simp]: "unat (b :: byte) < 256"
  by (rule order_less_le_trans [OF unsigned_less]) simp

lemma be16_val_less: "be16_val hi lo < 65536"
  using unat_byte_less [of hi] unat_byte_less [of lo] unfolding be16_val_def by linarith

lemma be32_val_bytes [be_simps]:
  "be32_val (ucast (drop_bit 24 w)) (ucast (drop_bit 16 w)) (ucast (drop_bit 8 w)) (ucast w) = (w :: i32)"
proof (rule bit_word_eqI)
  fix n assume "n < LENGTH(32)"
  then consider "n < 8" | "8 \<le> n" "n < 16" | "16 \<le> n" "n < 24" | "24 \<le> n" "n < 32"
    by fastforce
  then show "bit (be32_val (ucast (drop_bit 24 w)) (ucast (drop_bit 16 w)) (ucast (drop_bit 8 w)) (ucast w)) n
      \<longleftrightarrow> bit w n"
    by cases (auto simp: be32_val_def bit_simps)
qed

end
