(* ===== verification/Float32.thy ===== *)
theory Float32
  imports Prelude
begin

text \<open>
  \<open>float_t\<close> is C's \<open>float\<close>: an IEEE 754 binary32 number, rounded to nearest with ties to
  even, as x86-64 computes it with SSE instructions. A number is its 32-bit pattern. Every
  finite value is an integer multiple of \<open>2 ^ -149\<close>, the smallest subnormal, so
  \<open>f32_units\<close> reads the magnitude of a pattern as a natural number of such units, and
  \<open>f32_round\<close> turns an exact fraction of units into the nearest pattern. Invalid
  operations give the default NaN of the hardware; a NaN operand is returned quieted, the
  first one when both are NaN.
\<close>

subsection \<open>Fields of a pattern\<close>

definition f32_sign :: "i32 \<Rightarrow> bool" where
  "f32_sign w \<longleftrightarrow> 2 ^ 31 \<le> unat w"

definition f32_exp :: "i32 \<Rightarrow> nat" where
  "f32_exp w = unat w div 2 ^ 23 mod 256"

definition f32_man :: "i32 \<Rightarrow> nat" where
  "f32_man w = unat w mod 2 ^ 23"

definition f32_is_nan :: "i32 \<Rightarrow> bool" where
  "f32_is_nan w \<longleftrightarrow> f32_exp w = 255 \<and> f32_man w \<noteq> 0"

definition f32_is_inf :: "i32 \<Rightarrow> bool" where
  "f32_is_inf w \<longleftrightarrow> f32_exp w = 255 \<and> f32_man w = 0"

definition f32_units :: "i32 \<Rightarrow> nat" where
  "f32_units w = (if f32_exp w = 0 then f32_man w else (2 ^ 23 + f32_man w) * 2 ^ (f32_exp w - 1))"

definition f32_int :: "i32 \<Rightarrow> int" where
  "f32_int w = (if f32_sign w then - int (f32_units w) else int (f32_units w))"

definition f32_neg :: "i32 \<Rightarrow> i32" where
  "f32_neg w = w XOR 0x80000000"

definition f32_default_nan :: i32 where
  "f32_default_nan = 0xffc00000"

definition f32_quiet :: "i32 \<Rightarrow> i32" where
  "f32_quiet w = w OR 0x00400000"

definition f32_signed :: "bool \<Rightarrow> nat \<Rightarrow> i32" where
  "f32_signed s pat = word_of_nat ((if s then 2 ^ 31 else 0) + pat)"

abbreviation (input) f32_inf_pat :: nat where "f32_inf_pat \<equiv> 255 * 2 ^ 23"

subsection \<open>Rounding\<close>

fun bit_length :: "nat \<Rightarrow> nat" where
  "bit_length n = (if n = 0 then 0 else Suc (bit_length (n div 2)))"

declare bit_length.simps [simp del]

definition round_even :: "nat \<Rightarrow> nat \<Rightarrow> nat" where
  "round_even p q =
     (let d = p div q; r = p mod q
      in if 2 * r < q then d
         else if q < 2 * r then d + 1
         else if even d then d else d + 1)"

text \<open>
  The value \<open>p / q\<close> units. Below \<open>2 ^ 24\<close> units the pattern is the number of units; above,
  the quantum doubles with every further bit, and each doubling adds one to the exponent
  field. A carry out of the significand lands in the exponent field, and what passes the
  largest finite pattern is infinity.
\<close>

definition f32_round :: "bool \<Rightarrow> nat \<Rightarrow> nat \<Rightarrow> i32" where
  "f32_round s p q =
     (let k = bit_length (p div q) - 24;
          pat = k * 2 ^ 23 + round_even p (q * 2 ^ k)
      in f32_signed s (if f32_inf_pat \<le> pat then f32_inf_pat else pat))"

definition f32_round_int :: "int \<Rightarrow> i32" where
  "f32_round_int x = f32_round (x < 0) (nat \<bar>x\<bar>) 1"

subsection \<open>Operations\<close>

definition f32_of_int :: "int \<Rightarrow> i32" where
  "f32_of_int i = f32_round_int (i * 2 ^ 149)"

definition f32_add :: "i32 \<Rightarrow> i32 \<Rightarrow> i32" where
  "f32_add a b =
     (if f32_is_nan a then f32_quiet a
      else if f32_is_nan b then f32_quiet b
      else if f32_is_inf a then
        (if f32_is_inf b \<and> f32_sign a \<noteq> f32_sign b then f32_default_nan else a)
      else if f32_is_inf b then b
      else let x = f32_int a + f32_int b
           in if x = 0 then f32_signed (f32_sign a \<and> f32_sign b) 0 else f32_round_int x)"

definition f32_sub :: "i32 \<Rightarrow> i32 \<Rightarrow> i32" where
  "f32_sub a b =
     (if f32_is_nan a then f32_quiet a
      else if f32_is_nan b then f32_quiet b
      else f32_add a (f32_neg b))"

definition f32_mul :: "i32 \<Rightarrow> i32 \<Rightarrow> i32" where
  "f32_mul a b =
     (let s = (f32_sign a \<noteq> f32_sign b)
      in if f32_is_nan a then f32_quiet a
         else if f32_is_nan b then f32_quiet b
         else if f32_is_inf a \<or> f32_is_inf b then
           (if f32_units a = 0 \<or> f32_units b = 0 then f32_default_nan else f32_signed s f32_inf_pat)
         else f32_round s (f32_units a * f32_units b) (2 ^ 149))"

definition f32_div :: "i32 \<Rightarrow> i32 \<Rightarrow> i32" where
  "f32_div a b =
     (let s = (f32_sign a \<noteq> f32_sign b)
      in if f32_is_nan a then f32_quiet a
         else if f32_is_nan b then f32_quiet b
         else if f32_is_inf a then
           (if f32_is_inf b then f32_default_nan else f32_signed s f32_inf_pat)
         else if f32_is_inf b then f32_signed s 0
         else if f32_units b = 0 then
           (if f32_units a = 0 then f32_default_nan else f32_signed s f32_inf_pat)
         else f32_round s (f32_units a * 2 ^ 149) (f32_units b))"

text \<open>\<open>a < b\<close>; infinity's units exceed those of every finite number.\<close>

definition f32_lt :: "i32 \<Rightarrow> i32 \<Rightarrow> bool" where
  "f32_lt a b \<longleftrightarrow> \<not> f32_is_nan a \<and> \<not> f32_is_nan b \<and> f32_int a < f32_int b"

subsection \<open>Facts\<close>

lemma bit_length_0 [simp]: "bit_length 0 = 0"
  by (simp add: bit_length.simps)

lemma bit_length_pos: "0 < n \<Longrightarrow> bit_length n = Suc (bit_length (n div 2))"
  by (simp add: bit_length.simps)

lemma bit_length_bounds: "0 < n \<Longrightarrow> 2 ^ (bit_length n - 1) \<le> n \<and> n < 2 ^ bit_length n"
proof (induction n rule: bit_length.induct)
  case (1 n)
  show ?case
  proof (cases "n div 2 = 0")
    case True
    then have "n = 1" using "1.prems" by simp
    then show ?thesis by (simp add: bit_length_pos)
  next
    case False
    with 1 have IH: "2 ^ (bit_length (n div 2) - 1) \<le> n div 2" "n div 2 < 2 ^ bit_length (n div 2)"
      by auto
    from False have "bit_length (n div 2) = Suc (bit_length (n div 2 div 2))"
      by (simp add: bit_length_pos)
    with IH "1.prems" have "2 * 2 ^ (bit_length (n div 2) - 1) \<le> n \<and> n < 2 * 2 ^ bit_length (n div 2)"
      by linarith
    with \<open>bit_length (n div 2) = _\<close> "1.prems" show ?thesis by (simp add: bit_length_pos [of n])
  qed
qed

lemma bit_length_unique:
  assumes "2 ^ k \<le> n" and "n < 2 ^ Suc k"
  shows "bit_length n = Suc k"
proof -
  have n: "0 < n" using assms(1) by (meson less_le_trans zero_less_power zero_less_numeral)
  note b = bit_length_bounds [OF n]
  have "bit_length n - 1 < Suc k"
    using b assms(2) by (meson le_less_trans nat_power_less_imp_less zero_less_numeral)
  moreover have "k < bit_length n"
    using b assms(1) by (meson le_less_trans nat_power_less_imp_less zero_less_numeral)
  ultimately show ?thesis by simp
qed

lemma bit_length_mult_pow: "0 < n \<Longrightarrow> bit_length (n * 2 ^ k) = bit_length n + k"
proof -
  assume n: "0 < n"
  then obtain j where j: "bit_length n = Suc j" by (metis bit_length_pos)
  have "2 ^ (j + k) \<le> n * 2 ^ k" "n * 2 ^ k < 2 ^ Suc (j + k)"
    using bit_length_bounds [OF n] j by (simp_all add: power_add)
  then have "bit_length (n * 2 ^ k) = Suc (j + k)" by (rule bit_length_unique)
  then show ?thesis using j by simp
qed

lemma round_even_exact: "0 < q \<Longrightarrow> round_even (m * q) q = m"
  by (simp add: round_even_def)

text \<open>The rounded quotient is never further than half a quantum from the exact one.\<close>

lemma round_even_half:
  assumes "0 < q"
  shows "2 * \<bar>int (round_even p q) * int q - int p\<bar> \<le> int q"
proof -
  have p: "int p = int (p div q) * int q + int (p mod q)"
    by (metis div_mult_mod_eq of_nat_add of_nat_mult)
  have "int (p mod q) < int q" using assms by simp
  then show ?thesis using p by (auto simp: round_even_def Let_def algebra_simps)
qed

lemma unat_f32_signed:
  "pat < 2 ^ 31 \<Longrightarrow> unat (f32_signed s pat) = (if s then 2 ^ 31 else 0) + pat"
  unfolding f32_signed_def unsigned_of_nat by (cases s) (simp_all add: take_bit_eq_mod)

lemma f32_signed_fields:
  assumes "pat < 2 ^ 31"
  shows "f32_sign (f32_signed s pat) = s"
    and "f32_exp (f32_signed s pat) = pat div 2 ^ 23"
    and "f32_man (f32_signed s pat) = pat mod 2 ^ 23"
proof -
  have u: "unat (f32_signed s pat) = (if s then 2 ^ 31 else 0) + pat"
    by (rule unat_f32_signed [OF assms])
  show "f32_sign (f32_signed s pat) = s" using assms by (simp add: f32_sign_def u)
  have "pat div 2 ^ 23 < 256" using assms by simp
  moreover have "((2::nat) ^ 31 + pat) div 2 ^ 23 = 256 + pat div 2 ^ 23"
    by (simp add: div_plus_div_distrib_dvd_left)
  ultimately show "f32_exp (f32_signed s pat) = pat div 2 ^ 23"
    by (simp add: f32_exp_def u)
  show "f32_man (f32_signed s pat) = pat mod 2 ^ 23"
  proof -
    have "((2::nat) ^ 31 + pat) mod 2 ^ 23 = (256 * 2 ^ 23 + pat) mod 2 ^ 23" by simp
    also have "\<dots> = pat mod 2 ^ 23" by (rule mod_mult_self3)
    finally show ?thesis by (simp add: f32_man_def u)
  qed
qed

text \<open>A number of at most 24 significant bits is represented exactly.\<close>

lemma f32_round_exact:
  assumes n: "0 < n" "n < 2 ^ 24" and j: "j \<le> 229"
  shows "f32_units (f32_round s (n * 2 ^ j) 1) = n * 2 ^ j"
    and "f32_sign (f32_round s (n * 2 ^ j) 1) = s"
    and "\<not> f32_is_nan (f32_round s (n * 2 ^ j) 1)"
    and "\<not> f32_is_inf (f32_round s (n * 2 ^ j) 1)"
proof -
  define b where "b = bit_length n"
  have b: "2 ^ (b - 1) \<le> n" "n < 2 ^ b" "0 < b"
    using bit_length_bounds [OF n(1)] n(1) by (auto simp: b_def bit_length_pos)
  have b24: "b \<le> 24"
  proof (rule ccontr)
    assume "\<not> b \<le> 24"
    then have "(2::nat) ^ 24 \<le> 2 ^ (b - 1)" by (intro power_increasing) auto
    with b(1) n(2) show False by linarith
  qed
  define k where "k = bit_length (n * 2 ^ j) - 24"
  have k: "k = b + j - 24" by (simp add: k_def b_def bit_length_mult_pow [OF n(1)])
  define m where "m = round_even (n * 2 ^ j) (2 ^ k)"
  have kj: "k \<le> j" using k b24 by simp
  have m: "m = n * 2 ^ (j - k)"
  proof -
    have eq: "n * 2 ^ j = (n * 2 ^ (j - k)) * 2 ^ k" using kj by (simp add: power_add [symmetric])
    show ?thesis unfolding m_def eq by (rule round_even_exact) simp
  qed
  have mk: "m * 2 ^ k = n * 2 ^ j" using m kj by (simp add: power_add [symmetric])
  have m24: "m < 2 ^ 24"
  proof -
    have "m < 2 ^ b * 2 ^ (j - k)" using m b(2) by simp
    also have "\<dots> = 2 ^ (b + j - k)" using kj by (simp add: power_add [symmetric])
    also have "\<dots> \<le> 2 ^ 24" using k b24 by (intro power_increasing) auto
    finally show ?thesis .
  qed
  have k230: "k \<le> 229" using kj j by simp
  define pat where "pat = k * 2 ^ 23 + m"
  have pat: "pat < f32_inf_pat" using k230 m24 by (simp add: pat_def)
  then have pat31: "pat < 2 ^ 31" by simp
  have r: "f32_round s (n * 2 ^ j) 1 = f32_signed s pat"
  proof -
    have "k * 2 ^ 23 + round_even (n * 2 ^ j) (1 * 2 ^ k) = pat" by (simp add: pat_def m_def)
    then show ?thesis using pat unfolding f32_round_def Let_def div_by_1 k_def [symmetric] by simp
  qed
  note f = f32_signed_fields [OF pat31, of s]
  show "f32_sign (f32_round s (n * 2 ^ j) 1) = s" unfolding r by (rule f(1))
  have e: "pat div 2 ^ 23 < 255" using pat by (simp add: less_mult_imp_div_less)
  show "\<not> f32_is_nan (f32_round s (n * 2 ^ j) 1)" "\<not> f32_is_inf (f32_round s (n * 2 ^ j) 1)"
    using e unfolding r by (simp_all add: f32_is_nan_def f32_is_inf_def f)
  have "f32_units (f32_signed s pat) = m * 2 ^ k"
  proof (cases "m < 2 ^ 23")
    case True
    have "k = 0"
    proof (rule ccontr)
      assume "k \<noteq> 0"
      then have "b + (j - k) = 24" using k kj by simp
      then have "2 ^ 23 = (2::nat) ^ (b - 1) * 2 ^ (j - k)" using b(3)
        by (simp add: power_add [symmetric])
      also have "\<dots> \<le> m" using m b(1) by simp
      finally show False using True by simp
    qed
    then have "pat = m" by (simp add: pat_def)
    with True \<open>k = 0\<close> show ?thesis unfolding f32_units_def f by simp
  next
    case False
    then obtain d where d: "m = 2 ^ 23 + d" by (metis le_add_diff_inverse not_less)
    have "d < 2 ^ 23" using m24 d by simp
    then have "pat div 2 ^ 23 = Suc k" "pat mod 2 ^ 23 = d"
      by (simp_all add: pat_def d div_add1_eq [of "k * 8388608"] mod_add_eq [symmetric])
    then show ?thesis unfolding f32_units_def f by (simp add: d)
  qed
  then show "f32_units (f32_round s (n * 2 ^ j) 1) = n * 2 ^ j" unfolding r mk .
qed

lemma f32_int_zero [simp]: "f32_int 0 = 0"
  by (simp add: f32_int_def f32_units_def f32_exp_def f32_man_def)

lemma f32_of_int_0 [simp]: "f32_of_int 0 = 0"
  by (simp add: f32_of_int_def f32_round_int_def f32_round_def round_even_def f32_signed_def)

lemma f32_of_int_exact:
  assumes "\<bar>i\<bar> < 2 ^ 24"
  shows "f32_int (f32_of_int i) = i * 2 ^ 149" and "\<not> f32_is_nan (f32_of_int i)"
    and "\<not> f32_is_inf (f32_of_int i)"
proof -
  have "f32_int (f32_of_int i) = i * 2 ^ 149 \<and> \<not> f32_is_nan (f32_of_int i) \<and> \<not> f32_is_inf (f32_of_int i)"
  proof (cases "i = 0")
    case True
    then show ?thesis by (simp add: f32_is_nan_def f32_is_inf_def f32_exp_def)
  next
    case False
    let ?n = "nat \<bar>i\<bar>"
    have n: "0 < ?n" "?n < 2 ^ 24" using False assms by (simp_all add: nat_less_iff)
    have eq: "nat \<bar>i * 2 ^ 149\<bar> = ?n * 2 ^ 149" by (simp add: abs_mult nat_mult_distrib)
    have "i * 2 ^ 149 < 0 \<longleftrightarrow> i < 0" by (simp add: mult_less_0_iff)
    then have r: "f32_of_int i = f32_round (i < 0) (?n * 2 ^ 149) 1"
      unfolding f32_of_int_def f32_round_int_def eq by simp
    note e = f32_round_exact [OF n, of 149 "i < 0", folded r]
    have "int ?n = \<bar>i\<bar>" by simp
    then show ?thesis using e by (cases "i < 0") (simp_all add: f32_int_def)
  qed
  then show "f32_int (f32_of_int i) = i * 2 ^ 149" "\<not> f32_is_nan (f32_of_int i)"
    "\<not> f32_is_inf (f32_of_int i)" by auto
qed

end
