(* ===== verification/Hashmap.thy ===== *)
theory Hashmap
  imports Float32
begin

text \<open>
  The string hash table of \<open>util/hashmap.c\<close>: a table of \<open>capacity\<close> slots, open addressing
  with at most eight linear probes, doubled whenever a key finds no slot. A key is a
  \<open>const char *\<close> that the table stores but does not own, so the model keeps the key pointer
  (\<open>'p\<close>) and reads its C string through \<open>deref\<close>, the memory at the time of the call. A slot
  is \<open>None\<close> when its \<open>in_use\<close> flag is 0 (its key and value are then NULL).

  \<open>lim\<close> is the largest capacity \<open>calloc\<close> still provides; a request beyond it returns NULL,
  which is the only source of \<open>_MAP_NOMEM\<close>. Indices are \<open>uint32_t\<close>, so the model is the
  program's for \<open>lim \<le> 2 ^ 31\<close>, where no index leaves the \<open>int\<close> it is returned in.
  \<open>hashmap_put\<close> carries a bound on the nesting of resizes, and \<open>hashmap_put_total\<close> shows how
  much is enough.
\<close>

record ('p, 'v) hashmap =
  hm_capacity :: nat
  hm_size :: nat
  hm_data :: "('p \<times> 'v) option list"

abbreviation (input) INITIAL_MAP_CAP :: nat where "INITIAL_MAP_CAP \<equiv> 128"
abbreviation (input) MAX_PROBE_COUNT :: nat where "MAX_PROBE_COUNT \<equiv> 8"
abbreviation (input) MAX_LOAD_FACTOR :: i32 where "MAX_LOAD_FACTOR \<equiv> 0x3f333333"

abbreviation (input) MAP_OK :: int where "MAP_OK \<equiv> 0"
abbreviation (input) MAP_NOMEM :: int where "MAP_NOMEM \<equiv> -2"
abbreviation (input) MAP_MISS :: int where "MAP_MISS \<equiv> -3"

subsection \<open>Hashing\<close>

definition crc32_tab :: "i32 list" where
  "crc32_tab = [
     0x00000000, 0x77073096, 0xee0e612c, 0x990951ba, 0x076dc419, 0x706af48f,
     0xe963a535, 0x9e6495a3, 0x0edb8832, 0x79dcb8a4, 0xe0d5e91e, 0x97d2d988,
     0x09b64c2b, 0x7eb17cbd, 0xe7b82d07, 0x90bf1d91, 0x1db71064, 0x6ab020f2,
     0xf3b97148, 0x84be41de, 0x1adad47d, 0x6ddde4eb, 0xf4d4b551, 0x83d385c7,
     0x136c9856, 0x646ba8c0, 0xfd62f97a, 0x8a65c9ec, 0x14015c4f, 0x63066cd9,
     0xfa0f3d63, 0x8d080df5, 0x3b6e20c8, 0x4c69105e, 0xd56041e4, 0xa2677172,
     0x3c03e4d1, 0x4b04d447, 0xd20d85fd, 0xa50ab56b, 0x35b5a8fa, 0x42b2986c,
     0xdbbbc9d6, 0xacbcf940, 0x32d86ce3, 0x45df5c75, 0xdcd60dcf, 0xabd13d59,
     0x26d930ac, 0x51de003a, 0xc8d75180, 0xbfd06116, 0x21b4f4b5, 0x56b3c423,
     0xcfba9599, 0xb8bda50f, 0x2802b89e, 0x5f058808, 0xc60cd9b2, 0xb10be924,
     0x2f6f7c87, 0x58684c11, 0xc1611dab, 0xb6662d3d, 0x76dc4190, 0x01db7106,
     0x98d220bc, 0xefd5102a, 0x71b18589, 0x06b6b51f, 0x9fbfe4a5, 0xe8b8d433,
     0x7807c9a2, 0x0f00f934, 0x9609a88e, 0xe10e9818, 0x7f6a0dbb, 0x086d3d2d,
     0x91646c97, 0xe6635c01, 0x6b6b51f4, 0x1c6c6162, 0x856530d8, 0xf262004e,
     0x6c0695ed, 0x1b01a57b, 0x8208f4c1, 0xf50fc457, 0x65b0d9c6, 0x12b7e950,
     0x8bbeb8ea, 0xfcb9887c, 0x62dd1ddf, 0x15da2d49, 0x8cd37cf3, 0xfbd44c65,
     0x4db26158, 0x3ab551ce, 0xa3bc0074, 0xd4bb30e2, 0x4adfa541, 0x3dd895d7,
     0xa4d1c46d, 0xd3d6f4fb, 0x4369e96a, 0x346ed9fc, 0xad678846, 0xda60b8d0,
     0x44042d73, 0x33031de5, 0xaa0a4c5f, 0xdd0d7cc9, 0x5005713c, 0x270241aa,
     0xbe0b1010, 0xc90c2086, 0x5768b525, 0x206f85b3, 0xb966d409, 0xce61e49f,
     0x5edef90e, 0x29d9c998, 0xb0d09822, 0xc7d7a8b4, 0x59b33d17, 0x2eb40d81,
     0xb7bd5c3b, 0xc0ba6cad, 0xedb88320, 0x9abfb3b6, 0x03b6e20c, 0x74b1d29a,
     0xead54739, 0x9dd277af, 0x04db2615, 0x73dc1683, 0xe3630b12, 0x94643b84,
     0x0d6d6a3e, 0x7a6a5aa8, 0xe40ecf0b, 0x9309ff9d, 0x0a00ae27, 0x7d079eb1,
     0xf00f9344, 0x8708a3d2, 0x1e01f268, 0x6906c2fe, 0xf762575d, 0x806567cb,
     0x196c3671, 0x6e6b06e7, 0xfed41b76, 0x89d32be0, 0x10da7a5a, 0x67dd4acc,
     0xf9b9df6f, 0x8ebeeff9, 0x17b7be43, 0x60b08ed5, 0xd6d6a3e8, 0xa1d1937e,
     0x38d8c2c4, 0x4fdff252, 0xd1bb67f1, 0xa6bc5767, 0x3fb506dd, 0x48b2364b,
     0xd80d2bda, 0xaf0a1b4c, 0x36034af6, 0x41047a60, 0xdf60efc3, 0xa867df55,
     0x316e8eef, 0x4669be79, 0xcb61b38c, 0xbc66831a, 0x256fd2a0, 0x5268e236,
     0xcc0c7795, 0xbb0b4703, 0x220216b9, 0x5505262f, 0xc5ba3bbe, 0xb2bd0b28,
     0x2bb45a92, 0x5cb36a04, 0xc2d7ffa7, 0xb5d0cf31, 0x2cd99e8b, 0x5bdeae1d,
     0x9b64c2b0, 0xec63f226, 0x756aa39c, 0x026d930a, 0x9c0906a9, 0xeb0e363f,
     0x72076785, 0x05005713, 0x95bf4a82, 0xe2b87a14, 0x7bb12bae, 0x0cb61b38,
     0x92d28e9b, 0xe5d5be0d, 0x7cdcefb7, 0x0bdbdf21, 0x86d3d2d4, 0xf1d4e242,
     0x68ddb3f8, 0x1fda836e, 0x81be16cd, 0xf6b9265b, 0x6fb077e1, 0x18b74777,
     0x88085ae6, 0xff0f6a70, 0x66063bca, 0x11010b5c, 0x8f659eff, 0xf862ae69,
     0x616bffd3, 0x166ccf45, 0xa00ae278, 0xd70dd2ee, 0x4e048354, 0x3903b3c2,
     0xa7672661, 0xd06016f7, 0x4969474d, 0x3e6e77db, 0xaed16a4a, 0xd9d65adc,
     0x40df0b66, 0x37d83bf0, 0xa9bcae53, 0xdebb9ec5, 0x47b2cf7f, 0x30b5ffe9,
     0xbdbdf21c, 0xcabac28a, 0x53b39330, 0x24b4a3a6, 0xbad03605, 0xcdd70693,
     0x54de5729, 0x23d967bf, 0xb3667a2e, 0xc4614ab8, 0x5d681b02, 0x2a6f2b94,
     0xb40bbe37, 0xc30c8ea1, 0x5a05df1b, 0x2d02ef8d]"

definition crc32_step :: "byte \<Rightarrow> i32 \<Rightarrow> i32" where
  "crc32_step b crc32val =
     crc32_tab ! unat ((crc32val XOR ucast b) AND 0xff) XOR drop_bit 8 crc32val"

definition compute_crc32 :: "byte list \<Rightarrow> i32" where
  "compute_crc32 s = fold crc32_step s 0"

text \<open>The mixing steps of \<open>string_hash\<close>, one \<open>let\<close> per statement. The length is passed as a \<open>uint32_t\<close>.\<close>

definition hash_mix :: "i32 \<Rightarrow> i32" where
  "hash_mix key0 =
     (let key1 = key0 + push_bit 12 key0;
          key2 = key1 XOR drop_bit 22 key1;
          key3 = key2 + push_bit 4 key2;
          key4 = key3 XOR drop_bit 9 key3;
          key5 = key4 + push_bit 10 key4;
          key6 = key5 XOR drop_bit 2 key5;
          key7 = key6 + push_bit 7 key6;
          key8 = key7 XOR drop_bit 12 key7
      in drop_bit 3 key8 * 2654435761)"

definition string_hash :: "string \<Rightarrow> i32" where
  "string_hash str = hash_mix (compute_crc32 (map of_char (take (length str mod 2 ^ 32) str)))"

subsection \<open>Operations\<close>

definition hashmap_new :: "('p, 'v) hashmap" where
  "hashmap_new = \<lparr>hm_capacity = INITIAL_MAP_CAP, hm_size = 0,
                  hm_data = replicate INITIAL_MAP_CAP None\<rparr>"

definition home :: "('p, 'v) hashmap \<Rightarrow> string \<Rightarrow> nat" where
  "home m s = unat (string_hash s) mod hm_capacity m"

definition load_exceeded :: "nat \<Rightarrow> nat \<Rightarrow> bool" where
  "load_exceeded capacity sz =
     f32_lt (f32_mul (f32_of_int (int capacity)) MAX_LOAD_FACTOR) (f32_of_int (int sz))"

primrec probe_index :: "('p \<Rightarrow> string) \<Rightarrow> ('p \<times> 'v) option list \<Rightarrow> string \<Rightarrow> nat \<Rightarrow> nat \<Rightarrow> nat option" where
  "probe_index deref data key 0 index = None"
| "probe_index deref data key (Suc n) index =
     (case data ! index of
        None \<Rightarrow> Some index
      | Some (k, _) \<Rightarrow> if deref k = key then Some index
                     else probe_index deref data key n ((index + 1) mod length data))"

text \<open>\<open>None\<close> stands for \<open>_MAP_FULL\<close>.\<close>

definition hashmap_index :: "('p \<Rightarrow> string) \<Rightarrow> ('p, 'v) hashmap \<Rightarrow> string \<Rightarrow> nat option" where
  "hashmap_index deref m key =
     (if load_exceeded (hm_capacity m) (hm_size m) then None
      else probe_index deref (hm_data m) key MAX_PROBE_COUNT (home m key))"

fun hm_rehash :: "(('p, 'v) hashmap \<Rightarrow> 'p \<Rightarrow> 'v \<Rightarrow> (int \<times> ('p, 'v) hashmap) option) \<Rightarrow>
    ('p \<times> 'v) option list \<Rightarrow> ('p, 'v) hashmap \<Rightarrow> (int \<times> ('p, 'v) hashmap) option" where
  "hm_rehash put [] m = Some (MAP_OK, m)"
| "hm_rehash put (None # es) m = hm_rehash put es m"
| "hm_rehash put (Some (k, v) # es) m =
     (case put m k v of
        None \<Rightarrow> None
      | Some (ret, m') \<Rightarrow> if ret \<noteq> MAP_OK then Some (ret, m') else hm_rehash put es m')"

definition hashmap_resize :: "nat \<Rightarrow> (('p, 'v) hashmap \<Rightarrow> 'p \<Rightarrow> 'v \<Rightarrow> (int \<times> ('p, 'v) hashmap) option) \<Rightarrow>
    ('p, 'v) hashmap \<Rightarrow> (int \<times> ('p, 'v) hashmap) option" where
  "hashmap_resize lim put m =
     (let new_capacity = hm_capacity m * 2
      in if lim < new_capacity then Some (MAP_NOMEM, m)
         else hm_rehash put (hm_data m)
                (m\<lparr>hm_capacity := new_capacity, hm_data := replicate new_capacity None, hm_size := 0\<rparr>))"

definition hm_write :: "('p, 'v) hashmap \<Rightarrow> nat \<Rightarrow> 'p \<Rightarrow> 'v \<Rightarrow> ('p, 'v) hashmap" where
  "hm_write m index key value =
     m\<lparr>hm_data := (hm_data m)[index := Some (key, value)], hm_size := hm_size m + 1\<rparr>"

text \<open>
  \<open>None\<close> means that the bound on nested resizes was too small; the result pairs the return
  code with the table.
\<close>

primrec hashmap_put :: "nat \<Rightarrow> nat \<Rightarrow> ('p \<Rightarrow> string) \<Rightarrow> ('p, 'v) hashmap \<Rightarrow> 'p \<Rightarrow> 'v \<Rightarrow>
    (int \<times> ('p, 'v) hashmap) option" where
  "hashmap_put 0 lim deref m key value = None"
| "hashmap_put (Suc d) lim deref m key value =
     (case hashmap_index deref m (deref key) of
        Some index \<Rightarrow> Some (MAP_OK, hm_write m index key value)
      | None \<Rightarrow>
          (case hashmap_resize lim (hashmap_put d lim deref) m of
             None \<Rightarrow> None
           | Some (ret, m') \<Rightarrow>
               if ret = MAP_NOMEM then Some (MAP_NOMEM, m')
               else hashmap_put d lim deref m' key value))"

primrec probe_key :: "('p \<Rightarrow> string) \<Rightarrow> ('p \<times> 'v) option list \<Rightarrow> string \<Rightarrow> nat \<Rightarrow> nat \<Rightarrow> nat option" where
  "probe_key deref data key 0 index = None"
| "probe_key deref data key (Suc n) index =
     (case data ! index of
        Some (k, _) \<Rightarrow> if deref k = key then Some index
                      else probe_key deref data key n ((index + 1) mod length data)
      | None \<Rightarrow> probe_key deref data key n ((index + 1) mod length data))"

text \<open>The second component is \<open>*out_value\<close>, \<open>None\<close> for the NULL written on a miss.\<close>

definition hashmap_get :: "('p \<Rightarrow> string) \<Rightarrow> ('p, 'v) hashmap \<Rightarrow> string \<Rightarrow> int \<times> 'v option" where
  "hashmap_get deref m key =
     (case probe_key deref (hm_data m) key MAX_PROBE_COUNT (home m key) of
        Some index \<Rightarrow> (MAP_OK, map_option snd (hm_data m ! index))
      | None \<Rightarrow> (MAP_MISS, None))"

text \<open>\<open>size\<close> is a \<open>size_t\<close>: decrementing 0 wraps around.\<close>

definition hashmap_remove :: "('p \<Rightarrow> string) \<Rightarrow> ('p, 'v) hashmap \<Rightarrow> string \<Rightarrow> int \<times> ('p, 'v) hashmap" where
  "hashmap_remove deref m key =
     (case probe_key deref (hm_data m) key MAX_PROBE_COUNT (home m key) of
        Some index \<Rightarrow>
          (MAP_OK, m\<lparr>hm_data := (hm_data m)[index := None],
                     hm_size := (if hm_size m = 0 then 2 ^ 64 - 1 else hm_size m - 1)\<rparr>)
      | None \<Rightarrow> (MAP_MISS, m))"

definition hashmap_size :: "('p, 'v) hashmap option \<Rightarrow> nat" where
  "hashmap_size m = (case m of Some m \<Rightarrow> hm_size m | None \<Rightarrow> 0)"

end
