(* ===== verification/Crc32.thy ===== *)
theory Crc32
  imports Hashmap
begin

text \<open>
  The table-driven checksum of \<open>util/hashmap.c\<close> against its definition: the remainder of
  the message by the reflected CRC-32 polynomial, one bit at a time. Both are linear over
  exclusive or, so the 256 entries of the table follow from eight of them.
\<close>

definition crc_bit :: "i32 \<Rightarrow> i32" where
  "crc_bit c = (if bit c 0 then 0xedb88320 XOR drop_bit 1 c else drop_bit 1 c)"

definition crc_byte :: "i32 \<Rightarrow> i32" where
  "crc_byte c = (crc_bit ^^ 8) c"

text \<open>The reference: fold every byte into the low end and divide eight times.\<close>

definition crc32_reference :: "byte list \<Rightarrow> i32" where
  "crc32_reference s = fold (\<lambda>b c. crc_byte (c XOR ucast b)) s 0"

subsection \<open>Linearity\<close>

lemma crc_bit_xor: "crc_bit (x XOR y) = crc_bit x XOR crc_bit y"
  by (simp add: crc_bit_def bit_simps ac_simps)

lemma crc_pow_xor: "(crc_bit ^^ n) (x XOR y) = (crc_bit ^^ n) x XOR (crc_bit ^^ n) y"
  by (induction n) (simp_all add: crc_bit_xor)

lemma crc_byte_xor: "crc_byte (x XOR y) = crc_byte x XOR crc_byte y"
  by (simp add: crc_byte_def crc_pow_xor)

lemma crc_pow_clear: "(\<And>i. i < n \<Longrightarrow> \<not> bit y i) \<Longrightarrow> (crc_bit ^^ n) y = drop_bit n y"
proof (induction n)
  case (Suc n)
  then have "(crc_bit ^^ Suc n) y = crc_bit (drop_bit n y)" by simp
  also have "\<dots> = drop_bit (Suc n) y" using Suc.prems [of n] by (simp add: crc_bit_def bit_simps)
  finally show ?case .
qed simp

subsection \<open>The table\<close>

lemma crc_byte_unfold:
  "crc_byte c = crc_bit (crc_bit (crc_bit (crc_bit (crc_bit (crc_bit (crc_bit (crc_bit c)))))))"
  by (simp add: crc_byte_def eval_nat_numeral)

lemma crc_bit_odd: "crc_bit c = (if odd c then 0xedb88320 XOR drop_bit 1 c else drop_bit 1 c)"
  by (simp add: crc_bit_def bit_0)

lemma crc_byte_pows:
  "crc_byte 1 = crc32_tab ! 1" "crc_byte 2 = crc32_tab ! 2" "crc_byte 4 = crc32_tab ! 4"
  "crc_byte 8 = crc32_tab ! 8" "crc_byte 16 = crc32_tab ! 16" "crc_byte 32 = crc32_tab ! 32"
  "crc_byte 64 = crc32_tab ! 64" "crc_byte 128 = crc32_tab ! 128"
  unfolding crc_byte_unfold crc_bit_odd by (simp_all add: crc32_tab_def)

definition crc_layer :: "nat \<Rightarrow> bool" where
  "crc_layer k \<longleftrightarrow> take (2 ^ k) (drop (2 ^ k) crc32_tab) =
     map (\<lambda>x. x XOR crc32_tab ! (2 ^ k)) (take (2 ^ k) crc32_tab)"

lemma crc_layers:
  "crc_layer 0" "crc_layer 1" "crc_layer 2" "crc_layer 3"
  "crc_layer 4" "crc_layer 5" "crc_layer 6" "crc_layer 7"
  unfolding crc_layer_def crc32_tab_def by simp_all

lemma length_crc32_tab [simp]: "length crc32_tab = 256"
  by (simp add: crc32_tab_def)

lemma crc_layer_nth:
  assumes "crc_layer k" and "k < 8" and "j < 2 ^ k"
  shows "crc32_tab ! (2 ^ k + j) = crc32_tab ! j XOR crc32_tab ! (2 ^ k)"
proof -
  have "(2::nat) ^ k \<le> 2 ^ 7" using assms(2) by (intro power_increasing) auto
  then have len: "2 ^ k + j < length crc32_tab" using assms(3) by simp
  have "crc32_tab ! (2 ^ k + j) = take (2 ^ k) (drop (2 ^ k) crc32_tab) ! j"
    using assms(3) len by simp
  also have "\<dots> = crc32_tab ! j XOR crc32_tab ! (2 ^ k)"
    unfolding assms(1) [unfolded crc_layer_def] using assms(3) len by simp
  finally show ?thesis .
qed

lemma pow_add_xor: "j < 2 ^ k \<Longrightarrow> (word_of_nat (2 ^ k + j) :: i32) = word_of_nat j XOR 2 ^ k"
proof -
  assume j: "j < 2 ^ k"
  have "\<not> bit j k" using j by (simp add: bit_iff_odd)
  then have "(word_of_nat j :: i32) AND 2 ^ k = 0"
    by (simp add: and_exp_eq_0_iff_not_bit bit_word_of_nat)
  then show ?thesis by (simp add: disjunctive_add_eq_xor [symmetric])
qed

lemma crc_layer_all: "k < 8 \<Longrightarrow> crc_layer k \<and> crc_byte (2 ^ k) = crc32_tab ! (2 ^ k)"
proof -
  assume "k < 8"
  then have "k = 0 \<or> k = 1 \<or> k = 2 \<or> k = 3 \<or> k = 4 \<or> k = 5 \<or> k = 6 \<or> k = 7" by arith
  then show ?thesis by (elim disjE) (simp_all add: crc_layers [simplified] crc_byte_pows [simplified])
qed

lemma crc32_tab_nth_aux:
  assumes "k \<le> 8" and "i < 2 ^ k"
  shows "crc32_tab ! i = crc_byte (word_of_nat i)"
  using assms
proof (induction k arbitrary: i)
  case 0
  have "crc_byte 0 = 0" using crc_byte_xor [of 0 0] by simp
  with 0 show ?case by (simp add: crc32_tab_def)
next
  case (Suc k)
  have layer: "crc_layer k" and pow: "crc_byte (2 ^ k) = crc32_tab ! (2 ^ k)"
    using crc_layer_all [of k] Suc.prems(1) by simp_all
  show ?case
  proof (cases "i < 2 ^ k")
    case True
    with Suc show ?thesis by simp
  next
    case False
    then obtain j where i: "i = 2 ^ k + j" by (metis le_add_diff_inverse not_less)
    with Suc.prems have j: "j < 2 ^ k" by simp
    with Suc have "crc32_tab ! j = crc_byte (word_of_nat j)" by simp
    with layer pow j Suc.prems(1) show ?thesis
      unfolding i pow_add_xor [OF j] crc_byte_xor by (simp add: crc_layer_nth)
  qed
qed


lemma crc32_tab_nth: "i < 256 \<Longrightarrow> crc32_tab ! i = crc_byte (word_of_nat i)"
  using crc32_tab_nth_aux [of 8 i] by simp

subsection \<open>The table-driven step\<close>

lemma crc32_step_reference: "crc32_step b c = crc_byte (c XOR ucast b)"
proof -
  define x where "x = c XOR ucast b"
  have split: "x = (x AND 0xff) XOR (x AND NOT 0xff)"
    by (rule bit_word_eqI) (auto simp: bit_simps)
  have ff: "(0xff :: i32) = mask 8" by (simp add: mask_eq_exp_minus_1)
  have "unat (x AND 0xff) < 256"
    by (rule le_less_trans [OF word_and_le1 [THEN word_le_nat_alt [THEN iffD1]]]) simp
  then have "crc32_tab ! unat (x AND 0xff) = crc_byte (x AND 0xff)"
    by (simp add: crc32_tab_nth)
  moreover have "crc_byte (x AND NOT 0xff) = drop_bit 8 (x AND NOT 0xff)"
    unfolding crc_byte_def
    by (rule crc_pow_clear) (simp add: ff bit_simps)
  moreover have "drop_bit 8 (x AND NOT 0xff) = drop_bit 8 c"
    unfolding x_def ff
    by (rule bit_word_eqI) (auto simp: bit_simps simp del: push_bit_minus_one_eq_not_mask dest: bit_imp_le_length)
  ultimately have "crc_byte x = crc32_tab ! unat (x AND 0xff) XOR drop_bit 8 c"
    by (subst split) (simp only: crc_byte_xor)
  then show ?thesis by (simp add: crc32_step_def x_def)
qed

text \<open>
  C27. \<open>compute_crc32\<close> with its 256-entry table computes the bitwise CRC-32 remainder (reflected
  polynomial 0xEDB88320, initial value 0) of every byte string.
\<close>

theorem compute_crc32_reference: "compute_crc32 s = crc32_reference s"
  unfolding compute_crc32_def crc32_reference_def
  by (rule fold_cong) (simp_all add: crc32_step_reference fun_eq_iff)

end
