(* ===== verification/Emitter.thy ===== *)
theory Emitter
  imports Prelude
begin

text \<open>
  The buffered bytecode emitter of \<open>compiler_emit.c\<close>: bytes are written into a chain of pages
  of \<open>page_size\<close> bytes, and \<open>compiler_emitter_sink\<close> copies the chain into one block. A page is
  malloc'ed with eight further bytes for the link to the next page, so the model's list of
  pages is the chain from \<open>first_page\<close> to \<open>last_page\<close>; a copy that runs past the
  \<open>page_size\<close> bytes of a page (over the link, then over the heap) is \<open>Page_Overflow\<close>.
\<close>

record emitter =
  em_pages :: "byte list list"
  em_size :: nat
  em_capacity :: nat
  em_page_size :: nat

definition compiler_emitter_buffered_new :: "nat \<Rightarrow> emitter" where
  "compiler_emitter_buffered_new page_size =
     \<lparr>em_pages = [], em_size = 0, em_capacity = 0, em_page_size = page_size\<rparr>"

definition emitter_allocate_new_page :: "nat \<Rightarrow> byte list" where
  "emitter_allocate_new_page page_size = replicate page_size 0"

text \<open>\<open>memcpy\<close> into page \<open>i\<close> of the chain; a copy of no bytes touches nothing.\<close>

definition page_write :: "byte list list \<Rightarrow> nat \<Rightarrow> nat \<Rightarrow> byte list \<Rightarrow> byte list list result" where
  "page_write pages i offset data =
     (if data = [] then Inr pages
      else if i < length pages \<and> offset + length data \<le> length (pages ! i)
      then Inr (pages[i := blit (pages ! i) offset data])
      else Inl Page_Overflow)"

definition normal_write :: "emitter \<Rightarrow> byte list \<Rightarrow> emitter result" where
  "normal_write em data =
     (if em_page_size em = 0 then Inl Div_Trap
      else sbind (page_write (em_pages em) (length (em_pages em) - 1) (em_size em mod em_page_size em) data)
             (\<lambda>pages. Inr (em\<lparr>em_pages := pages, em_size := em_size em + length data\<rparr>)))"

definition emitter_emit_buffered :: "emitter \<Rightarrow> byte list \<Rightarrow> emitter result" where
  "emitter_emit_buffered em data =
     (let n = length data; page_size = em_page_size em
      in if em_capacity em < em_size em + n then
           (let pages = em_pages em @ [emitter_allocate_new_page page_size];
                capacity = em_capacity em + page_size;
                em1 = em\<lparr>em_pages := pages, em_capacity := capacity\<rparr>
            in if em_size em + page_size = capacity then normal_write em1 data
               else
                 (let prev_free_space = capacity - em_size em - page_size
                  in sbind (page_write pages (length (em_pages em) - 1) (page_size - prev_free_space)
                              (take prev_free_space data))
                       (\<lambda>pages. sbind (page_write pages (length (em_pages em)) 0 (drop prev_free_space data))
                          (\<lambda>pages. Inr (em1\<lparr>em_pages := pages, em_size := em_size em + n\<rparr>)))))
         else normal_write em data)"

text \<open>
  The second emitter function, \<open>emitter_emit_raw\<close>, is not called anywhere. Its loop fills
  the last page from \<open>size % page_size\<close> on and appends pages while bytes are left.
\<close>

function raw_write :: "emitter \<Rightarrow> byte list \<Rightarrow> emitter result" where
  "raw_write em data =
     (let page_size = em_page_size em
      in if page_size = 0 then Inl Div_Trap
         else
           (let current_page_offset = em_size em mod page_size;
                size_to_write = min (length data) (page_size - current_page_offset);
                n_left = drop size_to_write data
            in sbind (page_write (em_pages em) (length (em_pages em) - 1) current_page_offset
                        (take size_to_write data))
                 (\<lambda>pages.
                    (let em1 = em\<lparr>em_pages := pages, em_size := em_size em + size_to_write\<rparr>
                     in if n_left \<noteq> [] then
                          raw_write (em1\<lparr>em_pages := pages @ [emitter_allocate_new_page page_size],
                                         em_capacity := em_capacity em + page_size\<rparr>) n_left
                        else Inr em1))))"
  by pat_completeness auto

termination
proof (relation "measure (\<lambda>(em, data). length data)", goal_cases)
  case (2 em data page_size off sz rest pages em1)
  have "em_size em mod em_page_size em < em_page_size em" using 2 by simp
  with 2 show ?case by (auto simp: min_def not_le split: if_splits)
qed simp

definition emitter_emit_raw :: "emitter \<Rightarrow> byte list \<Rightarrow> emitter result" where
  "emitter_emit_raw em data =
     raw_write (if em_pages em = []
                then em\<lparr>em_pages := [emitter_allocate_new_page (em_page_size em)],
                        em_capacity := em_capacity em + em_page_size em\<rparr>
                else em) data"

text \<open>
  The loop of \<open>compiler_emitter_sink\<close>: page after page, the last one cut at \<open>bytes_left\<close>. All
  callers pass \<open>emitter->size\<close> as \<open>max_size\<close> and a destination of that length, so the model
  returns the bytes written there.
\<close>

fun sink_loop :: "nat \<Rightarrow> byte list list \<Rightarrow> nat \<Rightarrow> byte list result" where
  "sink_loop page_size [] bytes_left = (if bytes_left = 0 then Inr [] else Inl Null_Deref)"
| "sink_loop page_size (page # pages) bytes_left =
     (if bytes_left = 0 then Inr []
      else sbind (sink_loop page_size pages (bytes_left - min page_size bytes_left))
             (\<lambda>rest. Inr (take (min page_size bytes_left) page @ rest)))"

definition compiler_emitter_sink :: "emitter \<Rightarrow> byte list result" where
  "compiler_emitter_sink em = sink_loop (em_page_size em) (em_pages em) (em_size em)"

end
