(* ===== verification/Emitter_Props.thy ===== *)
theory Emitter_Props
  imports Emitter
begin

text \<open>
  The buffered emitter is a byte sink. \<open>em_wf\<close> describes the page chain between two calls,
  \<open>em_bytes\<close> reads the bytes emitted so far off it, and the lemmas show which emissions
  append, which overflow a page, and that \<open>compiler_emitter_sink\<close> returns exactly the bytes
  emitted. The interface \<open>byte_sink\<close> states what the compiler relies on.
\<close>

definition em_wf :: "emitter \<Rightarrow> bool" where
  "em_wf em \<longleftrightarrow> 0 < em_page_size em \<and> (\<forall>p \<in> set (em_pages em). length p = em_page_size em) \<and>
     em_capacity em = length (em_pages em) * em_page_size em \<and> em_size em \<le> em_capacity em \<and>
     (em_pages em \<noteq> [] \<longrightarrow> (length (em_pages em) - 1) * em_page_size em < em_size em)"

definition em_bytes :: "emitter \<Rightarrow> byte list" where
  "em_bytes em = take (em_size em) (concat (em_pages em))"

definition em_room :: "emitter \<Rightarrow> nat" where
  "em_room em = em_capacity em - em_size em + em_page_size em"

subsection \<open>Pages and their concatenation\<close>

lemma length_concat_pages: "\<forall>p \<in> set pages. length p = ps \<Longrightarrow> length (concat pages) = length pages * ps"
  by (induction pages) auto

lemma blit_append_left:
  "off + length data \<le> length p \<Longrightarrow> blit p off data @ q = blit (p @ q) off data"
  by (simp add: blit_def)

lemma blit_append_right: "blit (p @ q) (length p + off) data = p @ blit q off data"
  by (simp add: blit_def add.assoc)

lemma concat_page_blit:
  assumes "\<forall>p \<in> set pages. length p = ps" "i < length pages" "off + length data \<le> ps"
  shows "concat (pages[i := blit (pages ! i) off data]) = blit (concat pages) (i * ps + off) data"
  using assms
proof (induction pages arbitrary: i)
  case (Cons p pages)
  show ?case
  proof (cases i)
    case 0
    with Cons.prems show ?thesis by (simp add: blit_append_left)
  next
    case (Suc j)
    with Cons have "concat (pages[j := blit (pages ! j) off data]) = blit (concat pages) (j * ps + off) data"
      by simp
    moreover have "i * ps + off = length p + (j * ps + off)" using Suc Cons.prems by simp
    ultimately show ?thesis using Suc by (simp add: blit_append_right add.assoc)
  qed
qed simp

lemma page_write_concat:
  assumes "\<forall>p \<in> set pages. length p = ps" "data \<noteq> [] \<longrightarrow> i < length pages \<and> off + length data \<le> ps"
  obtains pages' where "page_write pages i off data = Inr pages'" "\<forall>p \<in> set pages'. length p = ps"
    "length pages' = length pages"
    "data \<noteq> [] \<longrightarrow> concat pages' = blit (concat pages) (i * ps + off) data"
    "data = [] \<longrightarrow> pages' = pages"
proof (cases "data = []")
  case True
  with that [of pages] assms show ?thesis by (simp add: page_write_def)
next
  case False
  with assms have i: "i < length pages" "off + length data \<le> length (pages ! i)" by auto
  let ?q = "pages[i := blit (pages ! i) off data]"
  have "page_write pages i off data = Inr ?q" using i False by (simp add: page_write_def)
  moreover have "\<forall>p \<in> set ?q. length p = ps"
    using assms(1) i by (auto dest!: set_update_subset_insert [THEN subsetD])
  moreover have "concat ?q = blit (concat pages) (i * ps + off) data"
    using concat_page_blit [OF assms(1) i(1)] assms(2) False by simp
  ultimately show ?thesis using that [of ?q] False by simp
qed

lemma page_write_overflow:
  "data \<noteq> [] \<Longrightarrow> i < length pages \<Longrightarrow> length (pages ! i) < off + length data \<Longrightarrow>
   page_write pages i off data = Inl Page_Overflow"
  by (simp add: page_write_def)

lemma take_blit_append:
  "k \<le> length xs \<Longrightarrow> k + length data \<le> length xs \<Longrightarrow> take (k + length data) (blit xs k data) = take k xs @ data"
  by (simp add: take_blit)

lemma em_wf_new [simp]: "0 < ps \<Longrightarrow> em_wf (compiler_emitter_buffered_new ps)"
  by (simp add: em_wf_def compiler_emitter_buffered_new_def)

lemma em_bytes_new [simp]: "em_bytes (compiler_emitter_buffered_new ps) = []"
  by (simp add: em_bytes_def compiler_emitter_buffered_new_def)

lemma em_bytes_length: "em_wf em \<Longrightarrow> length (em_bytes em) = em_size em"
  using length_concat_pages [of "em_pages em" "em_page_size em"]
  by (simp add: em_bytes_def em_wf_def min_absorb2)

subsection \<open>Writing into the last page\<close>

lemma last_page_offset:
  assumes "0 < (ps::nat)" "(k - 1) * ps < s" "s < k * ps"
  shows "(k - 1) * ps + s mod ps = s"
proof -
  have "s div ps = k - 1"
  proof (rule div_nat_eqI)
    show "ps * (k - 1) \<le> s" using assms(2) by (simp add: mult.commute)
    have "0 < k" using assms(3) by (cases k) simp_all
    then show "s < ps * Suc (k - 1)" using assms(3) by (simp add: mult.commute)
  qed
  then show ?thesis by (metis div_mult_mod_eq)
qed

lemma normal_write_appends:
  assumes "0 < em_page_size em" "\<forall>p \<in> set (em_pages em). length p = em_page_size em"
    and "data \<noteq> []" "em_pages em \<noteq> []"
    and "(length (em_pages em) - 1) * em_page_size em + em_size em mod em_page_size em = em_size em"
    and "em_size em mod em_page_size em + length data \<le> em_page_size em"
  obtains pages' where
    "normal_write em data = Inr (em\<lparr>em_pages := pages', em_size := em_size em + length data\<rparr>)"
    "\<forall>p \<in> set pages'. length p = em_page_size em" "length pages' = length (em_pages em)"
    "concat pages' = blit (concat (em_pages em)) (em_size em) data"
proof -
  have "length (em_pages em) - 1 < length (em_pages em)" using assms(4) by (cases "em_pages em") auto
  with page_write_concat [OF assms(2), of data "length (em_pages em) - 1" "em_size em mod em_page_size em"] assms
  obtain pages' where
    "page_write (em_pages em) (length (em_pages em) - 1) (em_size em mod em_page_size em) data = Inr pages'"
    "\<forall>p \<in> set pages'. length p = em_page_size em" "length pages' = length (em_pages em)"
    "concat pages' = blit (concat (em_pages em)) (em_size em) data"
    by metis
  then show ?thesis using that assms(1) by (simp add: normal_write_def)
qed


subsection \<open>Emission\<close>

lemma emit_fits_last_page:
  assumes wf: "em_wf em" and fits: "em_size em + length data \<le> em_capacity em"
  obtains em' where "emitter_emit_buffered em data = Inr em'" "em_wf em'"
    "em_bytes em' = em_bytes em @ data" "em_page_size em' = em_page_size em"
proof (cases "data = []")
  case True
  with wf fits show ?thesis using that [of em]
    by (simp add: emitter_emit_buffered_def normal_write_def page_write_def em_wf_def)
next
  case False
  let ?ps = "em_page_size em" and ?k = "length (em_pages em)" and ?s = "em_size em"
  have cap: "?s + length data \<le> ?k * ?ps" and ps: "0 < ?ps" "\<forall>p \<in> set (em_pages em). length p = ?ps"
    using wf fits by (simp_all add: em_wf_def)
  have lt: "?s < ?k * ?ps" using cap False by (cases data) auto
  then have ne: "em_pages em \<noteq> []" by auto
  with wf have low: "(?k - 1) * ?ps < ?s" by (simp add: em_wf_def)
  have off: "(?k - 1) * ?ps + ?s mod ?ps = ?s" using last_page_offset [OF ps(1) low lt] .
  have "?k * ?ps = (?k - 1) * ?ps + ?ps" using ne by (cases "em_pages em") simp_all
  with cap off have "?s mod ?ps + length data \<le> ?ps" by linarith
  then obtain pages' where w:
    "normal_write em data = Inr (em\<lparr>em_pages := pages', em_size := ?s + length data\<rparr>)"
    "\<forall>p \<in> set pages'. length p = ?ps" "length pages' = ?k"
    "concat pages' = blit (concat (em_pages em)) ?s data"
    using normal_write_appends [OF ps False ne off] by blast
  let ?em' = "em\<lparr>em_pages := pages', em_size := ?s + length data\<rparr>"
  have "emitter_emit_buffered em data = Inr ?em'"
    using fits w(1) by (simp add: emitter_emit_buffered_def Let_def)
  moreover have "em_wf ?em'"
    using wf w fits low by (auto simp: em_wf_def)
  moreover have "em_bytes ?em' = em_bytes em @ data"
    using w(4) cap length_concat_pages [OF ps(2)] by (simp add: em_bytes_def take_blit)
  ultimately show ?thesis using that by simp
qed

lemma em_wf_grow:
  assumes "em_wf em"
  shows "\<forall>p \<in> set (em_pages em @ [emitter_allocate_new_page (em_page_size em)]). length p = em_page_size em"
  using assms by (simp add: em_wf_def emitter_allocate_new_page_def)

lemma emit_on_new_page:
  assumes wf: "em_wf em" and full: "em_size em = em_capacity em"
    and data: "data \<noteq> []" "length data \<le> em_page_size em"
  obtains em' where "emitter_emit_buffered em data = Inr em'" "em_wf em'"
    "em_bytes em' = em_bytes em @ data" "em_page_size em' = em_page_size em"
proof -
  let ?ps = "em_page_size em" and ?k = "length (em_pages em)" and ?s = "em_size em"
  let ?pages = "em_pages em @ [emitter_allocate_new_page ?ps]"
  let ?em1 = "em\<lparr>em_pages := ?pages, em_capacity := em_capacity em + ?ps\<rparr>"
  have ps: "0 < ?ps" and cap: "em_capacity em = ?k * ?ps" using wf by (simp_all add: em_wf_def)
  have mod: "?s mod ?ps = 0" using full cap by simp
  obtain pages' where w:
    "normal_write ?em1 data = Inr (?em1\<lparr>em_pages := pages', em_size := ?s + length data\<rparr>)"
    "\<forall>p \<in> set pages'. length p = ?ps" "length pages' = ?k + 1"
    "concat pages' = blit (concat ?pages) ?s data"
    using normal_write_appends [of ?em1 data] em_wf_grow [OF wf] ps mod full cap data by auto
  let ?em' = "?em1\<lparr>em_pages := pages', em_size := ?s + length data\<rparr>"
  have pos: "0 < length data" using data(1) by simp
  have "emitter_emit_buffered em data = Inr ?em'"
    using w(1) full pos by (simp add: emitter_emit_buffered_def Let_def)
  moreover have "em_wf ?em'"
    using ps cap full w(2,3) data pos by (simp add: em_wf_def del: length_greater_0_conv)
  moreover have "em_bytes ?em' = em_bytes em @ data"
    using w(4) data full cap length_concat_pages [OF em_wf_grow [OF wf]]
      length_concat_pages [of "em_pages em" ?ps] wf
    by (simp add: em_bytes_def take_blit em_wf_def)
  ultimately show ?thesis using that by simp
qed

lemma emit_across_pages:
  assumes wf: "em_wf em" and free: "em_size em < em_capacity em"
    and grow: "em_capacity em < em_size em + length data"
    and fits: "em_size em + length data \<le> em_capacity em + em_page_size em"
  obtains em' where "emitter_emit_buffered em data = Inr em'" "em_wf em'"
    "em_bytes em' = em_bytes em @ data" "em_page_size em' = em_page_size em"
proof -
  let ?ps = "em_page_size em" and ?k = "length (em_pages em)" and ?s = "em_size em"
  let ?pages = "em_pages em @ [emitter_allocate_new_page ?ps]"
  let ?f = "em_capacity em - ?s"
  have ps: "0 < ?ps" and cap: "em_capacity em = ?k * ?ps" using wf by (simp_all add: em_wf_def)
  have ne: "em_pages em \<noteq> []" using free cap by auto
  with wf have low: "(?k - 1) * ?ps < ?s" by (simp add: em_wf_def)
  have k: "?k * ?ps = (?k - 1) * ?ps + ?ps" using ne by (cases "em_pages em") simp_all
  have f: "0 < ?f" "?f < ?ps" "?f < length data" "(?k - 1) * ?ps + (?ps - ?f) = ?s"
    using low free grow k cap by linarith+
  have d1: "length (take ?f data) = ?f" "take ?f data \<noteq> []" using f by auto
  have "take ?f data \<noteq> [] \<longrightarrow> ?k - 1 < length ?pages \<and> (?ps - ?f) + length (take ?f data) \<le> ?ps"
    using f d1 by simp
  from page_write_concat [OF em_wf_grow [OF wf] this] obtain q where q:
    "page_write ?pages (?k - 1) (?ps - ?f) (take ?f data) = Inr q" "\<forall>p \<in> set q. length p = ?ps"
    "length q = length ?pages" "concat q = blit (concat ?pages) ?s (take ?f data)"
    using d1 f(4) by metis
  have "drop ?f data \<noteq> [] \<longrightarrow> ?k < length q \<and> 0 + length (drop ?f data) \<le> ?ps"
    using q(3) fits free by auto
  from page_write_concat [OF q(2) this] obtain r where r:
    "page_write q ?k 0 (drop ?f data) = Inr r" "\<forall>p \<in> set r. length p = ?ps"
    "length r = length q" "concat r = blit (concat q) (?k * ?ps) (drop ?f data)"
    using f(3) by (metis add.right_neutral drop_eq_Nil not_le)
  have lc: "length (concat (em_pages em)) = ?k * ?ps" "length (concat ?pages) = ?k * ?ps + ?ps"
    using length_concat_pages [OF em_wf_grow [OF wf]] length_concat_pages [of "em_pages em" ?ps] wf
    by (simp_all add: em_wf_def)
  have s_f: "?s + ?f = ?k * ?ps" using free cap by simp
  have "take (?s + length data) (concat r) = take (?k * ?ps) (concat q) @ drop ?f data"
    using take_blit [of "?k * ?ps" "drop ?f data" "concat q"] q(4) lc f s_f fits d1 cap
    unfolding r(4) by (simp add: add.commute add.left_commute)
  also have "take (?k * ?ps) (concat q) = take ?s (concat ?pages) @ take ?f data"
    using take_blit [of ?s "take ?f data" "concat ?pages"] lc s_f d1 q(4) by simp
  finally have bytes: "take (?s + length data) (concat r) = take ?s (concat (em_pages em)) @ data"
    using lc free cap by simp
  let ?em' = "em\<lparr>em_pages := r, em_capacity := em_capacity em + ?ps, em_size := ?s + length data\<rparr>"
  have "emitter_emit_buffered em data = Inr ?em'"
    using grow free q(1) r(1) by (simp add: emitter_emit_buffered_def Let_def)
  moreover have "em_wf ?em'"
    using r q ps cap grow fits by (simp add: em_wf_def)
  moreover have "em_bytes ?em' = em_bytes em @ data"
    using bytes by (simp add: em_bytes_def)
  ultimately show ?thesis using that by simp
qed

lemma emitter_emit_ok:
  assumes "em_wf em" "length data \<le> em_room em"
  obtains em' where "emitter_emit_buffered em data = Inr em'" "em_wf em'"
    "em_bytes em' = em_bytes em @ data" "em_page_size em' = em_page_size em"
proof -
  have le: "em_size em \<le> em_capacity em" using assms(1) by (simp add: em_wf_def)
  consider "em_size em + length data \<le> em_capacity em"
    | "em_size em = em_capacity em" "data \<noteq> []" "length data \<le> em_page_size em"
    | "em_size em < em_capacity em" "em_capacity em < em_size em + length data"
      "em_size em + length data \<le> em_capacity em + em_page_size em"
  proof -
    from le consider "em_size em + length data \<le> em_capacity em" | "em_size em = em_capacity em" "data \<noteq> []"
      | "em_size em < em_capacity em" "em_capacity em < em_size em + length data"
      by (cases "data = []") (simp, linarith)
    then show ?thesis using that assms(2) le by cases (auto simp: em_room_def)
  qed
  then show ?thesis
    using that emit_fits_last_page [OF assms(1)] emit_on_new_page [OF assms(1)]
      emit_across_pages [OF assms(1)] by cases metis+
qed

lemma emitter_emit_overflow:
  assumes wf: "em_wf em" and big: "em_room em < length data"
  shows "emitter_emit_buffered em data = Inl Page_Overflow"
proof -
  let ?ps = "em_page_size em" and ?k = "length (em_pages em)" and ?s = "em_size em"
  let ?pages = "em_pages em @ [emitter_allocate_new_page ?ps]"
  have ps: "0 < ?ps" and cap: "em_capacity em = ?k * ?ps" and le: "?s \<le> em_capacity em"
    using wf by (simp_all add: em_wf_def)
  have grow: "em_capacity em < ?s + length data" using big le by (simp add: em_room_def)
  have last: "length (?pages ! ?k) = ?ps" by (simp add: emitter_allocate_new_page_def)
  show ?thesis
  proof (cases "?s = em_capacity em")
    case True
    then have "page_write ?pages ?k (?s mod ?ps) data = Inl Page_Overflow"
      using big cap last by (intro page_write_overflow) (auto simp: em_room_def)
    then show ?thesis using True grow ps by (simp add: emitter_emit_buffered_def normal_write_def Let_def)
  next
    case False
    let ?f = "em_capacity em - ?s"
    have ne: "em_pages em \<noteq> []" using False cap le by auto
    with wf have low: "(?k - 1) * ?ps < ?s" by (simp add: em_wf_def)
    have k: "?k * ?ps = (?k - 1) * ?ps + ?ps" using ne by (cases "em_pages em") simp_all
    have f: "?f < ?ps" "?f < length data" using low k cap False le grow by linarith+
    have "take ?f data \<noteq> [] \<longrightarrow> ?k - 1 < length ?pages \<and> (?ps - ?f) + length (take ?f data) \<le> ?ps"
      using f by auto
    from page_write_concat [OF em_wf_grow [OF wf] this] obtain q where q:
      "page_write ?pages (?k - 1) (?ps - ?f) (take ?f data) = Inr q" "\<forall>p \<in> set q. length p = ?ps"
      "length q = length ?pages" by metis
    have "page_write q ?k 0 (drop ?f data) = Inl Page_Overflow"
      using q f big by (intro page_write_overflow) (auto simp: em_room_def)
    with q(1) False grow le show ?thesis by (simp add: emitter_emit_buffered_def Let_def)
  qed
qed


subsection \<open>Reading the pages back\<close>

lemma sink_loop_take:
  assumes "0 < ps" "\<forall>p \<in> set pages. length p = ps" "n \<le> length pages * ps"
  shows "sink_loop ps pages n = Inr (take n (concat pages))"
  using assms
proof (induction pages arbitrary: n)
  case (Cons p pages)
  then have "sink_loop ps pages (n - min ps n) = Inr (take (n - min ps n) (concat pages))"
    by (intro Cons.IH) auto
  then show ?case using Cons.prems by (simp add: min_def)
qed simp

lemma sink_loop_short:
  assumes "0 < ps" "length pages * ps < n"
  shows "sink_loop ps pages n = Inl Null_Deref"
  using assms(2)
proof (induction pages arbitrary: n)
  case (Cons p pages)
  then have "sink_loop ps pages (n - min ps n) = Inl Null_Deref"
    by (intro Cons.IH) (auto simp: min_def)
  then show ?case using Cons.prems by simp
qed simp

lemma compiler_emitter_sink_wf:
  "em_wf em \<Longrightarrow> compiler_emitter_sink em = Inr (em_bytes em)"
  unfolding compiler_emitter_sink_def em_bytes_def
  by (rule sink_loop_take) (simp_all add: em_wf_def)

subsection \<open>The interface the compiler uses\<close>

text \<open>
  A byte sink holds the bytes emitted so far and accepts at least \<open>limit\<close> more in one call;
  the client emits chunk after chunk.
\<close>

primrec emit_chunks :: "('e \<Rightarrow> byte list \<Rightarrow> 'e result) \<Rightarrow> 'e \<Rightarrow> byte list list \<Rightarrow> 'e result" where
  "emit_chunks emit e [] = Inr e"
| "emit_chunks emit e (c # cs) = sbind (emit e c) (\<lambda>e. emit_chunks emit e cs)"

locale byte_sink =
  fixes emit :: "'e \<Rightarrow> byte list \<Rightarrow> 'e result"
    and bytes :: "'e \<Rightarrow> byte list"
    and ok :: "'e \<Rightarrow> bool"
    and limit :: "'e \<Rightarrow> nat"
  assumes emit_appends: "ok e \<Longrightarrow> length data \<le> limit e \<Longrightarrow>
    \<exists>e'. emit e data = Inr e' \<and> ok e' \<and> limit e' = limit e \<and> bytes e' = bytes e @ data"
begin

lemma emit_chunks_append:
  assumes "ok e" "\<forall>c \<in> set chunks. length c \<le> limit e"
  shows "\<exists>e'. emit_chunks emit e chunks = Inr e' \<and> ok e' \<and> limit e' = limit e \<and>
    bytes e' = bytes e @ concat chunks"
  using assms
proof (induction chunks arbitrary: e)
  case (Cons c cs)
  then obtain e1 where e1: "emit e c = Inr e1" "ok e1" "limit e1 = limit e" "bytes e1 = bytes e @ c"
    using emit_appends [of e c] by auto
  with Cons.IH [of e1] Cons.prems show ?case by auto
qed simp

lemma emit_then_emit:
  assumes "ok e" "length a \<le> limit e" "length b \<le> limit e"
  shows "\<exists>e'. sbind (emit e a) (\<lambda>e. emit e b) = Inr e' \<and> ok e' \<and> bytes e' = bytes e @ a @ b"
  using emit_appends [OF assms(1,2)] emit_appends assms(3) by fastforce

end

interpretation pages: byte_sink emitter_emit_buffered em_bytes em_wf em_page_size
proof unfold_locales
  fix em and data :: "byte list" assume a: "em_wf em" "length data \<le> em_page_size em"
  have "length data \<le> em_room em" using a(2) by (simp add: em_room_def)
  with a(1) show "\<exists>em'. emitter_emit_buffered em data = Inr em' \<and> em_wf em' \<and>
      em_page_size em' = em_page_size em \<and> em_bytes em' = em_bytes em @ data"
    using emitter_emit_ok by metis
qed

subsection \<open>Properties\<close>

text \<open>
  C8. Round trip of the buffered emitter: whatever chunks are emitted into a fresh emitter,
  none longer than a page, the emission succeeds and \<open>compiler_emitter_sink\<close> returns their
  concatenation, across every page boundary.
\<close>

theorem emitter_sink_roundtrip:
  assumes "0 < page_size" "\<forall>c \<in> set chunks. length c \<le> page_size"
  shows "sbind (emit_chunks emitter_emit_buffered (compiler_emitter_buffered_new page_size) chunks)
           compiler_emitter_sink = Inr (concat chunks)"
proof -
  let ?e = "compiler_emitter_buffered_new page_size"
  have "\<forall>c \<in> set chunks. length c \<le> em_page_size ?e"
    using assms(2) by (simp add: compiler_emitter_buffered_new_def)
  then show ?thesis
    using pages.emit_chunks_append [of ?e chunks] assms(1) compiler_emitter_sink_wf by auto
qed

lemma emitter_sink_roundtrip_witness:
  "sbind (emit_chunks emitter_emit_buffered (compiler_emitter_buffered_new 4) [[1, 2, 3], [4, 5, 6], [7]])
     compiler_emitter_sink = Inr [1, 2, 3, 4, 5, 6, 7]"
  using emitter_sink_roundtrip [of 4 "[[1, 2, 3], [4, 5, 6], [7]]"] by simp

text \<open>
  C30. Exactly when one emission leaves its page: the copy runs past the end of a page if and
  only if the chunk is longer than the free bytes of the last page plus one whole page. The
  body of a compiled \<open>if\<close>, \<open>while\<close> or function is emitted as one such chunk.
\<close>

theorem emitter_emit_buffered_overflow_iff:
  assumes "em_wf em"
  shows "emitter_emit_buffered em data = Inl Page_Overflow \<longleftrightarrow>
    em_capacity em - em_size em + em_page_size em < length data"
  using emitter_emit_ok [OF assms, of data] emitter_emit_overflow [OF assms, of data]
  by (metis em_room_def not_le old.sum.distinct(2))

lemma emitter_emit_buffered_overflow_iff_witness:
  "emitter_emit_buffered (compiler_emitter_buffered_new 4) [1, 2, 3, 4, 5] = Inl Page_Overflow"
  using emitter_emit_buffered_overflow_iff [of "compiler_emitter_buffered_new 4" "[1, 2, 3, 4, 5]"]
  by (simp add: compiler_emitter_buffered_new_def em_wf_def)

text \<open>
  The unused second emitter loses its place on a full page: when the last page is exactly
  full, \<open>emitter_emit_raw\<close> writes the next bytes over that page, and a later sink runs off
  the end of the page chain.
\<close>

theorem emitter_emit_raw_full_page:
  assumes "em_wf em" "em_pages em \<noteq> []" "em_size em = em_capacity em"
    and "data \<noteq> []" "length data \<le> em_page_size em"
  shows "\<exists>em'. emitter_emit_raw em data = Inr em' \<and>
    take (length data) (last (em_pages em')) = data \<and>
    length (em_pages em') = length (em_pages em) \<and> compiler_emitter_sink em' = Inl Null_Deref"
proof -
  let ?ps = "em_page_size em" and ?k = "length (em_pages em)"
  have ps: "0 < ?ps" "em_size em = ?k * ?ps" "\<forall>p \<in> set (em_pages em). length p = ?ps"
    using assms(1,3) by (simp_all add: em_wf_def)
  have last: "length (em_pages em ! (?k - 1)) = ?ps" using ps(3) assms(2) by simp
  let ?pages = "(em_pages em)[?k - 1 := blit (em_pages em ! (?k - 1)) 0 data]"
  let ?em' = "em\<lparr>em_pages := ?pages, em_size := em_size em + length data\<rparr>"
  have "page_write (em_pages em) (?k - 1) 0 data = Inr ?pages"
    using assms(2,4,5) last by (simp add: page_write_def)
  then have "emitter_emit_raw em data = Inr ?em'"
    using assms(2,5) ps(1,2) by (simp add: emitter_emit_raw_def Let_def)
  moreover have "take (length data) (last ?pages) = data"
    using assms(2,5) last by (simp add: last_conv_nth take_blit [of 0, simplified])
  moreover have "compiler_emitter_sink ?em' = Inl Null_Deref"
    unfolding compiler_emitter_sink_def using ps assms(4) by (intro sink_loop_short) simp_all
  ultimately show ?thesis by auto
qed

lemma emitter_emit_raw_full_page_witness:
  "\<exists>em'. emitter_emit_raw \<lparr>em_pages = [[7, 7]], em_size = 2, em_capacity = 2, em_page_size = 2\<rparr> [1] = Inr em' \<and>
    take (length [1 :: byte]) (last (em_pages em')) = [1] \<and>
    length (em_pages em') = length [[7, 7 :: byte]] \<and> compiler_emitter_sink em' = Inl Null_Deref"
  using emitter_emit_raw_full_page
    [of "\<lparr>em_pages = [[7, 7]], em_size = 2, em_capacity = 2, em_page_size = 2\<rparr>" "[1]"]
  by (simp add: em_wf_def)

end
