(* ===== verification/Opcodes.thy ===== *)
theory Opcodes
  imports Prelude
begin

text \<open>
  The constants the parser, the compiler and the virtual machine share: the static types of
  \<open>types.h\<close> and \<open>vm/runtime.h\<close>, the operator words of \<open>operator.h\<close>, the opcodes of
  \<open>vm/opcodes.h\<close> with their mnemonics (\<open>executor.c\<close>), the table of stack effects the
  compiler uses (\<open>compiler.c\<close>), and the translations between operators, types and opcodes
  (\<open>compiler_vars.c\<close>).
\<close>

subsection \<open>Static types\<close>

type_synonym static_type = nat

abbreviation (input) TYPE_UNKNWN :: static_type where "TYPE_UNKNWN \<equiv> 0"
abbreviation (input) TYPE_NONE :: static_type where "TYPE_NONE \<equiv> 15"
abbreviation (input) TYPE_BOOL :: static_type where "TYPE_BOOL \<equiv> 1"
abbreviation (input) TYPE_INT :: static_type where "TYPE_INT \<equiv> 2"
abbreviation (input) TYPE_FLOAT :: static_type where "TYPE_FLOAT \<equiv> 3"
abbreviation (input) TYPE_CHAR :: static_type where "TYPE_CHAR \<equiv> 4"
abbreviation (input) TYPE_STRING :: static_type where "TYPE_STRING \<equiv> 5"

text \<open>\<open>compiler_panic\<close> prints its message and calls \<open>exit(255)\<close>; the arguments of the format are left out.\<close>

abbreviation compiler_panic :: "string \<Rightarrow> 'a result" where
  "compiler_panic msg \<equiv> Inl (Compiler_Panic msg)"

definition static_type_by_name :: "string \<Rightarrow> static_type result" where
  "static_type_by_name type_name =
     (if type_name = ''int'' then Inr TYPE_INT
      else if type_name = ''float'' then Inr TYPE_FLOAT
      else if type_name = ''void'' then Inr TYPE_NONE
      else compiler_panic ''unknown static name type'')"

definition type_signature_by_name :: "string \<Rightarrow> string result" where
  "type_signature_by_name type_name =
     (if type_name = ''int'' then Inr ''I''
      else if type_name = ''float'' then Inr ''F''
      else if type_name = ''void'' then Inr ''V''
      else compiler_panic ''unknown static name type'')"

subsection \<open>Operators\<close>

datatype operator =
    POST_INCREMENT | POST_DECREMENT | BITWISE_NOT | LOGICAL_NOT
  | MULTIPLICATION | DIVISION | ADDITION | SUBTRACTION | ASSIGNMENT
  | BITWISE_SHIFT_LEFT | BITWISE_SHIFT_RIGHT | BITWISE_AND | BITWISE_OR | BITWISE_XOR
  | EQUAL_TO | NOT_EQUAL_TO | GREATER_THAN | LESS_THAN | NOT_GREATER_THAN | NOT_LESS_THAN
  | LOGICAL_AND | LOGICAL_OR | LOGICAL_XOR | LOGICAL_IMPLICATION
  | TERNARY_CONDITIONAL | FUNCTION_CALL | SUBSCRIPT | MEMBER_ACCESS | UNARY_MINUS | COMMA

abbreviation (input) OP_UNARY :: i32 where "OP_UNARY \<equiv> 0x00000000"
abbreviation (input) OP_BINARY :: i32 where "OP_BINARY \<equiv> 0x40000000"
abbreviation (input) OP_TERNARY :: i32 where "OP_TERNARY \<equiv> 0x80000000"

abbreviation (input) OP_TYPE_INCDEC :: i32 where "OP_TYPE_INCDEC \<equiv> 0x00000000"
abbreviation (input) OP_TYPE_BIT :: i32 where "OP_TYPE_BIT \<equiv> 0x01000000"
abbreviation (input) OP_TYPE_ARITHM :: i32 where "OP_TYPE_ARITHM \<equiv> 0x02000000"
abbreviation (input) OP_TYPE_COMP :: i32 where "OP_TYPE_COMP \<equiv> 0x04000000"
abbreviation (input) OP_TYPE_LOGIC :: i32 where "OP_TYPE_LOGIC \<equiv> 0x05000000"
abbreviation (input) OP_TYPE_ACCESS :: i32 where "OP_TYPE_ACCESS \<equiv> 0x06000000"
abbreviation (input) OP_TYPE_OTHER :: i32 where "OP_TYPE_OTHER \<equiv> 0x07000000"

abbreviation (input) OP_ASSOC_LTR :: i32 where "OP_ASSOC_LTR \<equiv> 0x00000"
abbreviation (input) OP_ASSOC_RTL :: i32 where "OP_ASSOC_RTL \<equiv> 0x40000"

abbreviation (input) OP_ARITY_MASK :: i32 where "OP_ARITY_MASK \<equiv> 0xc0000000"
abbreviation (input) OP_TYPE_MASK :: i32 where "OP_TYPE_MASK \<equiv> 0x3f000000"
abbreviation (input) OP_ASSOCIATIVITY_MASK :: i32 where "OP_ASSOCIATIVITY_MASK \<equiv> 0x00040000"
abbreviation (input) OP_ID_MASK :: i32 where "OP_ID_MASK \<equiv> 0x0000ffff"

text \<open>\<open>OP_PRECED_p\<close> is \<open>p\<close> shifted left by 20 bits.\<close>

definition OP_PRECED :: "nat \<Rightarrow> i32" where
  "OP_PRECED p = push_bit 20 (word_of_nat p)"

fun operator_code :: "operator \<Rightarrow> i32" where
  "operator_code POST_INCREMENT = (OP_UNARY OR OP_TYPE_INCDEC OR OP_PRECED 1 OR OP_ASSOC_LTR OR 0x01)"
| "operator_code POST_DECREMENT = (OP_UNARY OR OP_TYPE_INCDEC OR OP_PRECED 1 OR OP_ASSOC_LTR OR 0x02)"
| "operator_code BITWISE_NOT = (OP_UNARY OR OP_TYPE_BIT OR OP_PRECED 2 OR OP_ASSOC_RTL OR 0x03)"
| "operator_code LOGICAL_NOT = (OP_UNARY OR OP_TYPE_LOGIC OR OP_PRECED 2 OR OP_ASSOC_RTL OR 0x04)"
| "operator_code MULTIPLICATION = (OP_BINARY OR OP_TYPE_ARITHM OR OP_PRECED 3 OR OP_ASSOC_LTR OR 0x05)"
| "operator_code DIVISION = (OP_BINARY OR OP_TYPE_ARITHM OR OP_PRECED 3 OR OP_ASSOC_LTR OR 0x06)"
| "operator_code ADDITION = (OP_BINARY OR OP_TYPE_ARITHM OR OP_PRECED 4 OR OP_ASSOC_LTR OR 0x07)"
| "operator_code SUBTRACTION = (OP_BINARY OR OP_TYPE_ARITHM OR OP_PRECED 4 OR OP_ASSOC_LTR OR 0x08)"
| "operator_code ASSIGNMENT = (OP_BINARY OR OP_TYPE_ARITHM OR OP_PRECED 14 OR OP_ASSOC_RTL OR 0x09)"
| "operator_code BITWISE_SHIFT_LEFT = (OP_BINARY OR OP_TYPE_BIT OR OP_PRECED 5 OR OP_ASSOC_LTR OR 0x0a)"
| "operator_code BITWISE_SHIFT_RIGHT = (OP_BINARY OR OP_TYPE_BIT OR OP_PRECED 5 OR OP_ASSOC_LTR OR 0x0b)"
| "operator_code BITWISE_AND = (OP_BINARY OR OP_TYPE_BIT OR OP_PRECED 8 OR OP_ASSOC_LTR OR 0x0c)"
| "operator_code BITWISE_OR = (OP_BINARY OR OP_TYPE_BIT OR OP_PRECED 9 OR OP_ASSOC_LTR OR 0x0d)"
| "operator_code BITWISE_XOR = (OP_BINARY OR OP_TYPE_BIT OR OP_PRECED 9 OR OP_ASSOC_LTR OR 0x0e)"
| "operator_code EQUAL_TO = (OP_BINARY OR OP_TYPE_COMP OR OP_PRECED 7 OR OP_ASSOC_LTR OR 0x11)"
| "operator_code NOT_EQUAL_TO = (OP_BINARY OR OP_TYPE_COMP OR OP_PRECED 7 OR OP_ASSOC_LTR OR 0x12)"
| "operator_code GREATER_THAN = (OP_BINARY OR OP_TYPE_COMP OR OP_PRECED 6 OR OP_ASSOC_LTR OR 0x13)"
| "operator_code LESS_THAN = (OP_BINARY OR OP_TYPE_COMP OR OP_PRECED 6 OR OP_ASSOC_LTR OR 0x14)"
| "operator_code NOT_GREATER_THAN = (OP_BINARY OR OP_TYPE_COMP OR OP_PRECED 6 OR OP_ASSOC_LTR OR 0x15)"
| "operator_code NOT_LESS_THAN = (OP_BINARY OR OP_TYPE_COMP OR OP_PRECED 6 OR OP_ASSOC_LTR OR 0x16)"
| "operator_code LOGICAL_AND = (OP_BINARY OR OP_TYPE_LOGIC OR OP_PRECED 10 OR OP_ASSOC_LTR OR 0x17)"
| "operator_code LOGICAL_OR = (OP_BINARY OR OP_TYPE_LOGIC OR OP_PRECED 12 OR OP_ASSOC_LTR OR 0x18)"
| "operator_code LOGICAL_XOR = (OP_BINARY OR OP_TYPE_LOGIC OR OP_PRECED 11 OR OP_ASSOC_LTR OR 0x19)"
| "operator_code LOGICAL_IMPLICATION = (OP_BINARY OR OP_TYPE_LOGIC OR OP_PRECED 12 OR OP_ASSOC_LTR OR 0x1a)"
| "operator_code TERNARY_CONDITIONAL = (OP_TERNARY OR OP_TYPE_OTHER OR OP_PRECED 13 OR OP_ASSOC_RTL OR 0x1b)"
| "operator_code FUNCTION_CALL = (OP_BINARY OR OP_TYPE_OTHER OR OP_PRECED 2 OR OP_ASSOC_LTR OR 0x1c)"
| "operator_code SUBSCRIPT = (OP_BINARY OR OP_TYPE_ACCESS OR OP_PRECED 2 OR OP_ASSOC_LTR OR 0x1d)"
| "operator_code MEMBER_ACCESS = (OP_BINARY OR OP_TYPE_ACCESS OR OP_PRECED 2 OR OP_ASSOC_LTR OR 0x1e)"
| "operator_code UNARY_MINUS = (OP_UNARY OR OP_TYPE_ARITHM OR OP_PRECED 2 OR OP_ASSOC_LTR OR 0x1f)"
| "operator_code COMMA = (OP_BINARY OR OP_TYPE_OTHER OR OP_PRECED 15 OR OP_ASSOC_LTR OR 0x20)"

definition OPERATOR_ID :: "i32 \<Rightarrow> i32" where
  "OPERATOR_ID oper = oper AND OP_ID_MASK"

definition IS_LTR_ASSOCIATIVE :: "i32 \<Rightarrow> bool" where
  "IS_LTR_ASSOCIATIVE oper \<longleftrightarrow> oper AND OP_ASSOCIATIVITY_MASK = OP_ASSOC_LTR"

definition OPERATOR_ARITY :: "i32 \<Rightarrow> i32" where
  "OPERATOR_ARITY oper = drop_bit 30 (oper AND OP_ARITY_MASK) + 1"

definition IS_COMPARISON_OPERATOR :: "i32 \<Rightarrow> bool" where
  "IS_COMPARISON_OPERATOR oper \<longleftrightarrow> oper AND OP_TYPE_MASK = OP_TYPE_COMP"

definition IS_ARITHMETIC_OPERATOR :: "i32 \<Rightarrow> bool" where
  "IS_ARITHMETIC_OPERATOR oper \<longleftrightarrow> oper AND OP_TYPE_MASK = OP_TYPE_ARITHM"

subsection \<open>Opcodes\<close>

abbreviation (input) OPCODE_NOP :: byte where "OPCODE_NOP \<equiv> 0x00"
abbreviation (input) OPCODE_EXSTK :: byte where "OPCODE_EXSTK \<equiv> 0x10"
abbreviation (input) OPCODE_ILOAD :: byte where "OPCODE_ILOAD \<equiv> 0x32"
abbreviation (input) OPCODE_ISAVE :: byte where "OPCODE_ISAVE \<equiv> 0x33"
abbreviation (input) OPCODE_FLOAD :: byte where "OPCODE_FLOAD \<equiv> 0x34"
abbreviation (input) OPCODE_FSAVE :: byte where "OPCODE_FSAVE \<equiv> 0x35"
abbreviation (input) OPCODE_ICONST :: byte where "OPCODE_ICONST \<equiv> 0x36"
abbreviation (input) OPCODE_FCONST :: byte where "OPCODE_FCONST \<equiv> 0x37"
abbreviation (input) OPCODE_IADD :: byte where "OPCODE_IADD \<equiv> 0x42"
abbreviation (input) OPCODE_ISUB :: byte where "OPCODE_ISUB \<equiv> 0x43"
abbreviation (input) OPCODE_IMUL :: byte where "OPCODE_IMUL \<equiv> 0x44"
abbreviation (input) OPCODE_IDIV :: byte where "OPCODE_IDIV \<equiv> 0x45"
abbreviation (input) OPCODE_INEG :: byte where "OPCODE_INEG \<equiv> 0x46"
abbreviation (input) OPCODE_I2F :: byte where "OPCODE_I2F \<equiv> 0x47"
abbreviation (input) OPCODE_IEQ :: byte where "OPCODE_IEQ \<equiv> 0x4a"
abbreviation (input) OPCODE_INEQ :: byte where "OPCODE_INEQ \<equiv> 0x4b"
abbreviation (input) OPCODE_ILT :: byte where "OPCODE_ILT \<equiv> 0x4c"
abbreviation (input) OPCODE_INGT :: byte where "OPCODE_INGT \<equiv> 0x4d"
abbreviation (input) OPCODE_IGT :: byte where "OPCODE_IGT \<equiv> 0x4e"
abbreviation (input) OPCODE_INLT :: byte where "OPCODE_INLT \<equiv> 0x4f"
abbreviation (input) OPCODE_FADD :: byte where "OPCODE_FADD \<equiv> 0x50"
abbreviation (input) OPCODE_FSUB :: byte where "OPCODE_FSUB \<equiv> 0x51"
abbreviation (input) OPCODE_FMUL :: byte where "OPCODE_FMUL \<equiv> 0x52"
abbreviation (input) OPCODE_FDIV :: byte where "OPCODE_FDIV \<equiv> 0x53"
abbreviation (input) OPCODE_FNEG :: byte where "OPCODE_FNEG \<equiv> 0x54"
abbreviation (input) OPCODE_JMP :: byte where "OPCODE_JMP \<equiv> 0x60"
abbreviation (input) OPCODE_RJMP :: byte where "OPCODE_RJMP \<equiv> 0x61"
abbreviation (input) OPCODE_JEZ :: byte where "OPCODE_JEZ \<equiv> 0x62"
abbreviation (input) OPCODE_JNEZ :: byte where "OPCODE_JNEZ \<equiv> 0x63"
abbreviation (input) OPCODE_CALL :: byte where "OPCODE_CALL \<equiv> 0x80"
abbreviation (input) OPCODE_PANIC :: byte where "OPCODE_PANIC \<equiv> 0xff"

definition get_opcode_mnemonic :: "byte \<Rightarrow> string" where
  "get_opcode_mnemonic opcode =
     (case map_of
        [(OPCODE_NOP, ''nop''), (OPCODE_EXSTK, ''exstk''),
         (OPCODE_ICONST, ''iconst''), (OPCODE_ILOAD, ''iload''), (OPCODE_ISAVE, ''isave''),
         (OPCODE_IADD, ''isum''), (OPCODE_ISUB, ''isub''), (OPCODE_IMUL, ''imul''),
         (OPCODE_IDIV, ''idiv''), (OPCODE_INEG, ''ineg''), (OPCODE_I2F, ''i2f''),
         (OPCODE_IEQ, ''ieq''), (OPCODE_INEQ, ''ineq''), (OPCODE_INLT, ''inlt''),
         (OPCODE_INGT, ''ingt''), (OPCODE_ILT, ''ilt''), (OPCODE_IGT, ''igt''),
         (OPCODE_FCONST, ''fconst''), (OPCODE_FLOAD, ''fload''), (OPCODE_FSAVE, ''fsave''),
         (OPCODE_FADD, ''fadd''), (OPCODE_FSUB, ''fsub''), (OPCODE_FMUL, ''fmul''),
         (OPCODE_FDIV, ''fdiv''), (OPCODE_FNEG, ''fneg''),
         (OPCODE_JMP, ''jmp''), (OPCODE_JEZ, ''jez''), (OPCODE_JNEZ, ''jnez''),
         (OPCODE_CALL, ''call'')] opcode
      of Some s \<Rightarrow> s | None \<Rightarrow> ''!invalid opcode!'')"

text \<open>The stack effects in bytes, row by row as in \<open>compiler.c\<close>.\<close>

definition opcode_to_stack_inc_map :: "int list" where
  "opcode_to_stack_inc_map =
     replicate 48 0 @
     [0, 0, 4, -4, 4, -4, 4, 4, 0, 0, 0, 0, 0, 0, 0, 0] @
     [0, 0, -4, -4, -4, -4, 0, 0, 0, 0, -4, -4, -4, -4, -4, -4] @
     [-4, -4, -4, -4, 0, 0, 0, 0, 0, 0, 0, 0, 0, 0, 0, 0] @
     [-2, -2, -4, -4, 0, 0, 0, 0, 0, 0, 0, 0, 0, 0, 0, 0] @
     replicate 144 0"

definition stack_inc :: "byte \<Rightarrow> int" where
  "stack_inc opcode = opcode_to_stack_inc_map ! unat opcode"

subsection \<open>From operators and types to opcodes\<close>

definition int_operator_to_opcode :: "operator \<Rightarrow> byte" where
  "int_operator_to_opcode oper = (case oper of
       ADDITION \<Rightarrow> OPCODE_IADD
     | SUBTRACTION \<Rightarrow> OPCODE_ISUB
     | MULTIPLICATION \<Rightarrow> OPCODE_IMUL
     | DIVISION \<Rightarrow> OPCODE_IDIV
     | UNARY_MINUS \<Rightarrow> OPCODE_INEG
     | EQUAL_TO \<Rightarrow> OPCODE_IEQ
     | NOT_EQUAL_TO \<Rightarrow> OPCODE_INEQ
     | LESS_THAN \<Rightarrow> OPCODE_ILT
     | NOT_GREATER_THAN \<Rightarrow> OPCODE_INGT
     | GREATER_THAN \<Rightarrow> OPCODE_IGT
     | NOT_LESS_THAN \<Rightarrow> OPCODE_INLT
     | _ \<Rightarrow> 0)"

definition float_operator_to_opcode :: "operator \<Rightarrow> byte" where
  "float_operator_to_opcode oper = (case oper of
       ADDITION \<Rightarrow> OPCODE_FADD
     | SUBTRACTION \<Rightarrow> OPCODE_FSUB
     | MULTIPLICATION \<Rightarrow> OPCODE_FMUL
     | DIVISION \<Rightarrow> OPCODE_FDIV
     | UNARY_MINUS \<Rightarrow> OPCODE_FNEG
     | EQUAL_TO \<Rightarrow> OPCODE_IEQ
     | NOT_EQUAL_TO \<Rightarrow> OPCODE_INEQ
     | _ \<Rightarrow> 0)"

definition OPCODE_SAVE :: "static_type \<Rightarrow> byte" where
  "OPCODE_SAVE type_id =
     (if type_id = TYPE_BOOL \<or> type_id = TYPE_INT then OPCODE_ISAVE
      else if type_id = TYPE_FLOAT then OPCODE_FSAVE else 0)"

definition OPCODE_LOAD :: "static_type \<Rightarrow> byte" where
  "OPCODE_LOAD type_id =
     (if type_id = TYPE_BOOL \<or> type_id = TYPE_INT then OPCODE_ILOAD
      else if type_id = TYPE_FLOAT then OPCODE_FLOAD else 0)"

record cast_request =
  cr_opcode :: byte
  cr_var_index :: nat
  cr_static_type :: static_type

definition type_select_cast_method :: "static_type \<Rightarrow> static_type \<Rightarrow> cast_request" where
  "type_select_cast_method type_1 type_2 =
     (if type_1 = TYPE_INT \<and> type_2 = TYPE_FLOAT \<or> type_2 = TYPE_INT \<and> type_1 = TYPE_FLOAT
      then \<lparr>cr_opcode = OPCODE_I2F, cr_var_index = (if type_1 = TYPE_INT then 0 else 1),
            cr_static_type = TYPE_FLOAT\<rparr>
      else \<lparr>cr_opcode = OPCODE_PANIC, cr_var_index = 0, cr_static_type = 0\<rparr>)"

subsection \<open>Facts\<close>

definition all_operators :: "operator list" where
  "all_operators =
     [POST_INCREMENT, POST_DECREMENT, BITWISE_NOT, LOGICAL_NOT, MULTIPLICATION, DIVISION,
      ADDITION, SUBTRACTION, ASSIGNMENT, BITWISE_SHIFT_LEFT, BITWISE_SHIFT_RIGHT, BITWISE_AND,
      BITWISE_OR, BITWISE_XOR, EQUAL_TO, NOT_EQUAL_TO, GREATER_THAN, LESS_THAN,
      NOT_GREATER_THAN, NOT_LESS_THAN, LOGICAL_AND, LOGICAL_OR, LOGICAL_XOR,
      LOGICAL_IMPLICATION, TERNARY_CONDITIONAL, FUNCTION_CALL, SUBSCRIPT, MEMBER_ACCESS,
      UNARY_MINUS, COMMA]"

lemma in_all_operators [simp]: "op \<in> set all_operators"
  by (cases op) (simp_all add: all_operators_def)

lemma length_opcode_to_stack_inc_map [simp]: "length opcode_to_stack_inc_map = 256"
  by (simp add: opcode_to_stack_inc_map_def)

lemma IS_COMPARISON_OPERATOR_code:
  "IS_COMPARISON_OPERATOR (operator_code op) \<longleftrightarrow>
     op \<in> {EQUAL_TO, NOT_EQUAL_TO, GREATER_THAN, LESS_THAN, NOT_GREATER_THAN, NOT_LESS_THAN}"
  by (cases op) (simp_all add: IS_COMPARISON_OPERATOR_def OP_PRECED_def)

text \<open>The identifier field alone tells the operators apart, so no two operator words are equal.\<close>

lemma distinct_operator_ids: "distinct (map (\<lambda>op. OPERATOR_ID (operator_code op)) all_operators)"
  by (simp add: all_operators_def OPERATOR_ID_def OP_PRECED_def)

lemma operator_code_inj: "operator_code a = operator_code b \<Longrightarrow> a = b"
proof -
  assume "operator_code a = operator_code b"
  then have "OPERATOR_ID (operator_code a) = OPERATOR_ID (operator_code b)" by simp
  moreover have "inj_on (\<lambda>op. OPERATOR_ID (operator_code op)) (set all_operators)"
    using distinct_operator_ids by (simp add: distinct_map)
  ultimately show "a = b" by (auto dest: inj_onD)
qed

lemma stack_inc_values [simp]:
  "stack_inc OPCODE_ICONST = 4" "stack_inc OPCODE_FCONST = 4"
  "stack_inc OPCODE_ILOAD = 4" "stack_inc OPCODE_FLOAD = 4"
  "stack_inc OPCODE_ISAVE = -4" "stack_inc OPCODE_FSAVE = -4"
  "stack_inc OPCODE_I2F = 0" "stack_inc OPCODE_INEG = 0"
  "stack_inc OPCODE_PANIC = 0" "stack_inc 0 = 0"
  by (simp_all add: stack_inc_def opcode_to_stack_inc_map_def nth_append)

end
