(* ===== verification/VM.thy ===== *)
theory VM
  imports Opcodes Hashmap_Props
begin

text \<open>
  The virtual machine of \<open>vm/vm.c\<close>: frames with an operand stack and local variables, the
  constant pool, the function table, one definition per opcode handler, the dispatch table
  and the execution loop.

  Memory. Stack and locals are arrays of 32-bit words (every handler moves whole words). The
  operand stack is a list with the top first; \<open>stack_cap\<close> is the size in bytes of the block
  behind it. The C code checks no bound, so an access outside the block is a fault of the
  model: \<open>Stack_Fault\<close>, \<open>Local_Fault\<close>, \<open>Code_Fault\<close>. A local that was never written holds
  whatever \<open>malloc\<close> returned (\<open>None\<close>), and reading it is \<open>Uninit_Read\<close>. Integer arithmetic
  wraps, as the compiled program does; a float is its binary32 bit pattern.

  \<open>current_frame\<close> is the top of \<open>call_stack\<close>, \<open>callers\<close> the frames below it, innermost first.
\<close>

subsection \<open>Frames and handlers\<close>

type_synonym vm_pc = int

record vm_frame =
  frame_pc :: vm_pc
  stack :: "i32 list"
  stack_cap :: nat
  locals :: "i32 option list"

type_synonym vm_handler = "vm_frame \<Rightarrow> byte list \<Rightarrow> (vm_pc \<times> vm_frame) result"

definition push_word :: "i32 \<Rightarrow> vm_frame \<Rightarrow> vm_frame result" where
  "push_word v frame =
     (if 4 * (length (stack frame) + 1) \<le> stack_cap frame
      then Inr (frame\<lparr>stack := v # stack frame\<rparr>) else Inl Stack_Fault)"

definition pop_word :: "vm_frame \<Rightarrow> (i32 \<times> vm_frame) result" where
  "pop_word frame = (case stack frame of [] \<Rightarrow> Inl Stack_Fault | v # st \<Rightarrow> Inr (v, frame\<lparr>stack := st\<rparr>))"

text \<open>The common body of the binary handlers: \<open>value_2\<close> is the top word, \<open>value_1\<close> the one below.\<close>

definition binary_words :: "(i32 \<Rightarrow> i32 \<Rightarrow> i32 result) \<Rightarrow> vm_frame \<Rightarrow> (vm_pc \<times> vm_frame) result" where
  "binary_words f frame =
     (case stack frame of
        value_2 # value_1 # st \<Rightarrow> sbind (f value_1 value_2) (\<lambda>r. Inr (1, frame\<lparr>stack := r # st\<rparr>))
      | _ \<Rightarrow> Inl Stack_Fault)"

definition local_save :: "vm_frame \<Rightarrow> byte list \<Rightarrow> (vm_pc \<times> vm_frame) result" where
  "local_save frame data =
     (case data of
        [] \<Rightarrow> Inl Code_Fault
      | index # _ \<Rightarrow>
          sbind (pop_word frame) (\<lambda>(value, frame).
            if unat index < length (locals frame)
            then Inr (2, frame\<lparr>locals := (locals frame)[unat index := Some value]\<rparr>)
            else Inl Local_Fault))"

definition local_load :: "vm_frame \<Rightarrow> byte list \<Rightarrow> (vm_pc \<times> vm_frame) result" where
  "local_load frame data =
     (case data of
        [] \<Rightarrow> Inl Code_Fault
      | index # _ \<Rightarrow>
          if unat index < length (locals frame) then
            (case locals frame ! unat index of
               None \<Rightarrow> Inl Uninit_Read
             | Some value \<Rightarrow> sbind (push_word value frame) (\<lambda>frame. Inr (2, frame)))
          else Inl Local_Fault)"

definition jmp_offset :: "byte list \<Rightarrow> nat result" where
  "jmp_offset data = (case data of hi # lo # _ \<Rightarrow> Inr (be16_val hi lo) | _ \<Rightarrow> Inl Code_Fault)"

definition vm_execute_opcode_isave :: vm_handler where
  "vm_execute_opcode_isave frame data = local_save frame data"

definition vm_execute_opcode_iload :: vm_handler where
  "vm_execute_opcode_iload frame data = local_load frame data"

definition vm_execute_opcode_iconst :: vm_handler where
  "vm_execute_opcode_iconst frame data =
     (case data of
        a # b # c # d # _ \<Rightarrow> sbind (push_word (be32_val a b c d) frame) (\<lambda>frame. Inr (5, frame))
      | _ \<Rightarrow> Inl Code_Fault)"

definition vm_execute_opcode_iadd :: vm_handler where
  "vm_execute_opcode_iadd frame data = binary_words (\<lambda>a b. Inr (a + b)) frame"

definition vm_execute_opcode_isub :: vm_handler where
  "vm_execute_opcode_isub frame data = binary_words (\<lambda>a b. Inr (a - b)) frame"

definition vm_execute_opcode_imul :: vm_handler where
  "vm_execute_opcode_imul frame data = binary_words (\<lambda>a b. Inr (a * b)) frame"

text \<open>
  The processor traps on a division by zero and on \<open>INT32_MIN / -1\<close>; otherwise \<open>/\<close> rounds
  towards zero.
\<close>

definition int_div :: "i32 \<Rightarrow> i32 \<Rightarrow> i32 result" where
  "int_div a b = (if b = 0 \<or> a = 0x80000000 \<and> b = -1 then Inl Div_Trap else Inr (word_of_int (sint a sdiv sint b)))"

definition vm_execute_opcode_idiv :: vm_handler where
  "vm_execute_opcode_idiv frame data = binary_words int_div frame"

definition vm_execute_opcode_ieq :: vm_handler where
  "vm_execute_opcode_ieq frame data = binary_words (\<lambda>a b. Inr (if a = b then 1 else 0)) frame"

definition vm_execute_opcode_ineq :: vm_handler where
  "vm_execute_opcode_ineq frame data = binary_words (\<lambda>a b. Inr (if a \<noteq> b then 1 else 0)) frame"

definition vm_execute_opcode_ilt :: vm_handler where
  "vm_execute_opcode_ilt frame data = binary_words (\<lambda>a b. Inr (if sint a < sint b then 1 else 0)) frame"

definition vm_execute_opcode_ingt :: vm_handler where
  "vm_execute_opcode_ingt frame data = binary_words (\<lambda>a b. Inr (if sint a \<le> sint b then 1 else 0)) frame"

definition vm_execute_opcode_igt :: vm_handler where
  "vm_execute_opcode_igt frame data = binary_words (\<lambda>a b. Inr (if sint a > sint b then 1 else 0)) frame"

definition vm_execute_opcode_inlt :: vm_handler where
  "vm_execute_opcode_inlt frame data = binary_words (\<lambda>a b. Inr (if sint a \<ge> sint b then 1 else 0)) frame"

text \<open>\<open>1.0F * value\<close> converts the integer to binary32; the product with one changes nothing.\<close>

definition vm_execute_opcode_i2f :: vm_handler where
  "vm_execute_opcode_i2f frame data =
     sbind (pop_word frame) (\<lambda>(value, frame). Inr (1, frame\<lparr>stack := f32_of_int (sint value) # stack frame\<rparr>))"

definition vm_execute_opcode_fsave :: vm_handler where
  "vm_execute_opcode_fsave frame data = local_save frame data"

definition vm_execute_opcode_fload :: vm_handler where
  "vm_execute_opcode_fload frame data = local_load frame data"

definition vm_execute_opcode_fconst :: vm_handler where
  "vm_execute_opcode_fconst frame data =
     (case data of
        a # b # c # d # _ \<Rightarrow> sbind (push_word (be32_val d c b a) frame) (\<lambda>frame. Inr (5, frame))
      | _ \<Rightarrow> Inl Code_Fault)"

definition vm_execute_opcode_fadd :: vm_handler where
  "vm_execute_opcode_fadd frame data = binary_words (\<lambda>a b. Inr (f32_add a b)) frame"

definition vm_execute_opcode_fsub :: vm_handler where
  "vm_execute_opcode_fsub frame data = binary_words (\<lambda>a b. Inr (f32_sub a b)) frame"

definition vm_execute_opcode_fmul :: vm_handler where
  "vm_execute_opcode_fmul frame data = binary_words (\<lambda>a b. Inr (f32_mul a b)) frame"

definition vm_execute_opcode_fdiv :: vm_handler where
  "vm_execute_opcode_fdiv frame data = binary_words (\<lambda>a b. Inr (f32_div a b)) frame"

definition vm_execute_opcode_jez :: vm_handler where
  "vm_execute_opcode_jez frame data =
     sbind (jmp_offset data) (\<lambda>offset. sbind (pop_word frame) (\<lambda>(value_1, frame).
       Inr (3 + (if value_1 = 0 then int offset else 0), frame)))"

definition vm_execute_opcode_jnez :: vm_handler where
  "vm_execute_opcode_jnez frame data =
     sbind (jmp_offset data) (\<lambda>offset. sbind (pop_word frame) (\<lambda>(value_1, frame).
       Inr (3 + (if value_1 = 0 then 0 else int offset), frame)))"

definition vm_execute_opcode_jmp :: vm_handler where
  "vm_execute_opcode_jmp frame data = sbind (jmp_offset data) (\<lambda>offset. Inr (3 + int offset, frame))"

definition vm_execute_opcode_rjmp :: vm_handler where
  "vm_execute_opcode_rjmp frame data = sbind (jmp_offset data) (\<lambda>offset. Inr (3 - int offset, frame))"

text \<open>\<open>vm_do_panic\<close> reports the opcode before \<open>data\<close> and exits.\<close>

definition vm_do_panic :: "byte \<Rightarrow> 'a result" where
  "vm_do_panic opcode = Inl (Vm_Panic opcode)"

text \<open>
  The dispatch table as \<open>vm_static_init\<close> fills it, the entry of \<open>OPCODE_CALL\<close> apart: every
  opcode without a handler, \<open>OPCODE_NOP\<close>, \<open>OPCODE_INEG\<close> and \<open>OPCODE_FNEG\<close> included, panics.
\<close>

definition opcode_execute_funcs :: "byte \<Rightarrow> vm_handler" where
  "opcode_execute_funcs opcode =
     (case map_of
       [(OPCODE_ISAVE, vm_execute_opcode_isave), (OPCODE_ILOAD, vm_execute_opcode_iload),
        (OPCODE_ICONST, vm_execute_opcode_iconst),
        (OPCODE_IADD, vm_execute_opcode_iadd), (OPCODE_ISUB, vm_execute_opcode_isub),
        (OPCODE_IMUL, vm_execute_opcode_imul), (OPCODE_IDIV, vm_execute_opcode_idiv),
        (OPCODE_IEQ, vm_execute_opcode_ieq), (OPCODE_INEQ, vm_execute_opcode_ineq),
        (OPCODE_ILT, vm_execute_opcode_ilt), (OPCODE_IGT, vm_execute_opcode_igt),
        (OPCODE_INLT, vm_execute_opcode_inlt), (OPCODE_INGT, vm_execute_opcode_ingt),
        (OPCODE_I2F, vm_execute_opcode_i2f),
        (OPCODE_FSAVE, vm_execute_opcode_fsave), (OPCODE_FLOAD, vm_execute_opcode_fload),
        (OPCODE_FCONST, vm_execute_opcode_fconst),
        (OPCODE_FADD, vm_execute_opcode_fadd), (OPCODE_FSUB, vm_execute_opcode_fsub),
        (OPCODE_FMUL, vm_execute_opcode_fmul), (OPCODE_FDIV, vm_execute_opcode_fdiv),
        (OPCODE_JEZ, vm_execute_opcode_jez), (OPCODE_JNEZ, vm_execute_opcode_jnez),
        (OPCODE_JMP, vm_execute_opcode_jmp), (OPCODE_RJMP, vm_execute_opcode_rjmp)] opcode
      of Some handler \<Rightarrow> handler
       | None \<Rightarrow> (\<lambda>frame data. vm_do_panic opcode))"

subsection \<open>The machine\<close>

text \<open>
  \<open>pool\<close> is the memory behind \<open>global_const_pool.pool\<close>; bytes no one wrote are 0 in the model,
  and no read reaches them. \<open>const_index\<close> holds the \<open>index_size\<close> entries written so far, pool
  offsets. The keys of \<open>func_map\<close> are pointers into the pool, that is pool offsets, read
  through \<open>pool_string\<close>.
\<close>

record vm_func =
  signature_index :: nat
  arg_size :: nat
  vars_size :: nat
  stack_size :: nat
  bytecode_data :: "byte list"

record vm_state =
  current_frame :: vm_frame
  callers :: "vm_frame list"
  pool :: "byte list"
  pool_size :: nat
  pool_cap :: nat
  const_index :: "nat list"
  index_cap :: nat
  funcs :: "vm_func list"
  funcs_cap :: nat
  func_map :: "(nat, vm_func) hashmap"

abbreviation (input) CALL_STACK_MAX_SIZE :: nat where "CALL_STACK_MAX_SIZE \<equiv> 128"
abbreviation (input) GLOBAL_CONST_POOL_INITIAL_SIZE :: nat where "GLOBAL_CONST_POOL_INITIAL_SIZE \<equiv> 4096"
abbreviation (input) GLOBAL_CONST_POOL_INITIAL_CAPACITY :: nat where "GLOBAL_CONST_POOL_INITIAL_CAPACITY \<equiv> 64"
abbreviation (input) GLOBAL_FUNCTIONS_COUNT_INCREMENT :: nat where "GLOBAL_FUNCTIONS_COUNT_INCREMENT \<equiv> 64"
abbreviation (input) GLOBAL_VARIABLES_CAPACITY :: nat where "GLOBAL_VARIABLES_CAPACITY \<equiv> 1024"
abbreviation (input) GLOBAL_STACK_CAPACITY :: nat where "GLOBAL_STACK_CAPACITY \<equiv> 1024"

text \<open>The C string that starts at a pool offset.\<close>

definition pool_string :: "byte list \<Rightarrow> nat \<Rightarrow> string" where
  "pool_string p offset = map (\<lambda>b. char_of (unat b)) (takeWhile (\<lambda>b. b \<noteq> 0) (drop offset p))"

definition new_frame :: "nat \<Rightarrow> i32 option list \<Rightarrow> vm_frame" where
  "new_frame cap vars = \<lparr>frame_pc = 0, stack = [], stack_cap = cap, locals = vars\<rparr>"

text \<open>
  \<open>vm_execute_opcode_call\<close>. \<open>exec\<close> is the nested \<open>vm_execute_opcodes\<close>. The arguments are the
  topmost words of the caller's stack, copied to the start of the callee's variables and left
  where they are; the callee's stack is freed with its frame.
\<close>

definition call_args :: "vm_func \<Rightarrow> vm_frame \<Rightarrow> i32 option list result" where
  "call_args func frame =
     (let n = arg_size func div 4
      in if length (stack frame) < n then Inl Stack_Fault
         else if vars_size func < arg_size func then Inl Local_Fault
         else Inr (map Some (rev (take n (stack frame))) @ replicate (vars_size func div 4 - n) None))"

definition call_lookup :: "vm_state \<Rightarrow> byte list \<Rightarrow> vm_func result" where
  "call_lookup st data =
     sbind (jmp_offset data) (\<lambda>h_index.
       if length (const_index st) \<le> h_index then Inl Pool_Fault
       else
         (let constant = pool_string (pool st) (const_index st ! h_index + 2)
          in case snd (hashmap_get (pool_string (pool st)) (func_map st) constant) of
               None \<Rightarrow> Inl (Method_Not_Found constant)
             | Some func \<Rightarrow> Inr func))"

definition call_enter :: "vm_func \<Rightarrow> vm_state \<Rightarrow> vm_state result" where
  "call_enter func st =
     sbind (call_args func (current_frame st)) (\<lambda>vars.
       if CALL_STACK_MAX_SIZE \<le> length (callers st) + 1 then Inl Frame_Overflow
       else Inr (st\<lparr>current_frame := new_frame (stack_size func) vars,
                    callers := current_frame st # callers st\<rparr>))"

definition call_leave :: "vm_state \<Rightarrow> vm_state result" where
  "call_leave st =
     (case callers st of
        [] \<Rightarrow> Inl Frame_Overflow
      | frame # rest \<Rightarrow> Inr (st\<lparr>current_frame := frame, callers := rest\<rparr>))"

definition vm_execute_opcode_call ::
    "(byte list \<Rightarrow> vm_state \<Rightarrow> vm_state result) \<Rightarrow> vm_state \<Rightarrow> byte list \<Rightarrow> (vm_pc \<times> vm_state) result" where
  "vm_execute_opcode_call exec st data =
     sbind (call_lookup st data) (\<lambda>func.
       sbind (call_enter func st) (\<lambda>st1.
         sbind (exec (drop 4 (bytecode_data func)) st1) (\<lambda>st2.
           sbind (call_leave st2) (\<lambda>st3. Inr (3, st3)))))"

definition vm_dispatch ::
    "(byte list \<Rightarrow> vm_state \<Rightarrow> vm_state result) \<Rightarrow> byte \<Rightarrow> byte list \<Rightarrow> vm_state \<Rightarrow> (vm_pc \<times> vm_state) result" where
  "vm_dispatch exec opcode data st =
     (if opcode = OPCODE_CALL then vm_execute_opcode_call exec st data
      else sbind (opcode_execute_funcs opcode (current_frame st) data)
             (\<lambda>(res, frame). Inr (res, st\<lparr>current_frame := frame\<rparr>)))"

definition advance_frame :: "vm_pc \<Rightarrow> vm_state \<Rightarrow> vm_state" where
  "advance_frame res st =
     st\<lparr>current_frame := (current_frame st)\<lparr>frame_pc := frame_pc (current_frame st) + res\<rparr>\<rparr>"

text \<open>
  The loop of \<open>vm_execute_opcodes\<close>, from \<open>pc\<close> on. The comparison \<open>pc < data_len\<close> is unsigned,
  so a negative \<open>pc\<close> ends the loop. The fuel bounds the number of steps plus the depth of
  nested calls; \<open>vm_run_mono\<close> shows that more fuel never changes an answer.
\<close>

primrec vm_run :: "nat \<Rightarrow> byte list \<Rightarrow> vm_pc \<Rightarrow> vm_state \<Rightarrow> (vm_pc \<times> vm_state) result" where
  "vm_run 0 code pc st = Inl Out_Of_Fuel"
| "vm_run (Suc fuel) code pc st =
     (if 0 \<le> pc \<and> pc < int (length code) then
        sbind (vm_dispatch (\<lambda>code st. sbind (vm_run fuel code 0 st) (\<lambda>(pc, st). Inr st))
                 (code ! nat pc) (drop (nat pc + 1) code) st)
          (\<lambda>(res, st). vm_run fuel code (pc + res) (advance_frame res st))
      else Inr (pc, st))"

definition vm_execute_opcodes :: "nat \<Rightarrow> byte list \<Rightarrow> vm_state \<Rightarrow> vm_state result" where
  "vm_execute_opcodes fuel code st = sbind (vm_run fuel code 0 st) (\<lambda>(pc, st). Inr st)"

subsection \<open>Registration\<close>

text \<open>
  \<open>vm_register_constant\<close>. When the pool or the index is full the code calls \<open>realloc\<close> and
  drops the pointer it returns, so the block it goes on writing to is gone: \<open>Stale_Realloc\<close>.
  \<open>global_const_pool.size\<close> is not advanced.
\<close>

definition vm_register_constant :: "string \<Rightarrow> vm_state \<Rightarrow> (nat \<times> vm_state) result" where
  "vm_register_constant constant st =
     (let const_size_16 = length constant mod 65536;
          required_size = 2 + const_size_16 + 1
      in if pool_cap st < pool_size st + required_size then Inl Stale_Realloc
         else if length (const_index st) = index_cap st then Inl Stale_Realloc
         else
           (let data = rev (be16_bytes const_size_16) @ map of_char (take const_size_16 constant) @ [0]
            in Inr (length (const_index st),
                    st\<lparr>pool := blit (pool st) (pool_size st) data,
                       const_index := const_index st @ [pool_size st]\<rparr>)))"

text \<open>The argument letters of a signature, four bytes each, counted in a \<open>uint16_t\<close>.\<close>

fun signature_args :: "string \<Rightarrow> string \<Rightarrow> nat \<Rightarrow> nat result" where
  "signature_args sig [] args_size = Inl (Bad_Signature sig)"
| "signature_args sig (c # cs) args_size =
     (if c = CHR '')'' then Inr args_size
      else if c = CHR ''I'' \<or> c = CHR ''F'' then signature_args sig cs ((args_size + 4) mod 65536)
      else Inl (Bad_Signature sig))"

definition signature_arg_size :: "string \<Rightarrow> nat result" where
  "signature_arg_size sig =
     (case dropWhile (\<lambda>c. c \<noteq> CHR ''('') sig of
        [] \<Rightarrow> Inl Pool_Fault
      | c # cs \<Rightarrow> signature_args sig cs 0)"

definition vm_register_function :: "nat \<Rightarrow> byte list \<Rightarrow> vm_state \<Rightarrow> (vm_func \<times> vm_state) result" where
  "vm_register_function index data st =
     (if length (funcs st) = funcs_cap st then Inl Stale_Realloc
      else if length (const_index st) \<le> index then Inl Pool_Fault
      else
        (let signature_str = const_index st ! index + 2
         in sbind (signature_arg_size (pool_string (pool st) signature_str)) (\<lambda>args_size.
              case data of
                v1 # v0 # s1 # s0 # _ \<Rightarrow>
                  (let handle = \<lparr>signature_index = index, arg_size = args_size,
                                 vars_size = be16_val v1 v0 * 4, stack_size = be16_val s1 s0,
                                 bytecode_data = data\<rparr>
                   in case hashmap_put 33 map_limit (pool_string (pool st)) (func_map st) signature_str handle of
                        None \<Rightarrow> Inl Table_Full
                      | Some (ret, m) \<Rightarrow> Inr (handle, st\<lparr>funcs := funcs st @ [handle], func_map := m\<rparr>))
              | _ \<Rightarrow> Inl Code_Fault)))"

definition vm_static_init :: vm_state where
  "vm_static_init =
     \<lparr>current_frame = new_frame GLOBAL_STACK_CAPACITY (replicate (GLOBAL_VARIABLES_CAPACITY div 4) None),
      callers = [],
      pool = replicate GLOBAL_CONST_POOL_INITIAL_SIZE 0,
      pool_size = 0,
      pool_cap = GLOBAL_CONST_POOL_INITIAL_SIZE,
      const_index = [],
      index_cap = GLOBAL_CONST_POOL_INITIAL_CAPACITY,
      funcs = [],
      funcs_cap = GLOBAL_FUNCTIONS_COUNT_INCREMENT,
      func_map = hashmap_new\<rparr>"

end
