(* ===== verification/VM_Props.thy ===== *)
theory VM_Props
  imports VM
begin

text \<open>
  Properties of the virtual machine: every handler's effect on the stack, the invariant of a
  run (bounds, callers and tables untouched), fuel monotonicity, small steps that let the
  compiler's proofs place code inside larger code, calls, and the registration of constants
  and functions.
\<close>

subsection \<open>Handlers\<close>

lemmas handler_defs =
  vm_execute_opcode_isave_def vm_execute_opcode_iload_def vm_execute_opcode_iconst_def
  vm_execute_opcode_iadd_def vm_execute_opcode_isub_def vm_execute_opcode_imul_def
  vm_execute_opcode_idiv_def vm_execute_opcode_ieq_def vm_execute_opcode_ineq_def
  vm_execute_opcode_ilt_def vm_execute_opcode_igt_def vm_execute_opcode_inlt_def
  vm_execute_opcode_ingt_def vm_execute_opcode_i2f_def vm_execute_opcode_fsave_def
  vm_execute_opcode_fload_def vm_execute_opcode_fconst_def vm_execute_opcode_fadd_def
  vm_execute_opcode_fsub_def vm_execute_opcode_fmul_def vm_execute_opcode_fdiv_def
  vm_execute_opcode_jez_def vm_execute_opcode_jnez_def vm_execute_opcode_jmp_def
  vm_execute_opcode_rjmp_def

definition handled_opcodes :: "byte list" where
  "handled_opcodes =
     [OPCODE_ISAVE, OPCODE_ILOAD, OPCODE_ICONST, OPCODE_IADD, OPCODE_ISUB, OPCODE_IMUL, OPCODE_IDIV,
      OPCODE_IEQ, OPCODE_INEQ, OPCODE_ILT, OPCODE_IGT, OPCODE_INLT, OPCODE_INGT, OPCODE_I2F,
      OPCODE_FSAVE, OPCODE_FLOAD, OPCODE_FCONST, OPCODE_FADD, OPCODE_FSUB, OPCODE_FMUL, OPCODE_FDIV,
      OPCODE_JEZ, OPCODE_JNEZ, OPCODE_JMP, OPCODE_RJMP]"

lemma opcode_execute_funcs_unhandled:
  "opcode \<notin> set handled_opcodes \<Longrightarrow> opcode_execute_funcs opcode frame data = Inl (Vm_Panic opcode)"
  by (simp add: opcode_execute_funcs_def handled_opcodes_def vm_do_panic_def)

lemma opcode_execute_funcs_simps [simp]:
  "opcode_execute_funcs OPCODE_ISAVE = vm_execute_opcode_isave"
  "opcode_execute_funcs OPCODE_ILOAD = vm_execute_opcode_iload"
  "opcode_execute_funcs OPCODE_ICONST = vm_execute_opcode_iconst"
  "opcode_execute_funcs OPCODE_IADD = vm_execute_opcode_iadd"
  "opcode_execute_funcs OPCODE_ISUB = vm_execute_opcode_isub"
  "opcode_execute_funcs OPCODE_IMUL = vm_execute_opcode_imul"
  "opcode_execute_funcs OPCODE_IDIV = vm_execute_opcode_idiv"
  "opcode_execute_funcs OPCODE_IEQ = vm_execute_opcode_ieq"
  "opcode_execute_funcs OPCODE_INEQ = vm_execute_opcode_ineq"
  "opcode_execute_funcs OPCODE_ILT = vm_execute_opcode_ilt"
  "opcode_execute_funcs OPCODE_IGT = vm_execute_opcode_igt"
  "opcode_execute_funcs OPCODE_INLT = vm_execute_opcode_inlt"
  "opcode_execute_funcs OPCODE_INGT = vm_execute_opcode_ingt"
  "opcode_execute_funcs OPCODE_I2F = vm_execute_opcode_i2f"
  "opcode_execute_funcs OPCODE_FSAVE = vm_execute_opcode_fsave"
  "opcode_execute_funcs OPCODE_FLOAD = vm_execute_opcode_fload"
  "opcode_execute_funcs OPCODE_FCONST = vm_execute_opcode_fconst"
  "opcode_execute_funcs OPCODE_FADD = vm_execute_opcode_fadd"
  "opcode_execute_funcs OPCODE_FSUB = vm_execute_opcode_fsub"
  "opcode_execute_funcs OPCODE_FMUL = vm_execute_opcode_fmul"
  "opcode_execute_funcs OPCODE_FDIV = vm_execute_opcode_fdiv"
  "opcode_execute_funcs OPCODE_JEZ = vm_execute_opcode_jez"
  "opcode_execute_funcs OPCODE_JNEZ = vm_execute_opcode_jnez"
  "opcode_execute_funcs OPCODE_JMP = vm_execute_opcode_jmp"
  "opcode_execute_funcs OPCODE_RJMP = vm_execute_opcode_rjmp"
  by (simp_all add: opcode_execute_funcs_def)

text \<open>What one successful handler may do to its frame.\<close>

definition frame_ok :: "vm_frame \<Rightarrow> bool" where
  "frame_ok frame \<longleftrightarrow> 4 * length (stack frame) \<le> stack_cap frame"

definition same_blocks :: "vm_frame \<Rightarrow> vm_frame \<Rightarrow> bool" where
  "same_blocks frame frame' \<longleftrightarrow> stack_cap frame' = stack_cap frame \<and>
     length (locals frame') = length (locals frame) \<and> frame_pc frame' = frame_pc frame"

lemma binary_words_effect:
  "binary_words f frame = Inr (res, frame') \<Longrightarrow>
   res = 1 \<and> same_blocks frame frame' \<and> length (stack frame) = length (stack frame') + 1"
  by (auto simp: binary_words_def same_blocks_def split: list.splits)

lemma local_save_effect:
  "local_save frame data = Inr (res, frame') \<Longrightarrow>
   res = 2 \<and> same_blocks frame frame' \<and> length (stack frame) = length (stack frame') + 1"
  by (auto simp: local_save_def pop_word_def same_blocks_def split: list.splits if_splits)

lemma local_load_effect:
  "local_load frame data = Inr (res, frame') \<Longrightarrow>
   res = 2 \<and> same_blocks frame frame' \<and> length (stack frame') = length (stack frame) + 1 \<and> frame_ok frame'"
  by (auto simp: local_load_def push_word_def same_blocks_def frame_ok_def split: list.splits if_splits option.splits)

lemma iconst_effect:
  "vm_execute_opcode_iconst frame data = Inr (res, frame') \<Longrightarrow>
   res = 5 \<and> same_blocks frame frame' \<and> length (stack frame') = length (stack frame) + 1 \<and> frame_ok frame'"
  by (auto simp: vm_execute_opcode_iconst_def push_word_def same_blocks_def frame_ok_def split: list.splits if_splits)

lemma fconst_effect:
  "vm_execute_opcode_fconst frame data = Inr (res, frame') \<Longrightarrow>
   res = 5 \<and> same_blocks frame frame' \<and> length (stack frame') = length (stack frame) + 1 \<and> frame_ok frame'"
  by (auto simp: vm_execute_opcode_fconst_def push_word_def same_blocks_def frame_ok_def split: list.splits if_splits)

lemma i2f_effect:
  "vm_execute_opcode_i2f frame data = Inr (res, frame') \<Longrightarrow>
   res = 1 \<and> same_blocks frame frame' \<and> length (stack frame') = length (stack frame)"
  by (auto simp: vm_execute_opcode_i2f_def pop_word_def same_blocks_def split: list.splits)

lemma jez_effect:
  "vm_execute_opcode_jez frame data = Inr (res, frame') \<Longrightarrow>
   same_blocks frame frame' \<and> length (stack frame) = length (stack frame') + 1"
  by (auto simp: vm_execute_opcode_jez_def pop_word_def same_blocks_def split: list.splits)

lemma jnez_effect:
  "vm_execute_opcode_jnez frame data = Inr (res, frame') \<Longrightarrow>
   same_blocks frame frame' \<and> length (stack frame) = length (stack frame') + 1"
  by (auto simp: vm_execute_opcode_jnez_def pop_word_def same_blocks_def split: list.splits)

lemma jmp_effect:
  "vm_execute_opcode_jmp frame data = Inr (res, frame') \<Longrightarrow> frame' = frame"
  "vm_execute_opcode_rjmp frame data = Inr (res, frame') \<Longrightarrow> frame' = frame"
  by (auto simp: vm_execute_opcode_jmp_def vm_execute_opcode_rjmp_def)

lemma stack_inc_simps:
  "stack_inc OPCODE_ISAVE = -4" "stack_inc OPCODE_ILOAD = 4" "stack_inc OPCODE_ICONST = 4"
  "stack_inc OPCODE_IADD = -4" "stack_inc OPCODE_ISUB = -4" "stack_inc OPCODE_IMUL = -4"
  "stack_inc OPCODE_IDIV = -4" "stack_inc OPCODE_IEQ = -4" "stack_inc OPCODE_INEQ = -4"
  "stack_inc OPCODE_ILT = -4" "stack_inc OPCODE_IGT = -4" "stack_inc OPCODE_INLT = -4"
  "stack_inc OPCODE_INGT = -4" "stack_inc OPCODE_I2F = 0" "stack_inc OPCODE_FSAVE = -4"
  "stack_inc OPCODE_FLOAD = 4" "stack_inc OPCODE_FCONST = 4" "stack_inc OPCODE_FADD = -4"
  "stack_inc OPCODE_FSUB = -4" "stack_inc OPCODE_FMUL = -4" "stack_inc OPCODE_FDIV = -4"
  "stack_inc OPCODE_JEZ = -4" "stack_inc OPCODE_JNEZ = -4" "stack_inc OPCODE_JMP = -2"
  "stack_inc OPCODE_RJMP = -2"
  by (simp_all add: stack_inc_def opcode_to_stack_inc_map_def nth_append)


lemma frame_ok_shrink:
  "same_blocks frame frame' \<Longrightarrow> length (stack frame') \<le> length (stack frame) \<Longrightarrow> frame_ok frame \<Longrightarrow> frame_ok frame'"
  by (simp add: same_blocks_def frame_ok_def)

lemma same_blocks_refl [simp]: "same_blocks frame frame"
  by (simp add: same_blocks_def)

definition is_jump :: "byte \<Rightarrow> bool" where
  "is_jump opcode \<longleftrightarrow> opcode \<in> {OPCODE_JMP, OPCODE_RJMP, OPCODE_JEZ, OPCODE_JNEZ}"

definition operand_bytes :: "byte \<Rightarrow> nat" where
  "operand_bytes opcode =
     (if opcode \<in> {OPCODE_ISAVE, OPCODE_ILOAD, OPCODE_FSAVE, OPCODE_FLOAD} then 1
      else if opcode \<in> {OPCODE_ICONST, OPCODE_FCONST} then 4
      else if is_jump opcode then 2 else 0)"

definition handler_effect :: "byte \<Rightarrow> vm_frame \<Rightarrow> vm_pc \<Rightarrow> vm_frame \<Rightarrow> bool" where
  "handler_effect opcode frame res frame' \<longleftrightarrow>
     same_blocks frame frame' \<and> (frame_ok frame \<longrightarrow> frame_ok frame') \<and>
     (if opcode = OPCODE_JMP \<or> opcode = OPCODE_RJMP then stack frame' = stack frame
      else 4 * int (length (stack frame')) = 4 * int (length (stack frame)) + stack_inc opcode) \<and>
     (\<not> is_jump opcode \<longrightarrow> res = 1 + int (operand_bytes opcode))"

lemma handler_effect_shrink:
  "same_blocks frame frame' \<Longrightarrow> length (stack frame) = length (stack frame') + 1 \<Longrightarrow>
   opcode \<noteq> OPCODE_JMP \<Longrightarrow> opcode \<noteq> OPCODE_RJMP \<Longrightarrow> stack_inc opcode = -4 \<Longrightarrow>
   (\<not> is_jump opcode \<longrightarrow> res = 1 + int (operand_bytes opcode)) \<Longrightarrow> handler_effect opcode frame res frame'"
  by (auto simp: handler_effect_def intro: frame_ok_shrink)

lemma handler_effect_grow:
  "same_blocks frame frame' \<Longrightarrow> length (stack frame') = length (stack frame) + 1 \<Longrightarrow> frame_ok frame' \<Longrightarrow>
   opcode \<noteq> OPCODE_JMP \<Longrightarrow> opcode \<noteq> OPCODE_RJMP \<Longrightarrow> stack_inc opcode = 4 \<Longrightarrow>
   (\<not> is_jump opcode \<longrightarrow> res = 1 + int (operand_bytes opcode)) \<Longrightarrow> handler_effect opcode frame res frame'"
  by (auto simp: handler_effect_def)

lemma binary_handler_effect:
  "binary_words f frame = Inr (res, frame') \<Longrightarrow>
   opcode \<in> {OPCODE_IADD, OPCODE_ISUB, OPCODE_IMUL, OPCODE_IDIV, OPCODE_IEQ, OPCODE_INEQ, OPCODE_ILT,
     OPCODE_IGT, OPCODE_INLT, OPCODE_INGT, OPCODE_FADD, OPCODE_FSUB, OPCODE_FMUL, OPCODE_FDIV} \<Longrightarrow>
   handler_effect opcode frame res frame'"
  by (drule binary_words_effect, rule handler_effect_shrink)
     (auto simp: stack_inc_simps operand_bytes_def is_jump_def)

lemma save_handler_effect:
  "local_save frame data = Inr (res, frame') \<Longrightarrow> opcode \<in> {OPCODE_ISAVE, OPCODE_FSAVE} \<Longrightarrow>
    handler_effect opcode frame res frame'"
  by (drule local_save_effect, rule handler_effect_shrink)
     (auto simp: stack_inc_simps operand_bytes_def is_jump_def)

lemma load_handler_effect:
  "local_load frame data = Inr (res, frame') \<Longrightarrow> opcode \<in> {OPCODE_ILOAD, OPCODE_FLOAD} \<Longrightarrow>
    handler_effect opcode frame res frame'"
  by (drule local_load_effect, rule handler_effect_grow)
     (auto simp: stack_inc_simps operand_bytes_def is_jump_def)

lemma other_handler_effect:
  "vm_execute_opcode_iconst frame data = Inr (res, frame') \<Longrightarrow> handler_effect OPCODE_ICONST frame res frame'"
  "vm_execute_opcode_fconst frame data = Inr (res, frame') \<Longrightarrow> handler_effect OPCODE_FCONST frame res frame'"
  "vm_execute_opcode_i2f frame data = Inr (res, frame') \<Longrightarrow> handler_effect OPCODE_I2F frame res frame'"
  "vm_execute_opcode_jez frame data = Inr (res, frame') \<Longrightarrow> handler_effect OPCODE_JEZ frame res frame'"
  "vm_execute_opcode_jnez frame data = Inr (res, frame') \<Longrightarrow> handler_effect OPCODE_JNEZ frame res frame'"
  "vm_execute_opcode_jmp frame data = Inr (res, frame') \<Longrightarrow> handler_effect OPCODE_JMP frame res frame'"
  "vm_execute_opcode_rjmp frame data = Inr (res, frame') \<Longrightarrow> handler_effect OPCODE_RJMP frame res frame'"
proof -
  show "vm_execute_opcode_iconst frame data = Inr (res, frame') \<Longrightarrow> handler_effect OPCODE_ICONST frame res frame'"
    by (drule iconst_effect, rule handler_effect_grow) (auto simp: stack_inc_simps operand_bytes_def is_jump_def)
  show "vm_execute_opcode_fconst frame data = Inr (res, frame') \<Longrightarrow> handler_effect OPCODE_FCONST frame res frame'"
    by (drule fconst_effect, rule handler_effect_grow) (auto simp: stack_inc_simps operand_bytes_def is_jump_def)
  show "vm_execute_opcode_i2f frame data = Inr (res, frame') \<Longrightarrow> handler_effect OPCODE_I2F frame res frame'"
    by (drule i2f_effect) (auto simp: handler_effect_def stack_inc_simps operand_bytes_def is_jump_def
        intro: frame_ok_shrink)
  show "vm_execute_opcode_jez frame data = Inr (res, frame') \<Longrightarrow> handler_effect OPCODE_JEZ frame res frame'"
    by (drule jez_effect, rule handler_effect_shrink) (auto simp: stack_inc_simps is_jump_def)
  show "vm_execute_opcode_jnez frame data = Inr (res, frame') \<Longrightarrow> handler_effect OPCODE_JNEZ frame res frame'"
    by (drule jnez_effect, rule handler_effect_shrink) (auto simp: stack_inc_simps is_jump_def)
qed (auto dest!: jmp_effect simp: handler_effect_def is_jump_def)

lemma handled_cases:
  "opcode \<in> set handled_opcodes \<Longrightarrow> opcode = OPCODE_ISAVE \<or> opcode = OPCODE_ILOAD \<or> opcode = OPCODE_ICONST \<or>
    opcode = OPCODE_IADD \<or> opcode = OPCODE_ISUB \<or> opcode = OPCODE_IMUL \<or> opcode = OPCODE_IDIV \<or>
    opcode = OPCODE_IEQ \<or> opcode = OPCODE_INEQ \<or> opcode = OPCODE_ILT \<or> opcode = OPCODE_IGT \<or>
    opcode = OPCODE_INLT \<or> opcode = OPCODE_INGT \<or> opcode = OPCODE_I2F \<or> opcode = OPCODE_FSAVE \<or>
    opcode = OPCODE_FLOAD \<or> opcode = OPCODE_FCONST \<or> opcode = OPCODE_FADD \<or> opcode = OPCODE_FSUB \<or>
    opcode = OPCODE_FMUL \<or> opcode = OPCODE_FDIV \<or> opcode = OPCODE_JEZ \<or> opcode = OPCODE_JNEZ \<or>
    opcode = OPCODE_JMP \<or> opcode = OPCODE_RJMP"
  by (simp only: handled_opcodes_def list.set insert_iff empty_iff simp_thms)

lemma opcode_effect:
  assumes "opcode_execute_funcs opcode frame data = Inr (res, frame')"
  shows "opcode \<in> set handled_opcodes \<and> handler_effect opcode frame res frame'"
proof -
  have h: "opcode \<in> set handled_opcodes"
    using assms opcode_execute_funcs_unhandled [of opcode frame data] by fastforce
  have "handler_effect opcode frame res frame'"
    using handled_cases [OF h] assms
    by (elim disjE) (simp_all add: other_handler_effect
      handler_defs(1,2,4-13,15,16,18-21) binary_handler_effect save_handler_effect load_handler_effect)
  with h show ?thesis by blast
qed

subsection \<open>Runs\<close>

definition same_tables :: "vm_state \<Rightarrow> vm_state \<Rightarrow> bool" where
  "same_tables st st' \<longleftrightarrow> pool st' = pool st \<and> pool_size st' = pool_size st \<and> pool_cap st' = pool_cap st \<and>
     const_index st' = const_index st \<and> index_cap st' = index_cap st \<and> funcs st' = funcs st \<and>
     funcs_cap st' = funcs_cap st \<and> func_map st' = func_map st"

definition vm_ok :: "vm_state \<Rightarrow> bool" where
  "vm_ok st \<longleftrightarrow> frame_ok (current_frame st) \<and> (\<forall>frame \<in> set (callers st). frame_ok frame) \<and>
     length (callers st) < CALL_STACK_MAX_SIZE"

definition run_effect :: "vm_state \<Rightarrow> vm_state \<Rightarrow> bool" where
  "run_effect st st' \<longleftrightarrow> same_tables st st' \<and> callers st' = callers st \<and>
     stack_cap (current_frame st') = stack_cap (current_frame st) \<and>
     length (locals (current_frame st')) = length (locals (current_frame st)) \<and>
     (vm_ok st \<longrightarrow> vm_ok st')"

lemma run_effect_refl [simp]: "run_effect st st"
  by (simp add: run_effect_def same_tables_def)

lemma run_effect_trans [trans]: "run_effect a b \<Longrightarrow> run_effect b c \<Longrightarrow> run_effect a c"
  by (auto simp: run_effect_def same_tables_def)

lemma run_effect_advance [simp]: "run_effect st (advance_frame res st)"
  by (simp add: run_effect_def same_tables_def advance_frame_def vm_ok_def frame_ok_def)

lemma frame_ok_new [simp]: "frame_ok (new_frame cap vars)"
  by (simp add: frame_ok_def new_frame_def)

lemma call_effect:
  assumes exec: "\<And>code st st'. exec code st = Inr st' \<Longrightarrow> run_effect st st'"
    and call: "vm_execute_opcode_call exec st data = Inr (res, st3)"
  shows "run_effect st st3 \<and> res = 3 \<and> current_frame st3 = current_frame st"
proof -
  obtain func st1 st2 where c: "call_enter func st = Inr st1"
    "exec (drop 4 (bytecode_data func)) st1 = Inr st2" "call_leave st2 = Inr st3" "res = 3"
    using call by (auto simp: vm_execute_opcode_call_def)
  from c(1) obtain vars where st1: "length (callers st) + 1 < CALL_STACK_MAX_SIZE"
    "st1 = st\<lparr>current_frame := new_frame (stack_size func) vars, callers := current_frame st # callers st\<rparr>"
    by (auto simp: call_enter_def split: if_splits)
  have eff: "run_effect st1 st2" by (rule exec [OF c(2)])
  then have "callers st2 = current_frame st # callers st" using st1 by (simp add: run_effect_def)
  with c(3) have st3: "st3 = st2\<lparr>current_frame := current_frame st, callers := callers st\<rparr>"
    by (simp add: call_leave_def)
  have ok: "vm_ok st3" if "vm_ok st"
  proof -
    have "vm_ok st1" using st1 that by (simp add: vm_ok_def)
    then have "vm_ok st2" using eff by (simp add: run_effect_def)
    with that st3 show ?thesis by (simp add: vm_ok_def)
  qed
  have "same_tables st st3" using eff unfolding st1(2) st3 by (simp add: run_effect_def same_tables_def)
  then show ?thesis using ok st3 c(4) by (simp add: run_effect_def)
qed

lemma dispatch_effect:
  assumes exec: "\<And>code st st'. exec code st = Inr st' \<Longrightarrow> run_effect st st'"
    and step: "vm_dispatch exec opcode data st = Inr (res, st1)"
  shows "run_effect st st1"
proof (cases "opcode = OPCODE_CALL")
  case True
  then show ?thesis using call_effect [of exec, OF exec] step by (simp add: vm_dispatch_def)
next
  case False
  with step obtain frame where f: "opcode_execute_funcs opcode (current_frame st) data = Inr (res, frame)"
    "st1 = st\<lparr>current_frame := frame\<rparr>" by (auto simp: vm_dispatch_def)
  have "same_blocks (current_frame st) frame" "frame_ok (current_frame st) \<longrightarrow> frame_ok frame"
    using opcode_effect [OF f(1)] by (simp_all add: handler_effect_def)
  then show ?thesis unfolding f(2)
    by (simp add: run_effect_def same_tables_def same_blocks_def vm_ok_def)
qed

lemma vm_run_effect: "vm_run fuel code pc st = Inr (pc', st') \<Longrightarrow> run_effect st st'"
proof (induction fuel arbitrary: code pc st pc' st')
  case (Suc fuel)
  let ?exec = "\<lambda>code st. sbind (vm_run fuel code 0 st) (\<lambda>(pc, st). Inr st)"
  have exec: "?exec code st = Inr st' \<Longrightarrow> run_effect st st'" for code st st'
    using Suc.IH by auto
  show ?case
  proof (cases "0 \<le> pc \<and> pc < int (length code)")
    case True
    with Suc.prems obtain res st1 where
      d: "vm_dispatch ?exec (code ! nat pc) (drop (nat pc + 1) code) st = Inr (res, st1)" and
      r: "vm_run fuel code (pc + res) (advance_frame res st1) = Inr (pc', st')" by auto
    have "run_effect st st1" by (rule dispatch_effect [OF exec d])
    also have "run_effect st1 (advance_frame res st1)" by simp
    also have "run_effect (advance_frame res st1) st'" by (rule Suc.IH [OF r])
    finally show ?thesis .
  next
    case False
    with Suc.prems show ?thesis by auto
  qed
qed simp

lemma vm_execute_opcodes_effect: "vm_execute_opcodes fuel code st = Inr st' \<Longrightarrow> run_effect st st'"
  by (auto simp: vm_execute_opcodes_def dest: vm_run_effect)

subsection \<open>Fuel\<close>

lemma sbind_mono:
  "sbind m f \<noteq> Inl Out_Of_Fuel \<Longrightarrow> (m \<noteq> Inl Out_Of_Fuel \<Longrightarrow> m' = m) \<Longrightarrow>
   (\<And>a. m = Inr a \<Longrightarrow> f a \<noteq> Inl Out_Of_Fuel \<Longrightarrow> f' a = f a) \<Longrightarrow> sbind m' f' = sbind m f"
  by (cases m) auto

lemma dispatch_mono:
  assumes "\<And>code st. exec code st \<noteq> Inl Out_Of_Fuel \<Longrightarrow> exec' code st = exec code st"
    and "vm_dispatch exec opcode data st \<noteq> Inl Out_Of_Fuel"
  shows "vm_dispatch exec' opcode data st = vm_dispatch exec opcode data st"
proof (cases "opcode = OPCODE_CALL")
  case True
  with assms(2) have "vm_execute_opcode_call exec st data \<noteq> Inl Out_Of_Fuel" by (simp add: vm_dispatch_def)
  then have "vm_execute_opcode_call exec' st data = vm_execute_opcode_call exec st data"
    unfolding vm_execute_opcode_call_def by (elim sbind_mono) (auto intro: assms(1))
  with True show ?thesis by (simp add: vm_dispatch_def)
qed (simp add: vm_dispatch_def)

lemma vm_run_Suc_mono: "vm_run fuel code pc st \<noteq> Inl Out_Of_Fuel \<Longrightarrow> vm_run (Suc fuel) code pc st = vm_run fuel code pc st"
proof (induction fuel arbitrary: code pc st)
  case (Suc fuel)
  let ?exec = "\<lambda>f code st. sbind (vm_run f code 0 st) (\<lambda>(pc, st). Inr st)"
  have exec: "?exec (Suc fuel) code st = ?exec fuel code st" if "?exec fuel code st \<noteq> Inl Out_Of_Fuel" for code st
    using that by (rule sbind_mono) (simp_all add: Suc.IH del: vm_run.simps)
  show ?case
  proof (cases "0 \<le> pc \<and> pc < int (length code)")
    case True
    let ?go = "\<lambda>f. sbind (vm_dispatch (?exec f) (code ! nat pc) (drop (nat pc + 1) code) st)
      (\<lambda>(res, st). vm_run f code (pc + res) (advance_frame res st))"
    have eq: "vm_run (Suc f) code pc st = ?go f" for f using True by simp
    have "?go fuel \<noteq> Inl Out_Of_Fuel" using Suc.prems unfolding eq .
    then have "?go (Suc fuel) = ?go fuel"
    proof (rule sbind_mono)
      show "vm_dispatch (?exec fuel) (code ! nat pc) (drop (nat pc + 1) code) st \<noteq> Inl Out_Of_Fuel \<Longrightarrow>
        vm_dispatch (?exec (Suc fuel)) (code ! nat pc) (drop (nat pc + 1) code) st =
        vm_dispatch (?exec fuel) (code ! nat pc) (drop (nat pc + 1) code) st"
        by (rule dispatch_mono [OF exec])
    qed (auto simp del: vm_run.simps intro: Suc.IH)
    then show ?thesis unfolding eq .
  next
    case False
    then show ?thesis by auto
  qed
qed simp

lemma vm_run_mono:
  assumes "fuel \<le> fuel'" "vm_run fuel code pc st \<noteq> Inl Out_Of_Fuel"
  shows "vm_run fuel' code pc st = vm_run fuel code pc st"
  using assms by (induction rule: dec_induct) (simp_all add: vm_run_Suc_mono del: vm_run.simps)

lemma vm_execute_opcodes_mono:
  assumes "fuel \<le> fuel'" "vm_execute_opcodes fuel code st \<noteq> Inl Out_Of_Fuel"
  shows "vm_execute_opcodes fuel' code st = vm_execute_opcodes fuel code st"
  using assms(2) unfolding vm_execute_opcodes_def
  by (rule sbind_mono) (simp_all add: vm_run_mono [OF assms(1)])


subsection \<open>Small steps\<close>

text \<open>
  One turn of the loop of \<open>vm_execute_opcodes\<close> as a relation on positions and states; a call
  is one step of its caller.
\<close>

inductive vm_step :: "byte list \<Rightarrow> vm_pc \<times> vm_state \<Rightarrow> vm_pc \<times> vm_state \<Rightarrow> bool" for code where
  vm_step: "0 \<le> pc \<Longrightarrow> pc < int (length code) \<Longrightarrow>
    vm_dispatch (vm_execute_opcodes fuel) (code ! nat pc) (drop (nat pc + 1) code) st = Inr (res, st1) \<Longrightarrow>
    vm_step code (pc, st) (pc + res, advance_frame res st1)"

abbreviation vm_steps :: "byte list \<Rightarrow> vm_pc \<times> vm_state \<Rightarrow> vm_pc \<times> vm_state \<Rightarrow> bool" where
  "vm_steps code \<equiv> (vm_step code)\<^sup>*\<^sup>*"

inductive_cases vm_step_elim: "vm_step code (pc, st) (pc1, st1)"

lemma vm_run_Suc:
  "vm_run (Suc fuel) code pc st =
     (if 0 \<le> pc \<and> pc < int (length code) then
        sbind (vm_dispatch (vm_execute_opcodes fuel) (code ! nat pc) (drop (nat pc + 1) code) st)
          (\<lambda>(res, st). vm_run fuel code (pc + res) (advance_frame res st))
      else Inr (pc, st))"
  by (simp add: vm_execute_opcodes_def [abs_def])

lemma vm_run_steps:
  "vm_run fuel code pc st = Inr (pc', st') \<Longrightarrow>
   vm_steps code (pc, st) (pc', st') \<and> \<not> (0 \<le> pc' \<and> pc' < int (length code))"
proof (induction fuel arbitrary: pc st)
  case (Suc fuel)
  show ?case
  proof (cases "0 \<le> pc \<and> pc < int (length code)")
    case True
    with Suc.prems obtain res st1 where
      d: "vm_dispatch (vm_execute_opcodes fuel) (code ! nat pc) (drop (nat pc + 1) code) st = Inr (res, st1)" and
      r: "vm_run fuel code (pc + res) (advance_frame res st1) = Inr (pc', st')"
      unfolding vm_run_Suc by auto
    have "vm_step code (pc, st) (pc + res, advance_frame res st1)" using True d by (auto intro: vm_step)
    with Suc.IH [OF r] show ?thesis by (meson converse_rtranclp_into_rtranclp)
  next
    case False
    with Suc.prems show ?thesis by auto
  qed
qed simp

lemma vm_step_run:
  assumes "vm_step code (pc, st) (pc1, st1)" "vm_run fuel code pc1 st1 = Inr r"
  shows "\<exists>fuel. vm_run fuel code pc st = Inr r"
proof -
  obtain f res st2 where 1: "0 \<le> pc" "pc < int (length code)" "pc1 = pc + res" "st1 = advance_frame res st2"
    "vm_dispatch (vm_execute_opcodes f) (code ! nat pc) (drop (nat pc + 1) code) st = Inr (res, st2)"
    using assms(1) by (elim vm_step_elim) simp
  let ?n = "max fuel f"
  have "vm_dispatch (vm_execute_opcodes ?n) (code ! nat pc) (drop (nat pc + 1) code) st = Inr (res, st2)"
    using dispatch_mono [of "vm_execute_opcodes f" "vm_execute_opcodes ?n"]
      vm_execute_opcodes_mono [of f ?n] 1(5) by simp
  moreover have "vm_run ?n code pc1 st1 = Inr r" using vm_run_mono [of fuel ?n] assms(2) by simp
  ultimately have "vm_run (Suc ?n) code pc st = Inr r" using 1 unfolding vm_run_Suc by simp
  then show ?thesis by blast
qed

lemma vm_steps_run:
  assumes "vm_steps code (pc, st) (pc', st')" "\<not> (0 \<le> pc' \<and> pc' < int (length code))"
  shows "\<exists>fuel. vm_run fuel code pc st = Inr (pc', st')"
  using assms(1)
proof (induction rule: converse_rtranclp_induct2)
  case refl
  have "vm_run (Suc 0) code pc' st' = Inr (pc', st')" using assms(2) by auto
  then show ?case by blast
next
  case (step pc st pc1 st1)
  then show ?case using vm_step_run by blast
qed

subsection \<open>Code inside larger code\<close>

lemma local_load_more: "local_load frame data = Inr r \<Longrightarrow> local_load frame (data @ tail) = Inr r"
  by (cases data) (simp_all add: local_load_def)

lemma local_save_more: "local_save frame data = Inr r \<Longrightarrow> local_save frame (data @ tail) = Inr r"
  by (cases data) (simp_all add: local_save_def)

lemma jmp_offset_more: "jmp_offset data = Inr r \<Longrightarrow> jmp_offset (data @ tail) = Inr r"
  by (auto simp: jmp_offset_def split: list.splits)

lemma const_more:
  "vm_execute_opcode_iconst frame data = Inr r \<Longrightarrow> vm_execute_opcode_iconst frame (data @ tail) = Inr r"
  "vm_execute_opcode_fconst frame data = Inr r \<Longrightarrow> vm_execute_opcode_fconst frame (data @ tail) = Inr r"
  by (auto simp: vm_execute_opcode_iconst_def vm_execute_opcode_fconst_def split: list.splits)

lemma sbind_head: "sbind m f = Inr r \<Longrightarrow> (\<And>a. m = Inr a \<Longrightarrow> m' = Inr a) \<Longrightarrow> sbind m' f = Inr r"
  by (cases m) auto

lemma jump_more:
  "vm_execute_opcode_jez frame data = Inr r \<Longrightarrow> vm_execute_opcode_jez frame (data @ tail) = Inr r"
  "vm_execute_opcode_jnez frame data = Inr r \<Longrightarrow> vm_execute_opcode_jnez frame (data @ tail) = Inr r"
  "vm_execute_opcode_jmp frame data = Inr r \<Longrightarrow> vm_execute_opcode_jmp frame (data @ tail) = Inr r"
  "vm_execute_opcode_rjmp frame data = Inr r \<Longrightarrow> vm_execute_opcode_rjmp frame (data @ tail) = Inr r"
  unfolding vm_execute_opcode_jez_def vm_execute_opcode_jnez_def vm_execute_opcode_jmp_def
    vm_execute_opcode_rjmp_def
  by (erule sbind_head, erule jmp_offset_more)+

lemma handler_more:
  assumes "opcode_execute_funcs opcode frame data = Inr r"
  shows "opcode_execute_funcs opcode frame (data @ tail) = Inr r"
proof -
  have h: "opcode \<in> set handled_opcodes" using opcode_effect [of opcode frame data] assms by (cases r) blast
  show ?thesis
    using handled_cases [OF h] assms
    by (elim disjE)
       (simp_all add: local_load_more local_save_more const_more jump_more handler_defs(1,2,4-13,15,16,18-21)
          vm_execute_opcode_i2f_def)
qed

lemma dispatch_more:
  assumes "vm_dispatch exec opcode data st = Inr r"
  shows "vm_dispatch exec opcode (data @ tail) st = Inr r"
proof (cases "opcode = OPCODE_CALL")
  case True
  have "call_lookup st data = Inr func \<Longrightarrow> call_lookup st (data @ tail) = Inr func" for func
    unfolding call_lookup_def by (erule sbind_head, erule jmp_offset_more)
  with True assms show ?thesis by (auto simp: vm_dispatch_def vm_execute_opcode_call_def)
next
  case False
  with assms show ?thesis by (auto simp: vm_dispatch_def dest: handler_more)
qed

lemma vm_step_embed:
  assumes "vm_step code (pc, st) (pc', st')"
  shows "vm_step (pre @ code @ post) (int (length pre) + pc, st) (int (length pre) + pc', st')"
proof -
  obtain fuel res st1 where 1: "0 \<le> pc" "pc < int (length code)" "pc' = pc + res" "st' = advance_frame res st1"
    "vm_dispatch (vm_execute_opcodes fuel) (code ! nat pc) (drop (nat pc + 1) code) st = Inr (res, st1)"
    using assms(1) by (elim vm_step_elim) simp
  let ?code = "pre @ code @ post" and ?pc = "int (length pre) + pc"
  have n: "nat ?pc = length pre + nat pc" "nat pc < length code" using 1 by auto
  then have "?code ! nat ?pc = code ! nat pc" "drop (nat ?pc + 1) ?code = drop (nat pc + 1) code @ post"
    by (simp_all add: nth_append)
  with 1(5) have "vm_dispatch (vm_execute_opcodes fuel) (?code ! nat ?pc) (drop (nat ?pc + 1) ?code) st = Inr (res, st1)"
    by (simp add: dispatch_more)
  then have "vm_step ?code (?pc, st) (?pc + res, advance_frame res st1)"
    using 1 by (intro vm_step) auto
  then show ?thesis using 1 by (simp add: add.assoc)
qed

lemma vm_steps_embed:
  assumes "vm_steps code (pc, st) (pc', st')"
  shows "vm_steps (pre @ code @ post) (int (length pre) + pc, st) (int (length pre) + pc', st')"
  using assms
  by (induction rule: rtranclp_induct2) (auto intro: vm_step_embed rtranclp.rtrancl_into_rtrancl)

text \<open>A block runs from its first byte to just behind its last one.\<close>

definition exec_block :: "byte list \<Rightarrow> vm_state \<Rightarrow> vm_state \<Rightarrow> bool" where
  "exec_block code st st' \<longleftrightarrow> vm_steps code (0, st) (int (length code), st')"

lemma exec_block_Nil [simp]: "exec_block [] st st"
  by (simp add: exec_block_def)

lemma exec_block_at:
  "exec_block code st st' \<Longrightarrow>
   vm_steps (pre @ code @ post) (int (length pre), st) (int (length pre) + int (length code), st')"
  using vm_steps_embed [of code 0 st "int (length code)" st' pre post] by (simp add: exec_block_def)

lemma exec_block_append:
  assumes "exec_block c1 st st1" "exec_block c2 st1 st2"
  shows "exec_block (c1 @ c2) st st2"
  using exec_block_at [OF assms(1), of "[]" c2] exec_block_at [OF assms(2), of c1 "[]"]
  by (simp add: exec_block_def)

lemma exec_block_run: "exec_block code st st' \<Longrightarrow> \<exists>fuel. vm_execute_opcodes fuel code st = Inr st'"
  using vm_steps_run [of code 0 st "int (length code)" st']
  by (fastforce simp: exec_block_def vm_execute_opcodes_def)

end
