(* ===== verification/VM_Registry.thy ===== *)
theory VM_Registry
  imports VM_Props
begin

text \<open>
  Constants and functions of the virtual machine. Because \<open>global_const_pool.size\<close> never
  moves, every constant is written at offset 0 of the pool and every index names that offset;
  \<open>registry_wf\<close> states what this makes of the tables, and the lemmas follow one registration
  and one lookup through the pool and the hash table.
\<close>

definition registry_wf :: "vm_state \<Rightarrow> bool" where
  "registry_wf st \<longleftrightarrow>
     pool_size st = 0 \<and> pool_cap st = GLOBAL_CONST_POOL_INITIAL_SIZE \<and> length (pool st) = pool_cap st \<and>
     (\<forall>i \<in> set (const_index st). i = 0) \<and> index_cap st = GLOBAL_CONST_POOL_INITIAL_CAPACITY \<and>
     length (const_index st) \<le> index_cap st \<and>
     funcs_cap st = GLOBAL_FUNCTIONS_COUNT_INCREMENT \<and> length (funcs st) \<le> funcs_cap st \<and>
     hm_capacity (func_map st) = INITIAL_MAP_CAP \<and> length (hm_data (func_map st)) = INITIAL_MAP_CAP \<and>
     hm_size (func_map st) = length (funcs st) \<and>
     (\<forall>k v. Some (k, v) \<in> set (hm_data (func_map st)) \<longrightarrow> k = 2)"

definition c_string :: "string \<Rightarrow> bool" where
  "c_string s \<longleftrightarrow> CHR 0x00 \<notin> set s"

lemma registry_wf_init: "registry_wf vm_static_init"
  by (auto simp: registry_wf_def vm_static_init_def hashmap_new_def)

lemma registry_wf_run: "run_effect st st' \<Longrightarrow> registry_wf st' = registry_wf st"
  by (simp add: run_effect_def same_tables_def registry_wf_def)

lemma unat_of_char: "unat (of_char c :: byte) = of_char c"
proof -
  have "(of_char c :: byte) = of_nat (of_char c)" by (simp only: of_nat_of_char)
  then show ?thesis by (simp add: unat_of_nat)
qed

lemma char_byte_roundtrip [simp]: "char_of (unat (of_char c :: byte)) = c"
  by (simp add: unat_of_char)

lemma of_char_byte_0: "(of_char c :: byte) = 0 \<longleftrightarrow> c = CHR 0x00"
proof
  assume "(of_char c :: byte) = 0"
  then have "char_of (unat (of_char c :: byte)) = char_of (unat (0 :: byte))" by metis
  then show "c = CHR 0x00" unfolding char_byte_roundtrip by (simp add: char_of_def)
qed simp

subsection \<open>The constant pool\<close>

lemma pool_string_append:
  assumes "c_string s"
  shows "pool_string (a # b # map of_char s @ 0 # rest) 2 = s"
proof -
  have "\<forall>c \<in> set s. (of_char c :: byte) \<noteq> 0" using assms by (auto simp: c_string_def of_char_byte_0)
  then have "takeWhile (\<lambda>b. b \<noteq> 0) (map of_char s @ 0 # rest) = (map of_char s :: byte list)"
    by (induction s) auto
  then show ?thesis by (simp add: pool_string_def map_idI)
qed

lemma register_constant_ok:
  assumes wf: "registry_wf st" and s: "c_string s" "length s + 3 \<le> GLOBAL_CONST_POOL_INITIAL_SIZE"
    and room: "length (const_index st) < GLOBAL_CONST_POOL_INITIAL_CAPACITY"
  obtains st' where "vm_register_constant s st = Inr (length (const_index st), st')" "registry_wf st'"
    "pool_string (pool st') 2 = s" "const_index st' = const_index st @ [0]"
    "funcs st' = funcs st" "func_map st' = func_map st" "current_frame st' = current_frame st"
    "callers st' = callers st"
proof -
  let ?data = "rev (be16_bytes (length s)) @ map of_char s @ [0 :: byte]"
  let ?pool = "blit (pool st) 0 ?data"
  let ?st = "st\<lparr>pool := ?pool, const_index := const_index st @ [0]\<rparr>"
  have len: "length ?data \<le> length (pool st)" using wf s by (simp add: registry_wf_def)
  have "vm_register_constant s st = Inr (length (const_index st), ?st)"
    using wf s room by (simp add: vm_register_constant_def registry_wf_def)
  moreover have "registry_wf ?st"
    using wf room len by (simp add: registry_wf_def)
  moreover have "pool_string ?pool 2 = s"
    using pool_string_append [OF s(1)] by (simp add: blit_def be16_bytes_def)
  ultimately show ?thesis using that [of ?st] by simp
qed

lemma jmp_offset_be16: "n < 65536 \<Longrightarrow> jmp_offset (be16_bytes n @ rest) = Inr n"
  by (simp add: jmp_offset_def be16_bytes_def be16_val_bytes)

lemma const_index_0:
  "registry_wf st \<Longrightarrow> h < length (const_index st) \<Longrightarrow> const_index st ! h = 0"
  by (simp add: registry_wf_def)

subsection \<open>The function table\<close>

lemma aliased_index:
  assumes "hm_capacity m = 128" "length (hm_data m) = 128" "hm_size m < 90"
    and "\<forall>k v. Some (k, v) \<in> set (hm_data m) \<longrightarrow> k = (2::nat)"
  shows "hashmap_index deref m (deref 2) = Some (home m (deref 2))"
proof -
  have home: "home m (deref 2) < length (hm_data m)" using assms by (simp add: home_def)
  have "probe_index deref (hm_data m) (deref 2) (Suc n) (home m (deref 2)) = Some (home m (deref 2))" for n
  proof (cases "hm_data m ! home m (deref 2)")
    case (Some e)
    then have "Some (fst e, snd e) \<in> set (hm_data m)" using nth_mem [OF home] by simp
    then have "fst e = 2" using assms(4) by blast
    with Some show ?thesis by (auto split: prod.split)
  qed simp
  from this [of 7] have "probe_index deref (hm_data m) (deref 2) 8 (home m (deref 2)) = Some (home m (deref 2))"
    by (simp add: eval_nat_numeral del: probe_index.simps)
  then show ?thesis using assms(1,3) by (simp add: hashmap_index_def load_exceeded_128)
qed

lemma aliased_put:
  assumes "hm_capacity m = 128" "length (hm_data m) = 128" "hm_size m < 90"
    and "\<forall>k v. Some (k, v) \<in> set (hm_data m) \<longrightarrow> k = (2::nat)"
  shows "hashmap_put (Suc d) lim deref m 2 v = Some (MAP_OK, hm_write m (home m (deref 2)) 2 v)"
  using aliased_index [OF assms] by simp

lemma aliased_get:
  fixes m :: "(nat, 'v) hashmap"
  assumes "hm_capacity m = 128" "length (hm_data m) = 128"
  shows "snd (hashmap_get deref (hm_write m (home m (deref 2)) 2 v) (deref 2)) = Some v"
proof -
  let ?m = "hm_write m (home m (deref 2)) (2::nat) v"
  have home: "home ?m (deref 2) = home m (deref 2)" "home m (deref 2) < length (hm_data m)"
    using assms by (simp_all add: home_def hm_write_def)
  then have slot: "hm_data ?m ! home m (deref 2) = Some (2, v)" by (simp add: hm_write_def)
  then have "probe_key deref (hm_data ?m) (deref 2) (Suc n) (home m (deref 2)) = Some (home m (deref 2))" for n
    by simp
  from this [of 7] have "probe_key deref (hm_data ?m) (deref 2) 8 (home m (deref 2)) = Some (home m (deref 2))"
    by (simp add: eval_nat_numeral del: probe_key.simps)
  then show ?thesis using slot home by (simp add: hashmap_get_def)
qed

definition func_handle :: "nat \<Rightarrow> nat \<Rightarrow> byte list \<Rightarrow> vm_func" where
  "func_handle index args data =
     \<lparr>signature_index = index, arg_size = args, vars_size = be16_val (data ! 0) (data ! 1) * 4,
      stack_size = be16_val (data ! 2) (data ! 3), bytecode_data = data\<rparr>"

lemma register_function_ok:
  assumes wf: "registry_wf st" and index: "index < length (const_index st)"
    and args: "signature_arg_size (pool_string (pool st) 2) = Inr args"
    and room: "length (funcs st) < GLOBAL_FUNCTIONS_COUNT_INCREMENT" and data: "4 \<le> length data"
  obtains st' where "vm_register_function index data st = Inr (func_handle index args data, st')"
    "registry_wf st'" "pool st' = pool st" "const_index st' = const_index st"
    "funcs st' = funcs st @ [func_handle index args data]"
    "snd (hashmap_get (pool_string (pool st)) (func_map st') (pool_string (pool st) 2))
       = Some (func_handle index args data)"
    "current_frame st' = current_frame st" "callers st' = callers st"
proof -
  let ?h = "func_handle index args data" and ?m = "func_map st" and ?deref = "pool_string (pool st)"
  let ?m' = "hm_write ?m (home ?m (?deref 2)) 2 ?h"
  let ?st = "st\<lparr>funcs := funcs st @ [?h], func_map := ?m'\<rparr>"
  have m: "hm_capacity ?m = 128" "length (hm_data ?m) = 128" "hm_size ?m < 90"
    "\<forall>k v. Some (k, v) \<in> set (hm_data ?m) \<longrightarrow> k = 2"
    using wf room by (simp_all add: registry_wf_def)
  obtain a b c d ds where ds: "data = a # b # c # d # ds"
    using data by (auto simp: numeral_eq_Suc Suc_le_length_iff)
  have put: "hashmap_put 33 map_limit ?deref ?m 2 ?h = Some (MAP_OK, ?m')"
    using aliased_put [OF m, of 32 map_limit ?deref ?h] by (simp add: eval_nat_numeral del: hashmap_put.simps)
  have "vm_register_function index data st = Inr (?h, ?st)"
    using wf room index args put unfolding ds
    by (simp add: const_index_0 [OF wf index] vm_register_function_def registry_wf_def func_handle_def Let_def numeral_2_eq_2 [symmetric])
  moreover have "registry_wf ?st"
  proof -
    have "Some (k, v) \<in> set (hm_data ?m') \<Longrightarrow> k = 2" for k v
      using m(4) set_update_subset_insert [of "hm_data ?m" "home ?m (?deref 2)" "Some (2, ?h)"]
      by (auto simp: hm_write_def)
    then show ?thesis using wf room by (auto simp: registry_wf_def hm_write_def)
  qed
  moreover have "snd (hashmap_get ?deref ?m' (?deref 2)) = Some ?h"
    by (rule aliased_get [OF m(1,2)])
  ultimately show ?thesis using that [of ?st] by simp
qed

lemma call_lookup_any_index:
  assumes "registry_wf st" "jmp_offset data = Inr h" "h < length (const_index st)"
  shows "call_lookup st data =
    (case snd (hashmap_get (pool_string (pool st)) (func_map st) (pool_string (pool st) 2)) of
       None \<Rightarrow> Inl (Method_Not_Found (pool_string (pool st) 2)) | Some func \<Rightarrow> Inr func)"
  using assms const_index_0 [OF assms(1,3)] by (simp add: call_lookup_def Let_def numeral_2_eq_2 [symmetric])

end
