(* ===== verification/VM_Claims.thy ===== *)
theory VM_Claims
  imports VM_Registry
begin

text \<open>The properties of the virtual machine, each with an instance.\<close>

subsection \<open>Instances\<close>

text \<open>A small frame, and a machine with one registered function of an empty body.\<close>

definition frame_1_2 :: vm_frame where
  "frame_1_2 = \<lparr>frame_pc = 0, stack = [1, 2], stack_cap = 8, locals = [None]\<rparr>"

lemma register_both:
  assumes wf: "registry_wf st" and s: "c_string s" "length s + 3 \<le> GLOBAL_CONST_POOL_INITIAL_SIZE"
    and room: "length (const_index st) < GLOBAL_CONST_POOL_INITIAL_CAPACITY"
      "length (funcs st) < GLOBAL_FUNCTIONS_COUNT_INCREMENT"
    and args: "signature_arg_size s = Inr args" and data: "4 \<le> length data"
  obtains st1 st2 where
    "vm_register_constant s st = Inr (length (const_index st), st1)"
    "vm_register_function (length (const_index st)) data st1 =
       Inr (func_handle (length (const_index st)) args data, st2)"
    "registry_wf st2" "const_index st2 = const_index st @ [0]" "length (funcs st2) = length (funcs st) + 1"
    "current_frame st2 = current_frame st" "callers st2 = callers st"
    "\<And>code h. jmp_offset code = Inr h \<Longrightarrow> h \<le> length (const_index st) \<Longrightarrow>
       call_lookup st2 code = Inr (func_handle (length (const_index st)) args data)"
proof -
  let ?i = "length (const_index st)"
  obtain st1 where c: "vm_register_constant s st = Inr (?i, st1)" "registry_wf st1"
    "pool_string (pool st1) 2 = s" "const_index st1 = const_index st @ [0]" "funcs st1 = funcs st"
    "current_frame st1 = current_frame st" "callers st1 = callers st"
    using register_constant_ok [OF wf s room(1)] by metis
  have i: "?i < length (const_index st1)" "signature_arg_size (pool_string (pool st1) 2) = Inr args"
    "length (funcs st1) < GLOBAL_FUNCTIONS_COUNT_INCREMENT"
    using c args room(2) by simp_all
  obtain st2 where f: "vm_register_function ?i data st1 = Inr (func_handle ?i args data, st2)"
    "registry_wf st2" "pool st2 = pool st1" "const_index st2 = const_index st1"
    "funcs st2 = funcs st1 @ [func_handle ?i args data]"
    "snd (hashmap_get (pool_string (pool st1)) (func_map st2) (pool_string (pool st1) 2))
       = Some (func_handle ?i args data)"
    "current_frame st2 = current_frame st1" "callers st2 = callers st1"
    using register_function_ok [OF c(2) i data] by metis
  have "call_lookup st2 code = Inr (func_handle ?i args data)"
    if "jmp_offset code = Inr h" "h \<le> ?i" for code h
    using call_lookup_any_index [OF f(2) that(1)] that(2) c(4) f(3,4,6) by simp
  with c f show ?thesis using that [of st1 st2] by simp
qed

subsection \<open>Handlers\<close>



text \<open>
  The table is wrong about the unconditional jumps: their handlers leave the operand stack
  alone, but the table has them pop two bytes.
\<close>

theorem jump_effect_differs_from_table:
  assumes "opcode = OPCODE_JMP \<or> opcode = OPCODE_RJMP"
    and "opcode_execute_funcs opcode frame data = Inr (res, frame')"
  shows "stack frame' = stack frame \<and> stack_inc opcode = -2"
  using opcode_effect [OF assms(2)] assms(1) stack_inc_simps by (auto simp: handler_effect_def)

lemma jump_effect_differs_from_table_witness:
  "stack frame_1_2 = stack frame_1_2 \<and> stack_inc OPCODE_JMP = -2"
proof -
  have "opcode_execute_funcs OPCODE_JMP frame_1_2 [0, 5] = Inr (8, frame_1_2)"
    by (simp add: handler_defs jmp_offset_def be16_val_def)
  from jump_effect_differs_from_table [OF _ this] show ?thesis by simp
qed

text \<open>
  The opcode the compiler emits for unary minus has no handler: executing it panics in
  every state, for integers and for floats.
\<close>

theorem unary_minus_panics:
  "vm_dispatch exec (int_operator_to_opcode UNARY_MINUS) data st = Inl (Vm_Panic OPCODE_INEG) \<and>
   vm_dispatch exec (float_operator_to_opcode UNARY_MINUS) data st = Inl (Vm_Panic OPCODE_FNEG)"
  by (simp add: int_operator_to_opcode_def float_operator_to_opcode_def vm_dispatch_def
      opcode_execute_funcs_unhandled handled_opcodes_def)

subsection \<open>Runs\<close>






subsection \<open>Calls and the registry\<close>

text \<open>
  C32. A call returns to the instruction behind it with the caller's frame exactly as it was:
  the arguments stay on the caller's stack and nothing the callee computed reaches it. The
  documentation of functions promises the result on the stack.
\<close>

theorem call_returns_nothing:
  assumes "vm_execute_opcode_call (vm_execute_opcodes fuel) st data = Inr (res, st')"
  shows "res = 3 \<and> current_frame st' = current_frame st"
  using call_effect [OF _ assms] vm_execute_opcodes_effect by blast

lemma call_returns_nothing_witness:
  "\<exists>st st'. stack (current_frame st) = [5] \<and>
     vm_execute_opcode_call (vm_execute_opcodes 1) st [0, 0] = Inr (3, st') \<and>
     stack (current_frame st') = [5]"
proof -
  let ?st = "vm_static_init\<lparr>current_frame := (current_frame vm_static_init)\<lparr>stack := [5]\<rparr>\<rparr>"
  have wf: "registry_wf ?st" using registry_wf_init by (simp add: registry_wf_def)
  have lens: "length (const_index ?st) = 0" "length (funcs ?st) = 0" by (simp_all add: vm_static_init_def)
  have s: "c_string ''f(I)''" "signature_arg_size ''f(I)'' = Inr 4"
    by (simp_all add: c_string_def signature_arg_size_def)
  have h: "jmp_offset [0, 0] = Inr 0" by (simp add: jmp_offset_def be16_val_def)
  obtain st where st: "current_frame st = current_frame ?st" "callers st = callers ?st"
    "call_lookup st [0, 0] = Inr (func_handle (length (const_index ?st)) 4 [0, 1, 0, 0])"
  proof (rule register_both [OF wf s(1) _ _ _ s(2), of "[0, 1, 0, 0]"])
    fix st1 st2
    assume "current_frame st2 = current_frame ?st" "callers st2 = callers ?st"
      "\<And>code h. jmp_offset code = Inr h \<Longrightarrow> h \<le> length (const_index ?st) \<Longrightarrow>
         call_lookup st2 code = Inr (func_handle (length (const_index ?st)) 4 [0, 1, 0, 0])"
    with that [of st2] h show thesis by blast
  qed (use lens in simp_all)
  have st_eq: "current_frame st = new_frame 1024 (replicate 256 None)\<lparr>stack := [5]\<rparr>" "callers st = []"
    "call_lookup st [0, 0] = Inr (func_handle 0 4 [0, 1, 0, 0])"
    using st lens by (simp_all add: vm_static_init_def)
  obtain st' where call: "vm_execute_opcode_call (vm_execute_opcodes 1) st [0, 0] = Inr (3, st')"
    using st_eq by (simp add: vm_execute_opcode_call_def call_enter_def new_frame_def call_args_def func_handle_def
        be16_val_def vm_execute_opcodes_def call_leave_def)
  moreover have "stack (current_frame st) = [5]" using st_eq(1) by simp
  ultimately show ?thesis using call_returns_nothing [OF call] by metis
qed

text \<open>
  C31. Only the last registered function can be called: after two registrations, a call with
  the constant index of the first function runs the second one, because both signatures share
  offset 0 of the constant pool.
\<close>

theorem last_registered_function_wins:
  assumes "registry_wf st"
    and "c_string f" "length f + 3 \<le> GLOBAL_CONST_POOL_INITIAL_SIZE" "signature_arg_size f = Inr args_f"
    and "c_string g" "length g + 3 \<le> GLOBAL_CONST_POOL_INITIAL_SIZE" "signature_arg_size g = Inr args_g"
    and "length (const_index st) + 1 < GLOBAL_CONST_POOL_INITIAL_CAPACITY"
    and "length (funcs st) + 1 < GLOBAL_FUNCTIONS_COUNT_INCREMENT"
    and "4 \<le> length data_f" "4 \<le> length data_g"
  shows "\<exists>i st1 h_f st2 j st3 h_g st4.
     vm_register_constant f st = Inr (i, st1) \<and> vm_register_function i data_f st1 = Inr (h_f, st2) \<and>
     vm_register_constant g st2 = Inr (j, st3) \<and> vm_register_function j data_g st3 = Inr (h_g, st4) \<and>
     bytecode_data h_f = data_f \<and> bytecode_data h_g = data_g \<and> i \<noteq> j \<and>
     call_lookup st4 (be16_bytes i) = Inr h_g"
proof -
  let ?i = "length (const_index st)"
  obtain st1 st2 where f: "vm_register_constant f st = Inr (?i, st1)"
    "vm_register_function ?i data_f st1 = Inr (func_handle ?i args_f data_f, st2)"
    "registry_wf st2" "const_index st2 = const_index st @ [0]" "length (funcs st2) = length (funcs st) + 1"
    using register_both [OF assms(1-3) _ _ assms(4,10)] assms(8,9) by (metis add_lessD1)
  let ?j = "length (const_index st2)"
  have room: "?j < GLOBAL_CONST_POOL_INITIAL_CAPACITY" "length (funcs st2) < GLOBAL_FUNCTIONS_COUNT_INCREMENT"
    using f(4,5) assms(8,9) by simp_all
  obtain st3 st4 where g: "vm_register_constant g st2 = Inr (?j, st3)"
    "vm_register_function ?j data_g st3 = Inr (func_handle ?j args_g data_g, st4)"
    "\<And>code h. jmp_offset code = Inr h \<Longrightarrow> h \<le> ?j \<Longrightarrow> call_lookup st4 code = Inr (func_handle ?j args_g data_g)"
    by (rule register_both [OF f(3) assms(5,6) room assms(7,11)]) blast
  have "jmp_offset (be16_bytes ?i) = Inr ?i"
    using assms(8) jmp_offset_be16 [of ?i "[]"] by simp
  then have "call_lookup st4 (be16_bytes ?i) = Inr (func_handle ?j args_g data_g)"
    using g(3) f(4) by simp
  moreover have "?i \<noteq> ?j" using f(4) by simp
  ultimately show ?thesis using f(1,2) g(1,2) by (force simp: func_handle_def)
qed

lemma last_registered_function_wins_witness:
  "\<exists>i st1 h_f st2 j st3 h_g st4.
     vm_register_constant ''f()I'' vm_static_init = Inr (i, st1) \<and>
     vm_register_function i [0, 0, 0, 0] st1 = Inr (h_f, st2) \<and>
     vm_register_constant ''g()I'' st2 = Inr (j, st3) \<and>
     vm_register_function j [0, 0, 0, 4] st3 = Inr (h_g, st4) \<and>
     bytecode_data h_f = [0, 0, 0, 0] \<and> bytecode_data h_g = [0, 0, 0, 4] \<and> i \<noteq> j \<and>
     call_lookup st4 (be16_bytes i) = Inr h_g"
  by (rule last_registered_function_wins [OF registry_wf_init])
     (simp_all add: c_string_def signature_arg_size_def vm_static_init_def)

text \<open>
  The 65th constant breaks the pool: with 64 constants registered, the index is reallocated
  and the new pointer dropped, so the registration goes on writing to a block it no longer
  owns.
\<close>

theorem constant_65_stale:
  assumes "registry_wf st" "length (const_index st) = GLOBAL_CONST_POOL_INITIAL_CAPACITY"
  shows "vm_register_constant s st = Inl Stale_Realloc"
  using assms by (simp add: vm_register_constant_def registry_wf_def Let_def)

lemma constant_65_stale_witness:
  "vm_register_constant ''f()'' (vm_static_init\<lparr>const_index := replicate 64 0\<rparr>) = Inl Stale_Realloc"
  by (rule constant_65_stale) (use registry_wf_init in \<open>simp_all add: registry_wf_def vm_static_init_def\<close>)

end
