(* ===== verification/Ast.thy ===== *)
theory Ast
  imports Opcodes
begin

text \<open>
  The syntax tree of \<open>parser.h\<close>. A node that carries a \<open>static_type\<close> the compiler fills in
  later has it as its first argument, \<open>TYPE_UNKNWN\<close> when the parser builds it; the type of a
  literal is fixed by its constructor in \<open>parser.c\<close>. A scope is the list of its statements.
  \<open>Stat_Other\<close> stands for every other node in a statement list (a switch, a nested scope, a
  declaration).
\<close>

datatype expr =
    Ident static_type string
  | Group static_type expr
  | Literal_Bool bool
  | Literal_Int i32
  | Literal_Float i32
  | Literal_Char char
  | Literal_String string
  | Unary_Op static_type operator expr
  | Binary_Op static_type operator expr expr
  | Ternary_Op static_type operator expr expr expr
  | Special_Cast static_type byte expr

datatype stat =
    Stat_Expr expr
  | Stat_Ret expr
  | Stat_If expr "stat list" "stat list option"
  | Stat_While expr "stat list"
  | Stat_Other

record decl_func =
  df_name :: string
  df_ret_type :: "string option"
  df_args :: "(string \<times> string) list option"
  df_body :: "stat list"

fun static_type :: "expr \<Rightarrow> static_type" where
  "static_type (Ident t name) = t"
| "static_type (Group t e) = t"
| "static_type (Literal_Bool b) = TYPE_BOOL"
| "static_type (Literal_Int n) = TYPE_INT"
| "static_type (Literal_Float x) = TYPE_FLOAT"
| "static_type (Literal_Char c) = TYPE_CHAR"
| "static_type (Literal_String s) = TYPE_STRING"
| "static_type (Unary_Op t op e) = t"
| "static_type (Binary_Op t op l r) = t"
| "static_type (Ternary_Op t op a b c) = t"
| "static_type (Special_Cast t opcode e) = t"

text \<open>
  The size of an expression without the casts the compiler inserts, and with them: the
  measures by which compilation ends.
\<close>

fun expr_skeleton :: "expr \<Rightarrow> nat" where
  "expr_skeleton (Group t e) = Suc (expr_skeleton e)"
| "expr_skeleton (Unary_Op t op e) = Suc (expr_skeleton e)"
| "expr_skeleton (Binary_Op t op l r) = Suc (expr_skeleton l + expr_skeleton r)"
| "expr_skeleton (Ternary_Op t op a b c) = Suc (expr_skeleton a + expr_skeleton b + expr_skeleton c)"
| "expr_skeleton (Special_Cast t opcode e) = expr_skeleton e"
| "expr_skeleton e = 0"

end
