(* ===== verification/Compiler_Scope.thy ===== *)
theory Compiler_Scope
  imports Ast Emitter VM
begin

text \<open>
  The compiler's scopes (\<open>compiler_scope.c\<close>) and its global state. A scope handler keeps its
  variables, the offset of its first variable slot and the running size of the operand stack;
  the pointers \<open>stack_max_size_ptr\<close> and \<open>vars_max_size_ptr\<close> of every handler of a chain lead
  to the two maxima of the chain's root scope, which the model keeps once, in \<open>c_stack_max\<close>
  and \<open>c_vars_max\<close>. \<open>c_scope\<close> is the current scope, \<open>c_parents\<close> its chain of parents. Stack
  sizes are \<open>size_t\<close> and wrap around.
\<close>

record scope_var =
  var_static_type :: static_type
  var_name :: string
  var_index :: byte

datatype emitter_kind = Unbuffered | Buffered emitter

record scope_handler =
  sc_is_function_scope :: bool
  sc_stack_size :: "64 word"
  sc_vars_off :: nat
  sc_vars :: "scope_var list"
  sc_vars_cap :: nat
  sc_emitter :: emitter_kind

record func_desc =
  fd_name :: string
  fd_args :: "(string \<times> string) list"
  fd_ret_type :: string
  fd_signature :: string

record compiler =
  c_scope :: scope_handler
  c_parents :: "scope_handler list"
  c_stack_max :: "64 word"
  c_vars_max :: nat
  c_vm :: vm_state
  c_func_map :: "(string, func_desc) hashmap"
  c_const_pool_map :: "(string, nat) hashmap"
  c_const_pool_map_size :: nat

definition frame_init_scope :: "scope_handler" where
  "frame_init_scope =
     \<lparr>sc_is_function_scope = False, sc_stack_size = 0, sc_vars_off = 0, sc_vars = [],
      sc_vars_cap = 0, sc_emitter = Unbuffered\<rparr>"

definition c_chain :: "compiler \<Rightarrow> scope_handler list" where
  "c_chain c = c_scope c # c_parents c"

definition enter_scope :: "scope_handler \<Rightarrow> compiler \<Rightarrow> compiler" where
  "enter_scope scope c = c\<lparr>c_scope := scope, c_parents := c_chain c\<rparr>"

definition leave_scope :: "compiler \<Rightarrow> compiler" where
  "leave_scope c = c\<lparr>c_scope := hd (c_parents c), c_parents := tl (c_parents c)\<rparr>"

fun frame_lookup_var_by_name :: "scope_handler list \<Rightarrow> string \<Rightarrow> bool \<Rightarrow> scope_var option" where
  "frame_lookup_var_by_name [] name use_parents = None"
| "frame_lookup_var_by_name (scope # parents) name use_parents =
     (case find (\<lambda>var. var_name var = name) (sc_vars scope) of
        Some var \<Rightarrow> Some var
      | None \<Rightarrow>
          if use_parents \<and> parents \<noteq> [] \<and> \<not> sc_is_function_scope scope
          then frame_lookup_var_by_name parents name use_parents else None)"

definition frame_define_var :: "static_type \<Rightarrow> string \<Rightarrow> compiler \<Rightarrow> (scope_var \<times> compiler) result" where
  "frame_define_var type_id name c =
     (let scope = c_scope c; slot = length (sc_vars scope) + sc_vars_off scope;
          var = \<lparr>var_static_type = type_id, var_name = name, var_index = word_of_nat slot\<rparr>
      in if sc_vars_cap scope \<le> length (sc_vars scope)
         then compiler_panic ''no free space left for new scope variables''
         else Inr (var, c\<lparr>c_scope := scope\<lparr>sc_vars := sc_vars scope @ [var]\<rparr>,
                          c_vars_max := max (c_vars_max c) (slot + 1)\<rparr>))"

definition frame_increment_stack_size :: "int \<Rightarrow> compiler \<Rightarrow> compiler" where
  "frame_increment_stack_size push_object_size c =
     (let scope = c_scope c; new_size = sc_stack_size scope + word_of_int push_object_size
      in c\<lparr>c_scope := scope\<lparr>sc_stack_size := new_size\<rparr>, c_stack_max := max (c_stack_max c) new_size\<rparr>)"

text \<open>
  \<open>frame_find_root_scope\<close> climbs to the scope that owns the two maxima: a function's scope, or
  the root of the chain.
\<close>

fun frame_find_root_scope :: "scope_handler list \<Rightarrow> scope_handler option" where
  "frame_find_root_scope [] = None"
| "frame_find_root_scope (scope # parents) =
     (if parents \<noteq> [] \<and> \<not> sc_is_function_scope scope then frame_find_root_scope parents else Some scope)"

text \<open>
  The scope of a branch or of a loop body: its variables follow the ones of the enclosing
  scope, its emitter is its own.
\<close>

definition block_scope :: "scope_handler \<Rightarrow> 64 word \<Rightarrow> nat \<Rightarrow> scope_handler" where
  "block_scope scope stk page_size =
     frame_init_scope\<lparr>sc_vars_cap := sc_vars_cap scope,
       sc_vars_off := length (sc_vars scope) + sc_vars_off scope,
       sc_stack_size := stk, sc_emitter := Buffered (compiler_emitter_buffered_new page_size)\<rparr>"

subsection \<open>Emitting\<close>

text \<open>
  Every emission goes to the emitter of the current scope. An unbuffered emitter hands the
  bytes to the virtual machine at once; \<open>fuel\<close> bounds that run. \<open>compiler_emit_n\<close> returns 0 (the
  emitters return the number of bytes, which is never 0 here).
\<close>

definition compiler_emit_n :: "nat \<Rightarrow> byte list \<Rightarrow> compiler \<Rightarrow> (int \<times> compiler) result" where
  "compiler_emit_n fuel data c =
     (case sc_emitter (c_scope c) of
        Unbuffered \<Rightarrow>
          sbind (vm_execute_opcodes fuel data (c_vm c)) (\<lambda>vm. Inr (0, c\<lparr>c_vm := vm\<rparr>))
      | Buffered em \<Rightarrow>
          sbind (emitter_emit_buffered em data)
            (\<lambda>em. Inr (0, c\<lparr>c_scope := (c_scope c)\<lparr>sc_emitter := Buffered em\<rparr>\<rparr>)))"

definition compiler_emit_0 :: "nat \<Rightarrow> byte \<Rightarrow> compiler \<Rightarrow> (int \<times> compiler) result" where
  "compiler_emit_0 fuel opcode c = compiler_emit_n fuel [opcode] c"

definition compiler_emit_1 :: "nat \<Rightarrow> byte \<Rightarrow> byte \<Rightarrow> compiler \<Rightarrow> (int \<times> compiler) result" where
  "compiler_emit_1 fuel opcode byte1 c = compiler_emit_n fuel [opcode, byte1] c"

definition compiler_emit_2 :: "nat \<Rightarrow> byte \<Rightarrow> byte \<Rightarrow> byte \<Rightarrow> compiler \<Rightarrow> (int \<times> compiler) result" where
  "compiler_emit_2 fuel opcode byte1 byte2 c = compiler_emit_n fuel [opcode, byte1, byte2] c"

text \<open>The buffer behind the current scope's emitter, as \<open>compiler_emitter_sink\<close> reads it.\<close>

definition scope_sink :: "compiler \<Rightarrow> byte list result" where
  "scope_sink c = (case sc_emitter (c_scope c) of Unbuffered \<Rightarrow> Inr [] | Buffered em \<Rightarrow> compiler_emitter_sink em)"

definition scope_emitted :: "compiler \<Rightarrow> nat" where
  "scope_emitted c = (case sc_emitter (c_scope c) of Unbuffered \<Rightarrow> 0 | Buffered em \<Rightarrow> em_size em)"

text \<open>\<open>compiler_get_root_frame\<close>: the root scope, unbuffered in interactive mode.\<close>

definition compiler_get_root_frame :: "bool \<Rightarrow> scope_handler" where
  "compiler_get_root_frame is_interactive =
     \<lparr>sc_is_function_scope = False, sc_stack_size = 0, sc_vars_off = 0, sc_vars = [], sc_vars_cap = 64,
      sc_emitter = (if is_interactive then Unbuffered else Buffered (compiler_emitter_buffered_new 4096))\<rparr>"

definition compiler_init :: "bool \<Rightarrow> compiler" where
  "compiler_init is_interactive =
     \<lparr>c_scope = compiler_get_root_frame is_interactive, c_parents = [], c_stack_max = 0, c_vars_max = 0,
      c_vm = vm_static_init, c_func_map = hashmap_new, c_const_pool_map = hashmap_new,
      c_const_pool_map_size = 0\<rparr>"

subsection \<open>Sequencing\<close>

text \<open>
  \<open>cbind\<close> is \<open>if ((ret = m)) return ret;\<close> followed by the rest, \<open>cseq\<close> ignores the code \<open>m\<close>
  returned.
\<close>

definition cbind :: "(int \<times> 'c) result \<Rightarrow> ('c \<Rightarrow> (int \<times> 'c) result) \<Rightarrow> (int \<times> 'c) result" where
  "cbind m f = sbind m (\<lambda>(ret, c). if ret \<noteq> 0 then Inr (ret, c) else f c)"

definition cseq :: "(int \<times> 'c) result \<Rightarrow> ('c \<Rightarrow> 'a result) \<Rightarrow> 'a result" where
  "cseq m f = sbind m (\<lambda>(ret, c). f c)"

lemma cbind_cong [fundef_cong]:
  "m = m' \<Longrightarrow> (\<And>c. m' = Inr (0, c) \<Longrightarrow> f c = f' c) \<Longrightarrow> cbind m f = cbind m' f'"
  by (cases m') (auto simp: cbind_def)

lemma cseq_cong [fundef_cong]:
  "m = m' \<Longrightarrow> (\<And>ret c. m' = Inr (ret, c) \<Longrightarrow> f c = f' c) \<Longrightarrow> cseq m f = cseq m' f'"
  by (cases m') (auto simp: cseq_def)

lemma cbind_Inr [simp]: "cbind (Inr (0, c)) f = f c"
  by (simp add: cbind_def)

lemma cseq_Inr [simp]: "cseq (Inr (ret, c)) f = f c"
  by (simp add: cseq_def)

end
