(* ===== verification/Compiler.thy ===== *)
theory Compiler
  imports Compiler_Scope
begin

text \<open>
  The compiler: static types of expressions (\<open>compiler_vars.c\<close>), expressions
  (\<open>compiler_expr.c\<close>), statements (\<open>compiler_stat.c\<close>), functions (\<open>compiler_func.c\<close>) and the
  entry point (\<open>compiler.c\<close>). A compile function returns the code and the new compiler state,
  or the fault or panic that ends the process; \<open>fuel\<close> bounds the runs of an unbuffered
  emitter.
\<close>

subsection \<open>Static types\<close>

text \<open>
  \<open>ast_node_trace_data_type\<close> writes the type into the node and inserts casts; the model returns
  the new node.
\<close>

fun ast_node_trace_data_type :: "scope_handler list \<Rightarrow> expr \<Rightarrow> expr result" where
  "ast_node_trace_data_type chain (Ident t name) =
     (if t \<noteq> TYPE_UNKNWN then Inr (Ident t name)
      else case frame_lookup_var_by_name chain name True of
             None \<Rightarrow> compiler_panic ''unable to trace data type of undeclared/non-local variable''
           | Some var \<Rightarrow> Inr (Ident (var_static_type var) name))"
| "ast_node_trace_data_type chain (Group t e) =
     (if t \<noteq> TYPE_UNKNWN then Inr (Group t e)
      else sbind (if static_type e = TYPE_UNKNWN then ast_node_trace_data_type chain e else Inr e)
             (\<lambda>e. Inr (Group (static_type e) e)))"
| "ast_node_trace_data_type chain (Unary_Op t oper e) =
     (if t \<noteq> TYPE_UNKNWN then Inr (Unary_Op t oper e)
      else sbind (if static_type e = TYPE_UNKNWN then ast_node_trace_data_type chain e else Inr e)
             (\<lambda>e. Inr (Unary_Op (static_type e) oper e)))"
| "ast_node_trace_data_type chain (Binary_Op t oper left right) =
     (if t \<noteq> TYPE_UNKNWN then Inr (Binary_Op t oper left right)
      else if oper = FUNCTION_CALL
      then compiler_panic ''unable to trace function return value static type''
      else
        sbind (if static_type left = TYPE_UNKNWN then ast_node_trace_data_type chain left else Inr left) (\<lambda>left.
          sbind (if static_type right = TYPE_UNKNWN then ast_node_trace_data_type chain right else Inr right) (\<lambda>right.
            if static_type left \<noteq> static_type right then
              (let cast_r = type_select_cast_method (static_type left) (static_type right)
               in if cr_var_index cast_r = 0
                  then Inr (Binary_Op (cr_static_type cast_r) oper
                              (Special_Cast (cr_static_type cast_r) (cr_opcode cast_r) left) right)
                  else Inr (Binary_Op (cr_static_type cast_r) oper
                              left (Special_Cast (cr_static_type cast_r) (cr_opcode cast_r) right)))
            else Inr (Binary_Op (static_type right) oper left right))))"
| "ast_node_trace_data_type chain e =
     (if static_type e \<noteq> TYPE_UNKNWN then Inr e
      else compiler_panic ''unable to trace static data type of node'')"

lemma trace_skeleton:
  "ast_node_trace_data_type chain e = Inr e' \<Longrightarrow> expr_skeleton e' = expr_skeleton e"
  by (induction chain e arbitrary: e' rule: ast_node_trace_data_type.induct)
     (force simp: Let_def split: if_splits option.splits)+

subsection \<open>The compiler's constant pool\<close>

text \<open>The index stays what the caller initialised it with (0) when the value is not found.\<close>

definition const_pool_index_by_value :: "string \<Rightarrow> compiler \<Rightarrow> nat option" where
  "const_pool_index_by_value value c = snd (hashmap_get (\<lambda>s. s) (c_const_pool_map c) value)"

text \<open>
  The map stores the index as the pointer value. An index other than 0 that is found again is
  then read as if it were an address.
\<close>

definition const_pool_register_value :: "string \<Rightarrow> compiler \<Rightarrow> (nat \<times> compiler) result" where
  "const_pool_register_value value c =
     (case snd (hashmap_get (\<lambda>s. s) (c_const_pool_map c) value) of
        Some (Suc n) \<Rightarrow> Inl Null_Deref
      | _ \<Rightarrow>
          (case hashmap_put 33 map_limit (\<lambda>s. s) (c_const_pool_map c) value (c_const_pool_map_size c) of
             None \<Rightarrow> Inl Table_Full
           | Some (ret, m) \<Rightarrow>
               Inr (c_const_pool_map_size c,
                    c\<lparr>c_const_pool_map := m,
                      c_const_pool_map_size := (c_const_pool_map_size c + 1) mod 65536\<rparr>)))"

definition compiler_lookup_func_by_name :: "string \<Rightarrow> compiler \<Rightarrow> func_desc result" where
  "compiler_lookup_func_by_name name c =
     (case hashmap_get (\<lambda>s. s) (c_func_map c) name of
        (ret, Some func) \<Rightarrow> if ret \<noteq> 0 then compiler_panic ''function lookup failed'' else Inr func
      | (ret, None) \<Rightarrow> compiler_panic ''function lookup failed'')"

subsection \<open>Expressions\<close>

definition compile_literal_int :: "nat \<Rightarrow> i32 \<Rightarrow> compiler \<Rightarrow> (int \<times> compiler) result" where
  "compile_literal_int fuel int_val c =
     compiler_emit_n fuel (OPCODE_ICONST # be32_bytes int_val)
       (frame_increment_stack_size (stack_inc OPCODE_ICONST) c)"

definition compile_literal_float :: "nat \<Rightarrow> i32 \<Rightarrow> compiler \<Rightarrow> (int \<times> compiler) result" where
  "compile_literal_float fuel float_val c =
     compiler_emit_n fuel (OPCODE_FCONST # le32_bytes float_val)
       (frame_increment_stack_size (stack_inc OPCODE_FCONST) c)"

definition compile_ident :: "nat \<Rightarrow> string \<Rightarrow> compiler \<Rightarrow> (int \<times> compiler) result" where
  "compile_ident fuel name c =
     (case frame_lookup_var_by_name (c_chain c) name True of
        Some var \<Rightarrow>
          (let opcode = OPCODE_LOAD (var_static_type var)
           in compiler_emit_1 fuel opcode (var_index var) (frame_increment_stack_size (stack_inc opcode) c))
      | None \<Rightarrow> Inr (1, c))"

text \<open>
  The left-hand side of an assignment: the variable it names, defined on the spot when it is
  new, the type to save and the cast to apply (0 for none). Reading the name of a node that is
  not an identifier is \<open>Bad_Node\<close>.
\<close>

definition assignment_target :: "expr \<Rightarrow> static_type \<Rightarrow> compiler \<Rightarrow>
    (scope_var \<times> byte \<times> static_type \<times> compiler) result" where
  "assignment_target left r_type c =
     (case left of
        Ident t name \<Rightarrow>
          (case frame_lookup_var_by_name (c_chain c) name True of
             Some var \<Rightarrow>
               if var_static_type var \<noteq> r_type then
                 (let cr = type_select_cast_method (var_static_type var) r_type
                  in if cr_var_index cr = 0
                     then compiler_panic ''assignment error: cast request requires explicit casting''
                     else Inr (var, cr_opcode cr, cr_static_type cr, c))
               else Inr (var, 0, r_type, c)
           | None \<Rightarrow> sbind (frame_define_var r_type name c) (\<lambda>(var, c). Inr (var, 0, r_type, c)))
      | _ \<Rightarrow> Inl Bad_Node)"

definition emit_opcode :: "nat \<Rightarrow> byte \<Rightarrow> compiler \<Rightarrow> (int \<times> compiler) result" where
  "emit_opcode fuel opcode c =
     compiler_emit_0 fuel opcode (frame_increment_stack_size (stack_inc opcode) c)"

definition binary_opcode :: "static_type \<Rightarrow> operator \<Rightarrow> byte" where
  "binary_opcode t oper =
     (if t = TYPE_INT then int_operator_to_opcode oper
      else if t = TYPE_FLOAT then float_operator_to_opcode oper else 0)"

function compile_expression :: "nat \<Rightarrow> expr \<Rightarrow> compiler \<Rightarrow> (int \<times> compiler) result"
  and compile_call_args :: "nat \<Rightarrow> expr \<Rightarrow> compiler \<Rightarrow> (int \<times> compiler) result" where
  "compile_expression fuel (Literal_Int n) c = compile_literal_int fuel n c"
| "compile_expression fuel (Literal_Float x) c = compile_literal_float fuel x c"
| "compile_expression fuel (Ident t name) c = compile_ident fuel name c"
| "compile_expression fuel (Group t e) c = compile_expression fuel e c"
| "compile_expression fuel (Unary_Op t oper e) c =
     (let opcode = int_operator_to_opcode oper
      in if opcode = 0 then compiler_panic ''unable to compile unary op''
         else cbind (compile_expression fuel e c) (emit_opcode fuel opcode))"
| "compile_expression fuel (Binary_Op t oper left right) c =
     (if oper = ASSIGNMENT then
        sbind (ast_node_trace_data_type (c_chain c) right) (\<lambda>right.
          sbind (assignment_target left (static_type right) c) (\<lambda>(var, cast_opcode, var_type, c).
            let opcode = OPCODE_SAVE var_type
            in cbind (compile_expression fuel right c) (\<lambda>c.
                 cbind (if cast_opcode \<noteq> 0 then emit_opcode fuel cast_opcode c else Inr (0, c)) (\<lambda>c.
                   compiler_emit_1 fuel opcode (var_index var)
                     (frame_increment_stack_size (stack_inc opcode) c)))))
      else if oper = FUNCTION_CALL then
        (case left of
           Ident t name \<Rightarrow>
             sbind (compiler_lookup_func_by_name name c) (\<lambda>func_desc.
               let func_sig_index = (case const_pool_index_by_value (fd_signature func_desc) c of
                                       Some index \<Rightarrow> index | None \<Rightarrow> 0)
               in case right of
                    Group t args \<Rightarrow>
                      cseq (compile_call_args fuel args c) (\<lambda>c.
                        compiler_emit_2 fuel OPCODE_CALL
                          (word_of_nat (func_sig_index div 256)) (word_of_nat func_sig_index) c)
                  | _ \<Rightarrow> compiler_panic ''group was expected as the right part of the function call operator'')
         | _ \<Rightarrow> compiler_panic ''dont know how to build member function call yet'')
      else
        sbind (ast_node_trace_data_type (c_chain c) (Binary_Op t oper left right)) (\<lambda>node.
          case node of
            Binary_Op t' oper' left' right' \<Rightarrow>
              (let opcode = binary_opcode t' oper
               in if opcode = 0 then compiler_panic ''binary op compilation failed : no suitable opcode was found''
                  else cbind (compile_expression fuel left' c) (\<lambda>c.
                         cbind (compile_expression fuel right' c) (emit_opcode fuel opcode)))
          | _ \<Rightarrow> Inl Bad_Node))"
| "compile_expression fuel (Special_Cast t opcode e) c =
     cbind (compile_expression fuel e c) (emit_opcode fuel opcode)"
| "compile_expression fuel (Literal_Bool b) c = compiler_panic ''unknown type of expression''"
| "compile_expression fuel (Literal_Char ch) c = compiler_panic ''unknown type of expression''"
| "compile_expression fuel (Literal_String s) c = compiler_panic ''unknown type of expression''"
| "compile_expression fuel (Ternary_Op t oper a b d) c = compiler_panic ''unknown type of expression''"
| "compile_call_args fuel current_arg c =
     (case current_arg of
        Binary_Op t oper left right \<Rightarrow>
          if oper = COMMA then cseq (compile_expression fuel left c) (compile_call_args fuel right)
          else compiler_panic ''unexpected binary operator in function args''
      | _ \<Rightarrow> compile_expression fuel current_arg c)"
  by pat_completeness auto


termination
proof (relation "measures [\<lambda>x. case x of Inl (fuel, e, c) \<Rightarrow> expr_skeleton e | Inr (fuel, e, c) \<Rightarrow> expr_skeleton e,
    \<lambda>x. case x of Inl (fuel, e, c) \<Rightarrow> size e | Inr (fuel, e, c) \<Rightarrow> size e,
    \<lambda>x. case x of Inl y \<Rightarrow> 0 | Inr y \<Rightarrow> 1]", goal_cases)
qed (auto simp del: ast_node_trace_data_type.simps dest!: trace_skeleton)

subsection \<open>Statements\<close>

text \<open>
  The two bytes of a jump offset as \<open>compiler_stat.c\<close> computes them. The cast binds tighter
  than the shift, so the high byte is shifted out of a value that is already one byte wide.
\<close>

definition jump_hi :: "nat \<Rightarrow> byte" where
  "jump_hi n = drop_bit 8 (word_of_nat n :: byte)"

definition jump_lo :: "nat \<Rightarrow> byte" where
  "jump_lo n = word_of_nat n"

definition block_emitter :: "compiler \<Rightarrow> emitter" where
  "block_emitter c =
     (case sc_emitter (c_scope c) of Buffered em \<Rightarrow> em | Unbuffered \<Rightarrow> compiler_emitter_buffered_new 0)"

text \<open>The second half of \<open>compile_if_statement\<close>, once both branches are in their buffers.\<close>

definition emit_selection :: "nat \<Rightarrow> emitter \<Rightarrow> emitter \<Rightarrow> compiler \<Rightarrow> (int \<times> compiler) result" where
  "emit_selection fuel true_emitter false_emitter c =
     sbind (if 65535 < em_size false_emitter then Inr true_emitter
            else emitter_emit_buffered true_emitter (OPCODE_JMP # be16_bytes (em_size false_emitter)))
       (\<lambda>true_emitter.
          let true_size = em_size true_emitter
          in if 65535 < true_size then Inr (0, c)
             else sbind (compiler_emitter_sink true_emitter) (\<lambda>true_data.
                    sbind (compiler_emitter_sink false_emitter) (\<lambda>false_data.
                      cseq (compiler_emit_n fuel
                              ([OPCODE_JEZ, jump_hi true_size, jump_lo true_size] @ true_data @ false_data) c)
                        (\<lambda>c. Inr (0, c)))))"

text \<open>The second half of \<open>compile_while_statement\<close>.\<close>

definition emit_loop :: "nat \<Rightarrow> emitter \<Rightarrow> emitter \<Rightarrow> compiler \<Rightarrow> (int \<times> compiler) result" where
  "emit_loop fuel expr_emitter body_emitter c =
     (let expr_size = em_size expr_emitter; body_size = em_size body_emitter;
          sum_size = expr_size + body_size + 3 + 3
      in if 65535 < body_size then compiler_panic ''while: long jump not implemented''
         else sbind (compiler_emitter_sink expr_emitter) (\<lambda>expr_data.
                sbind (compiler_emitter_sink body_emitter) (\<lambda>body_data.
                  cseq (compiler_emit_n fuel
                          (expr_data @ [OPCODE_JEZ, jump_hi (body_size + 3), jump_lo (body_size + 3)] @
                           body_data @ [OPCODE_RJMP, jump_hi sum_size, jump_lo sum_size]) c)
                    (\<lambda>c. Inr (0, c)))))"

definition set_emitter :: "emitter_kind \<Rightarrow> compiler \<Rightarrow> compiler" where
  "set_emitter em c = c\<lparr>c_scope := (c_scope c)\<lparr>sc_emitter := em\<rparr>\<rparr>"

definition truncate_vars :: "nat \<Rightarrow> compiler \<Rightarrow> compiler" where
  "truncate_vars n c = c\<lparr>c_scope := (c_scope c)\<lparr>sc_vars := take n (sc_vars (c_scope c))\<rparr>\<rparr>"

definition enter_block :: "64 word \<Rightarrow> compiler \<Rightarrow> compiler" where
  "enter_block stk c = enter_scope (block_scope (c_scope c) stk 512) c"

fun compile_statement :: "nat \<Rightarrow> stat \<Rightarrow> compiler \<Rightarrow> (int \<times> compiler) result"
  and compile_scope :: "nat \<Rightarrow> stat list \<Rightarrow> compiler \<Rightarrow> (int \<times> compiler) result" where
  "compile_statement fuel (Stat_Expr e) c = compile_expression fuel e c"
| "compile_statement fuel (Stat_If e true_scope false_scope) c =
     cseq (compile_expression fuel e c) (\<lambda>c.
       cseq (compile_scope fuel true_scope (enter_block (sc_stack_size (c_scope c)) c)) (\<lambda>t.
         cseq (case false_scope of
                 None \<Rightarrow> Inr (0, enter_block (sc_stack_size (c_scope (leave_scope t))) (leave_scope t))
               | Some stats \<Rightarrow>
                   compile_scope fuel stats (enter_block (sc_stack_size (c_scope (leave_scope t))) (leave_scope t)))
           (\<lambda>f. emit_selection fuel (block_emitter t) (block_emitter f) (leave_scope f))))"
| "compile_statement fuel (Stat_While e loop_scope) c =
     cseq (compile_expression fuel e (set_emitter (Buffered (compiler_emitter_buffered_new 256)) c)) (\<lambda>x.
       cseq (compile_scope fuel loop_scope (enter_block 0 (truncate_vars (length (sc_vars (c_scope c))) x))) (\<lambda>b.
         emit_loop fuel (block_emitter (leave_scope b)) (block_emitter b)
           (set_emitter (sc_emitter (c_scope c)) (leave_scope b))))"
| "compile_statement fuel (Stat_Ret e) c = compiler_panic ''uncompilable type of statement''"
| "compile_statement fuel Stat_Other c = compiler_panic ''uncompilable type of statement''"
| "compile_scope fuel [] c = Inr (0, c)"
| "compile_scope fuel (stat # stats) c = cseq (compile_statement fuel stat c) (compile_scope fuel stats)"

subsection \<open>Functions\<close>

fun signature_of_args :: "(string \<times> string) list \<Rightarrow> string result" where
  "signature_of_args [] = Inr []"
| "signature_of_args ((name, type_name) # args) =
     sbind (type_signature_by_name type_name) (\<lambda>s. sbind (signature_of_args args) (\<lambda>r. Inr (s @ r)))"

text \<open>
  \<open>compiler_define_func\<close>. The argument list and the return type are used without a check for
  NULL. The signature is built in a buffer of 1536 bytes. \<open>args_size\<close> is summed up from an
  uninitialised field that nothing reads; it is left out.
\<close>

definition compiler_define_func :: "decl_func \<Rightarrow> compiler \<Rightarrow> (func_desc \<times> compiler) result" where
  "compiler_define_func func_node c =
     (if fst (hashmap_get (\<lambda>s. s) (c_func_map c) (df_name func_node)) \<noteq> -3
      then compiler_panic ''function is already defined''
      else case df_args func_node of
        None \<Rightarrow> Inl Null_Deref
      | Some args \<Rightarrow>
          sbind (signature_of_args args) (\<lambda>arg_sig.
            case df_ret_type func_node of
              None \<Rightarrow> Inl Null_Deref
            | Some ret_type \<Rightarrow>
                sbind (type_signature_by_name ret_type) (\<lambda>ret_sig.
                  let signature = df_name func_node @ ''('' @ arg_sig @ '')'' @ ret_sig;
                      func = \<lparr>fd_name = df_name func_node, fd_args = args, fd_ret_type = ret_type,
                              fd_signature = signature\<rparr>
                  in if 1536 < length signature + 1 then Inl Buffer_Overflow
                     else case hashmap_put 33 map_limit (\<lambda>s. s) (c_func_map c) (df_name func_node) func of
                            None \<Rightarrow> Inl Table_Full
                          | Some (ret, m) \<Rightarrow>
                              if ret \<noteq> 0 then compiler_panic ''function definition failed''
                              else Inr (func, c\<lparr>c_func_map := m\<rparr>))))"

fun define_args :: "(string \<times> string) list \<Rightarrow> compiler \<Rightarrow> compiler result" where
  "define_args [] c = Inr c"
| "define_args ((name, type_name) # args) c =
     sbind (static_type_by_name type_name) (\<lambda>t.
       sbind (frame_define_var t name c) (\<lambda>(var, c). define_args args c))"

definition function_scope :: scope_handler where
  "function_scope =
     frame_init_scope\<lparr>sc_vars_cap := 128, sc_is_function_scope := True,
       sc_emitter := Buffered (compiler_emitter_buffered_new 256)\<rparr>"

text \<open>
  \<open>compile_func\<close>: the body is compiled in a scope without parents that owns its two maxima; the
  signature reaches the constant pools only afterwards.
\<close>

definition compile_func :: "nat \<Rightarrow> decl_func \<Rightarrow> compiler \<Rightarrow> (int \<times> compiler) result" where
  "compile_func fuel node c =
     sbind (compiler_define_func node c) (\<lambda>(func_desc, c).
       sbind (define_args (fd_args func_desc)
                (c\<lparr>c_scope := function_scope, c_parents := [], c_stack_max := 0, c_vars_max := 0\<rparr>)) (\<lambda>f.
         cseq (compile_scope fuel (df_body node) f) (\<lambda>f.
           sbind (scope_sink f) (\<lambda>body.
             let exec_data = be16_bytes (c_vars_max f) @ be16_bytes (unat (c_stack_max f)) @ body;
                 c' = f\<lparr>c_scope := c_scope c, c_parents := c_parents c,
                        c_stack_max := c_stack_max c, c_vars_max := c_vars_max c\<rparr>
             in sbind (const_pool_register_value (fd_signature func_desc) c') (\<lambda>(signature_index, c').
                  if c_parents c' = [] \<and> \<not> sc_is_function_scope (c_scope c') then
                    sbind (vm_register_constant (fd_signature func_desc) (c_vm c')) (\<lambda>(index, vm).
                      sbind (vm_register_function index exec_data vm) (\<lambda>(handle, vm).
                        Inr (0, c'\<lparr>c_vm := vm\<rparr>)))
                  else compiler_panic ''unable to compile global func node: non root scope'')))))"

subsection \<open>Entry point\<close>

datatype global_node = Global_Stat stat | Global_Func decl_func | Global_Other

abbreviation (input) COMPILE_UNEXPECTED_NODE :: int where "COMPILE_UNEXPECTED_NODE \<equiv> 0x80"

definition compiler_compile :: "nat \<Rightarrow> global_node \<Rightarrow> compiler \<Rightarrow> (int \<times> compiler) result" where
  "compiler_compile fuel node c =
     (case node of
        Global_Stat stat \<Rightarrow> compile_statement fuel stat c
      | Global_Func func \<Rightarrow> compile_func fuel func c
      | Global_Other \<Rightarrow> Inr (COMPILE_UNEXPECTED_NODE, c))"

end
