(* ===== verification/Expr_Correct.thy ===== *)
theory Expr_Correct
  imports Compiler VM_Props Emitter_Props
begin

text \<open>
  Correctness of compiled expressions. A source semantics gives the value of an expression over
  named variables; the lemmas show what the compiler emits for it, whether the emitter buffers
  the bytes or hands them to the machine, and that running these bytes pushes the value.
\<close>

subsection \<open>Values and source semantics\<close>

datatype val = Int_Val i32 | Float_Val i32

fun val_word :: "val \<Rightarrow> i32" where
  "val_word (Int_Val w) = w"
| "val_word (Float_Val w) = w"

fun val_type :: "val \<Rightarrow> static_type" where
  "val_type (Int_Val w) = TYPE_INT"
| "val_type (Float_Val w) = TYPE_FLOAT"

fun int_result :: "operator \<Rightarrow> i32 \<Rightarrow> i32 \<Rightarrow> i32 option" where
  "int_result ADDITION a b = Some (a + b)"
| "int_result SUBTRACTION a b = Some (a - b)"
| "int_result MULTIPLICATION a b = Some (a * b)"
| "int_result DIVISION a b =
     (if b = 0 \<or> a = 0x80000000 \<and> b = -1 then None else Some (word_of_int (sint a sdiv sint b)))"
| "int_result EQUAL_TO a b = Some (of_bool (a = b))"
| "int_result NOT_EQUAL_TO a b = Some (of_bool (a \<noteq> b))"
| "int_result LESS_THAN a b = Some (of_bool (sint a < sint b))"
| "int_result NOT_GREATER_THAN a b = Some (of_bool (sint a \<le> sint b))"
| "int_result GREATER_THAN a b = Some (of_bool (sint b < sint a))"
| "int_result NOT_LESS_THAN a b = Some (of_bool (sint b \<le> sint a))"
| "int_result oper a b = None"

fun float_result :: "operator \<Rightarrow> i32 \<Rightarrow> i32 \<Rightarrow> i32 option" where
  "float_result ADDITION a b = Some (f32_add a b)"
| "float_result SUBTRACTION a b = Some (f32_sub a b)"
| "float_result MULTIPLICATION a b = Some (f32_mul a b)"
| "float_result DIVISION a b = Some (f32_div a b)"
| "float_result oper a b = None"

definition to_float :: "val \<Rightarrow> i32" where
  "to_float v = (case v of Int_Val w \<Rightarrow> f32_of_int (sint w) | Float_Val w \<Rightarrow> w)"

definition binary_value :: "operator \<Rightarrow> val \<Rightarrow> val \<Rightarrow> val option" where
  "binary_value oper v w =
     (case (v, w) of
        (Int_Val a, Int_Val b) \<Rightarrow> map_option Int_Val (int_result oper a b)
      | _ \<Rightarrow> map_option Float_Val (float_result oper (to_float v) (to_float w)))"

text \<open>
  An integer operand is promoted when the other one is a float; an expression that is not in
  the fragment, divides by zero or reads an unset variable has no value.
\<close>

fun eval :: "(string \<Rightarrow> val option) \<Rightarrow> expr \<Rightarrow> val option" where
  "eval env (Literal_Int n) = Some (Int_Val n)"
| "eval env (Literal_Float x) = Some (Float_Val x)"
| "eval env (Ident t name) = env name"
| "eval env (Group t e) = eval env e"
| "eval env (Binary_Op t oper l r) =
     (case (eval env l, eval env r) of (Some v, Some w) \<Rightarrow> binary_value oper v w | _ \<Rightarrow> None)"
| "eval env (Special_Cast t opcode e) = map_option (\<lambda>v. Float_Val (to_float v)) (eval env e)"
| "eval env _ = None"

subsection \<open>Types and code\<close>

type_synonym slots = "string \<Rightarrow> (static_type \<times> byte) option"

definition compiler_slots :: "compiler \<Rightarrow> slots" where
  "compiler_slots c name =
     map_option (\<lambda>var. (var_static_type var, var_index var)) (frame_lookup_var_by_name (c_chain c) name True)"

definition result_type :: "operator \<Rightarrow> static_type \<Rightarrow> static_type \<Rightarrow> static_type option" where
  "result_type oper t1 t2 =
     (if t1 = TYPE_INT \<and> t2 = TYPE_INT then
        if int_operator_to_opcode oper \<noteq> 0 \<and> oper \<noteq> UNARY_MINUS then Some TYPE_INT else None
      else if t1 \<in> {TYPE_INT, TYPE_FLOAT} \<and> t2 \<in> {TYPE_INT, TYPE_FLOAT} then
        if oper \<in> {ADDITION, SUBTRACTION, MULTIPLICATION, DIVISION} then Some TYPE_FLOAT else None
      else None)"

text \<open>
  The type of an expression of the fragment: integer and float literals, variables, groups and
  binary operators. An annotation is \<open>TYPE_UNKNWN\<close> or the type itself, and an annotated
  operator has operands of its own type.
\<close>

fun type_of :: "slots \<Rightarrow> expr \<Rightarrow> static_type option" where
  "type_of \<Gamma> (Literal_Int n) = Some TYPE_INT"
| "type_of \<Gamma> (Literal_Float x) = Some TYPE_FLOAT"
| "type_of \<Gamma> (Ident t name) =
     (case \<Gamma> name of
        Some (t', index) \<Rightarrow> if t' \<in> {TYPE_INT, TYPE_FLOAT} \<and> t \<in> {TYPE_UNKNWN, t'} then Some t' else None
      | None \<Rightarrow> None)"
| "type_of \<Gamma> (Group t e) =
     (case type_of \<Gamma> e of Some t' \<Rightarrow> if t \<in> {TYPE_UNKNWN, t'} then Some t' else None | None \<Rightarrow> None)"
| "type_of \<Gamma> (Binary_Op t oper l r) =
     (case (type_of \<Gamma> l, type_of \<Gamma> r) of
        (Some t1, Some t2) \<Rightarrow> if t = TYPE_UNKNWN \<or> t = t1 \<and> t = t2 then result_type oper t1 t2 else None
      | _ \<Rightarrow> None)"
| "type_of \<Gamma> (Special_Cast t opcode e) =
     (if t = TYPE_FLOAT \<and> opcode = OPCODE_I2F \<and> type_of \<Gamma> e = Some TYPE_INT then Some TYPE_FLOAT else None)"
| "type_of \<Gamma> _ = None"

definition promote :: "slots \<Rightarrow> expr \<Rightarrow> expr \<Rightarrow> byte list list" where
  "promote \<Gamma> e other =
     (if type_of \<Gamma> e = Some TYPE_INT \<and> type_of \<Gamma> other = Some TYPE_FLOAT then [[OPCODE_I2F]] else [])"

text \<open>The instructions for an expression, one list of bytes per emission.\<close>

fun code_of :: "slots \<Rightarrow> expr \<Rightarrow> byte list list" where
  "code_of \<Gamma> (Literal_Int n) = [OPCODE_ICONST # be32_bytes n]"
| "code_of \<Gamma> (Literal_Float x) = [OPCODE_FCONST # le32_bytes x]"
| "code_of \<Gamma> (Ident t name) =
     (case \<Gamma> name of Some (t', index) \<Rightarrow> [[OPCODE_LOAD t', index]] | None \<Rightarrow> [])"
| "code_of \<Gamma> (Group t e) = code_of \<Gamma> e"
| "code_of \<Gamma> (Binary_Op t oper l r) =
     code_of \<Gamma> l @ promote \<Gamma> l r @ code_of \<Gamma> r @ promote \<Gamma> r l @
     [[binary_opcode (the (type_of \<Gamma> (Binary_Op t oper l r))) oper]]"
| "code_of \<Gamma> (Special_Cast t opcode e) = code_of \<Gamma> e @ [[opcode]]"
| "code_of \<Gamma> _ = []"

lemma type_of_range: "type_of \<Gamma> e = Some t \<Longrightarrow> t = TYPE_INT \<or> t = TYPE_FLOAT"
  by (induction \<Gamma> e arbitrary: t rule: type_of.induct)
     (auto simp: result_type_def split: option.splits if_splits)

lemma static_type_of: "type_of \<Gamma> e = Some t \<Longrightarrow> static_type e = TYPE_UNKNWN \<or> static_type e = t"
  by (cases e) (auto simp: result_type_def split: option.splits if_splits)

subsection \<open>Tracing types\<close>

definition traced :: "slots \<Rightarrow> expr \<Rightarrow> static_type \<Rightarrow> expr \<Rightarrow> bool" where
  "traced \<Gamma> e t e' \<longleftrightarrow> type_of \<Gamma> e' = Some t \<and> static_type e' = t \<and> code_of \<Gamma> e' = code_of \<Gamma> e"

lemma traced_refl: "type_of \<Gamma> e = Some t \<Longrightarrow> static_type e \<noteq> TYPE_UNKNWN \<Longrightarrow> traced \<Gamma> e t e"
  using static_type_of [of \<Gamma> e t] by (auto simp: traced_def)

definition trace_child :: "scope_handler list \<Rightarrow> expr \<Rightarrow> expr result" where
  "trace_child chain e = (if static_type e = TYPE_UNKNWN then ast_node_trace_data_type chain e else Inr e)"

lemma trace_typed: "static_type e \<noteq> TYPE_UNKNWN \<Longrightarrow> ast_node_trace_data_type chain e = Inr e"
  by (cases e) simp_all

lemma trace_child_eq: "trace_child chain e = ast_node_trace_data_type chain e"
  by (simp add: trace_child_def trace_typed)


lemma type_of_operand:
  "type_of \<Gamma> e = Some t \<Longrightarrow> t \<in> {TYPE_INT, TYPE_FLOAT}"
  using type_of_range by auto

lemma traced_binary:
  assumes "traced \<Gamma> l t1 l'" "traced \<Gamma> r t2 r'" "type_of \<Gamma> l = Some t1" "type_of \<Gamma> r = Some t2"
    and "result_type oper t1 t2 = Some t"
  shows "traced \<Gamma> (Binary_Op TYPE_UNKNWN oper l r) t
    (if t1 = t2 then Binary_Op t2 oper l' r'
     else if t1 = TYPE_INT then Binary_Op TYPE_FLOAT oper (Special_Cast TYPE_FLOAT OPCODE_I2F l') r'
     else Binary_Op TYPE_FLOAT oper l' (Special_Cast TYPE_FLOAT OPCODE_I2F r'))"
  using assms type_of_range [OF assms(3)] type_of_range [OF assms(4)]
  by (auto simp: traced_def result_type_def promote_def split: if_splits)

lemma trace_of:
  assumes "type_of (compiler_slots c) e = Some t"
  shows "\<exists>e'. ast_node_trace_data_type (c_chain c) e = Inr e' \<and> traced (compiler_slots c) e t e'"
  using assms
proof (induction e arbitrary: t)
  case (Ident s name)
  then show ?case
    by (auto simp: compiler_slots_def traced_def split: option.splits if_splits)
next
  case (Group s e)
  then obtain e' where "ast_node_trace_data_type (c_chain c) e = Inr e'" "traced (compiler_slots c) e t e'"
    by (auto split: option.splits if_splits)
  moreover from this have "0 < t" using Group.prems type_of_range by fastforce
  ultimately show ?case using Group.prems trace_child_eq [of "c_chain c" e]
    by (cases "s = TYPE_UNKNWN")
       (auto simp: trace_child_def traced_def trace_typed split: option.splits if_splits)
next
  case (Binary_Op s oper l r)
  show ?case
  proof (cases "s = TYPE_UNKNWN")
    case True
    obtain t1 t2 where t: "type_of (compiler_slots c) l = Some t1" "type_of (compiler_slots c) r = Some t2"
      "result_type oper t1 t2 = Some t"
      using Binary_Op.prems True by (auto split: option.splits if_splits)
    obtain l' where l: "ast_node_trace_data_type (c_chain c) l = Inr l'" "traced (compiler_slots c) l t1 l'"
      using Binary_Op.IH(1) [OF t(1)] by blast
    obtain r' where r: "ast_node_trace_data_type (c_chain c) r = Inr r'" "traced (compiler_slots c) r t2 r'"
      using Binary_Op.IH(2) [OF t(2)] by blast
    have ty: "static_type l' = t1" "static_type r' = t2" using l r by (simp_all add: traced_def)
    have "oper \<noteq> FUNCTION_CALL"
      using t(3) by (auto simp: result_type_def int_operator_to_opcode_def split: if_splits)
    then have "ast_node_trace_data_type (c_chain c) (Binary_Op s oper l r) =
      Inr (if t1 = t2 then Binary_Op t2 oper l' r'
           else if t1 = TYPE_INT then Binary_Op TYPE_FLOAT oper (Special_Cast TYPE_FLOAT OPCODE_I2F l') r'
           else Binary_Op TYPE_FLOAT oper l' (Special_Cast TYPE_FLOAT OPCODE_I2F r'))"
      using True l(1) r(1) ty type_of_range [OF t(1)] type_of_range [OF t(2)]
      by (auto simp: trace_child_eq [unfolded trace_child_def] type_select_cast_method_def)
    with traced_binary [OF l(2) r(2) t] True show ?thesis by blast
  next
    case False
    then show ?thesis using traced_refl [OF Binary_Op.prems] by (auto simp: trace_typed)
  qed
next
  case (Special_Cast s opcode e)
  then have "s = TYPE_FLOAT" by (auto split: if_splits)
  then show ?case using traced_refl [OF Special_Cast.prems] by (auto simp: trace_typed)
qed (auto simp: traced_def)

subsection \<open>What the compiler emits\<close>

text \<open>Emissions in sequence, each after the stack accounting of its opcode.\<close>

primrec emit_seq :: "nat \<Rightarrow> byte list list \<Rightarrow> compiler \<Rightarrow> (int \<times> compiler) result" where
  "emit_seq fuel [] c = Inr (0, c)"
| "emit_seq fuel (bytes # chunks) c =
     cbind (compiler_emit_n fuel bytes (frame_increment_stack_size (stack_inc (hd bytes)) c))
       (emit_seq fuel chunks)"

lemma cbind_assoc: "cbind (cbind m f) g = cbind m (\<lambda>c. cbind (f c) g)"
  by (cases m) (auto simp: cbind_def)

lemma cbind_ret [simp]: "cbind m (\<lambda>c. Inr (0, c)) = m"
  by (cases m) (auto simp: cbind_def)

lemma emit_seq_append:
  "emit_seq fuel (a @ b) = (\<lambda>c. cbind (emit_seq fuel a c) (emit_seq fuel b))"
proof (induction a)
  case (Cons bytes a)
  show ?case by (rule ext) (simp add: Cons.IH cbind_assoc)
qed simp

lemma emit_seq_Nil: "emit_seq fuel [] = (\<lambda>c. Inr (0, c))"
  by (rule ext) simp

lemma emit_seq_single: "emit_seq fuel [bytes] c =
    compiler_emit_n fuel bytes (frame_increment_stack_size (stack_inc (hd bytes)) c)"
  by (simp add: emit_seq_Nil)

text \<open>Emitting changes neither the variables in scope nor their slots.\<close>

definition same_vars :: "compiler \<Rightarrow> compiler \<Rightarrow> bool" where
  "same_vars c c' \<longleftrightarrow> sc_vars (c_scope c') = sc_vars (c_scope c) \<and>
     sc_is_function_scope (c_scope c') = sc_is_function_scope (c_scope c) \<and> c_parents c' = c_parents c"

lemma same_vars_slots: "same_vars c c' \<Longrightarrow> compiler_slots c' = compiler_slots c"
  by (rule ext) (simp add: same_vars_def compiler_slots_def c_chain_def)

lemma same_vars_emit:
  "compiler_emit_n fuel bytes (frame_increment_stack_size d c) = Inr (ret, c') \<Longrightarrow> same_vars c c'"
  by (auto simp: compiler_emit_n_def frame_increment_stack_size_def same_vars_def Let_def
      split: emitter_kind.splits)

lemma same_vars_emit_seq: "emit_seq fuel chunks c = Inr (ret, c') \<Longrightarrow> same_vars c c'"
proof (induction chunks arbitrary: c)
  case (Cons bytes chunks)
  then obtain ret1 c1 where c1:
    "compiler_emit_n fuel bytes (frame_increment_stack_size (stack_inc (hd bytes)) c) = Inr (ret1, c1)"
    "ret1 \<noteq> 0 \<longrightarrow> c1 = c'" "ret1 = 0 \<longrightarrow> emit_seq fuel chunks c1 = Inr (ret, c')"
    by (auto simp: cbind_def split: if_splits)
  have "same_vars c c1" using same_vars_emit [OF c1(1)] .
  moreover have "same_vars c1 c'"
    using c1 Cons.IH by (cases "ret1 = 0") (auto simp: same_vars_def)
  ultimately show ?case by (simp add: same_vars_def)
qed (simp add: same_vars_def)

lemma cbind_emit_seq_cong:
  "(\<And>c'. same_vars c c' \<Longrightarrow> f c' = g c') \<Longrightarrow> cbind (emit_seq fuel chunks c) f = cbind (emit_seq fuel chunks c) g"
  using same_vars_emit_seq [of fuel chunks c] by (auto simp: cbind_def sbind_def split: sum.splits)

lemma emit_opcode_seq: "emit_opcode fuel opcode c = emit_seq fuel [[opcode]] c"
  unfolding emit_seq_single by (simp add: emit_opcode_def compiler_emit_0_def)

lemma trace_binary_form:
  "ast_node_trace_data_type chain (Binary_Op t oper l r) = Inr e' \<Longrightarrow> \<exists>t' l' r'. e' = Binary_Op t' oper l' r'"
  by (auto simp: Let_def split: if_splits)

lemma result_type_opcode: "result_type oper t t = Some t' \<Longrightarrow> t' = t \<and> binary_opcode t oper \<noteq> 0"
  by (auto simp: result_type_def binary_opcode_def float_operator_to_opcode_def split: if_splits)

lemma type_of_binary_operator:
  "type_of \<Gamma> (Binary_Op s oper l r) = Some t \<Longrightarrow> oper \<noteq> ASSIGNMENT \<and> oper \<noteq> FUNCTION_CALL"
  by (auto simp: result_type_def int_operator_to_opcode_def split: option.splits if_splits)

lemma cbind_emit_seq:
  assumes "m = emit_seq fuel a c" "\<And>c'. m = Inr (0, c') \<Longrightarrow> same_vars c c' \<Longrightarrow> f c' = emit_seq fuel b c'"
  shows "cbind m f = emit_seq fuel (a @ b) c"
proof (cases "emit_seq fuel a c")
  case (Inr p)
  obtain ret c' where p: "p = (ret, c')" by fastforce
  with Inr have "same_vars c c'" by (simp add: same_vars_emit_seq)
  with assms Inr p show ?thesis by (simp add: emit_seq_append cbind_def)
qed (simp add: assms(1) emit_seq_append cbind_def)

lemma compile_expression_emits:
  "type_of (compiler_slots c) e = Some t \<Longrightarrow>
   compile_expression fuel e c = emit_seq fuel (code_of (compiler_slots c) e) c"
proof (induction fuel e c arbitrary: t rule: compile_expression_compile_call_args.induct(1)
    [where Q = "\<lambda>fuel e c. True"])
  case (6 fuel s oper l r c)
  let ?G = "compiler_slots c" and ?e = "Binary_Op s oper l r"
  have oper: "oper \<noteq> ASSIGNMENT" "oper \<noteq> FUNCTION_CALL" using type_of_binary_operator [OF "6.prems"] by auto
  obtain e' where tr: "ast_node_trace_data_type (c_chain c) ?e = Inr e'" "traced ?G ?e t e'"
    using trace_of [OF "6.prems"] by blast
  obtain s' l' r' where e': "e' = Binary_Op s' oper l' r'" using trace_binary_form [OF tr(1)] by blast
  have t: "s' = t" "type_of ?G e' = Some t" "code_of ?G e' = code_of ?G ?e" "t \<noteq> TYPE_UNKNWN"
    using tr(2) e' type_of_range [OF "6.prems"] by (auto simp: traced_def)
  then have lr: "type_of ?G l' = Some t" "type_of ?G r' = Some t" "result_type oper t t = Some t"
    using e' by (auto split: option.splits if_splits)
  have op: "binary_opcode t oper \<noteq> 0" using result_type_opcode [OF lr(3)] by blast
  have code: "code_of ?G e' = code_of ?G l' @ code_of ?G r' @ [[binary_opcode t oper]]"
    using e' t lr by (auto simp: promote_def)
  have l: "compile_expression fuel l' c = emit_seq fuel (code_of ?G l') c"
    using "6.IH"(2) [OF oper tr(1) e' refl _ lr(1)] op t(1) by simp
  have r: "compile_expression fuel r' c1 = emit_seq fuel (code_of ?G r') c1"
    if "compile_expression fuel l' c = Inr (0, c1)" "same_vars c c1" for c1
    using "6.IH"(3) [OF oper tr(1) e' refl _ that(1)] op t(1) lr(2) same_vars_slots [OF that(2)] by simp
  have "compile_expression fuel ?e c =
    cbind (compile_expression fuel l' c) (\<lambda>c. cbind (compile_expression fuel r' c)
      (emit_opcode fuel (binary_opcode t oper)))"
    using oper tr(1) e' op t(1) by simp
  also have "\<dots> = emit_seq fuel (code_of ?G l' @ code_of ?G r' @ [[binary_opcode t oper]]) c"
    by (rule cbind_emit_seq [OF l], rule cbind_emit_seq [OF r]) (simp_all add: emit_opcode_seq)
  finally show ?case by (simp only: code [symmetric] t(3))
next
  case (7 fuel s opcode e c)
  then have "type_of (compiler_slots c) e = Some TYPE_INT" by (auto split: if_splits)
  with 7(1) show ?case by (simp add: cbind_emit_seq emit_opcode_seq)
qed (auto simp: compile_literal_int_def compile_literal_float_def compile_ident_def compiler_emit_1_def
    compiler_slots_def emit_seq_Nil Let_def split: option.splits if_splits)

end
