(* ===== verification/Expr_Exec.thy ===== *)
theory Expr_Exec
  imports Expr_Correct
begin

text \<open>Running the code of an expression: it pushes the value the source semantics gives.\<close>

subsection \<open>Frames\<close>

definition set_frame :: "vm_state \<Rightarrow> i32 list \<Rightarrow> i32 option list \<Rightarrow> int \<Rightarrow> vm_state" where
  "set_frame st stk lcs n =
     st\<lparr>current_frame := (current_frame st)\<lparr>frame_pc := frame_pc (current_frame st) + n,
       stack := stk, locals := lcs\<rparr>\<rparr>"

lemma set_frame_sel [simp]:
  "stack (current_frame (set_frame st stk lcs n)) = stk"
  "locals (current_frame (set_frame st stk lcs n)) = lcs"
  "stack_cap (current_frame (set_frame st stk lcs n)) = stack_cap (current_frame st)"
  "callers (set_frame st stk lcs n) = callers st"
  by (simp_all add: set_frame_def)

lemma set_frame_twice [simp]:
  "set_frame (set_frame st s l m) s' l' n = set_frame st s' l' (m + n)"
  by (simp add: set_frame_def add.assoc)

lemma set_frame_id: "set_frame st (stack (current_frame st)) (locals (current_frame st)) 0 = st"
  by (simp add: set_frame_def)

lemma exec_instr:
  assumes "opcode \<noteq> OPCODE_CALL"
    and "opcode_execute_funcs opcode (current_frame st) operands =
      Inr (int (length operands) + 1, (current_frame st)\<lparr>stack := stk, locals := lcs\<rparr>)"
  shows "exec_block (opcode # operands) st (set_frame st stk lcs (int (length operands) + 1))"
proof -
  let ?st = "st\<lparr>current_frame := (current_frame st)\<lparr>stack := stk, locals := lcs\<rparr>\<rparr>"
  have "vm_dispatch (vm_execute_opcodes 0) opcode operands st = Inr (int (length operands) + 1, ?st)"
    using assms by (simp add: vm_dispatch_def)
  then have "vm_step (opcode # operands) (0, st)
      (0 + (int (length operands) + 1), advance_frame (int (length operands) + 1) ?st)"
    by (intro vm_step) simp_all
  moreover have "advance_frame (int (length operands) + 1) ?st = set_frame st stk lcs (int (length operands) + 1)"
    by (simp add: advance_frame_def set_frame_def)
  ultimately show ?thesis by (simp add: exec_block_def r_into_rtranclp add.commute)
qed

text \<open>Emissions that run one after the other, each from its first byte to its last.\<close>

fun exec_chunks :: "byte list list \<Rightarrow> vm_state \<Rightarrow> vm_state \<Rightarrow> bool" where
  "exec_chunks [] st st' \<longleftrightarrow> st' = st"
| "exec_chunks (bytes # chunks) st st' \<longleftrightarrow> (\<exists>st1. exec_block bytes st st1 \<and> exec_chunks chunks st1 st')"

lemma exec_chunks_append:
  "exec_chunks a st st1 \<Longrightarrow> exec_chunks b st1 st2 \<Longrightarrow> exec_chunks (a @ b) st st2"
  by (induction a arbitrary: st) auto

lemma exec_chunks_single [simp]: "exec_chunks [bytes] st st' \<longleftrightarrow> exec_block bytes st st'"
  by auto

lemma exec_chunks_block: "exec_chunks chunks st st' \<Longrightarrow> exec_block (concat chunks) st st'"
  by (induction chunks arbitrary: st) (auto intro: exec_block_append)

text \<open>\<open>pushes code st v\<close>: the block \<open>code\<close> runs through and leaves one more word on the stack.\<close>

definition pushes :: "byte list \<Rightarrow> vm_state \<Rightarrow> i32 \<Rightarrow> bool" where
  "pushes code st v \<longleftrightarrow> exec_block code st
     (set_frame st (v # stack (current_frame st)) (locals (current_frame st)) (int (length code)))"

lemma pushes_append_replace:
  assumes "pushes code st v"
    and "exec_block post (set_frame st (v # stk) lcs (int (length code)))
      (set_frame st (w # stk) lcs (int (length code) + int (length post)))"
    and "stk = stack (current_frame st)" "lcs = locals (current_frame st)"
  shows "pushes (code @ post) st w"
  using assms exec_block_append unfolding pushes_def by fastforce

lemma vm_frame_update_same: "(frame :: vm_frame)\<lparr>stack := s, locals := locals frame\<rparr> = frame\<lparr>stack := s\<rparr>"
  by simp

lemma not_call:
  "OPCODE_ICONST \<noteq> OPCODE_CALL" "OPCODE_FCONST \<noteq> OPCODE_CALL" "OPCODE_I2F \<noteq> OPCODE_CALL"
  "t = TYPE_INT \<or> t = TYPE_FLOAT \<Longrightarrow> OPCODE_LOAD t \<noteq> OPCODE_CALL"
  "t = TYPE_INT \<or> t = TYPE_FLOAT \<Longrightarrow> OPCODE_SAVE t \<noteq> OPCODE_CALL"
  "OPCODE_JEZ \<noteq> OPCODE_CALL" "OPCODE_JMP \<noteq> OPCODE_CALL" "OPCODE_RJMP \<noteq> OPCODE_CALL"
  by (auto simp: OPCODE_LOAD_def OPCODE_SAVE_def)

lemma binary_not_call: "binary_opcode t oper \<noteq> OPCODE_CALL"
  by (cases oper) (simp_all add: binary_opcode_def int_operator_to_opcode_def float_operator_to_opcode_def)

lemma pushes_const:
  assumes "4 * (length (stack (current_frame st)) + 1) \<le> stack_cap (current_frame st)"
  shows "pushes (OPCODE_ICONST # be32_bytes n) st n" "pushes (OPCODE_FCONST # le32_bytes n) st n"
proof -
  let ?f = "current_frame st"
  have "opcode_execute_funcs OPCODE_ICONST ?f (be32_bytes n) =
      Inr (int (length (be32_bytes n)) + 1, ?f\<lparr>stack := n # stack ?f, locals := locals ?f\<rparr>)"
    using assms by (simp add: vm_execute_opcode_iconst_def push_word_def be32_bytes_def be32_val_bytes)
  from exec_instr [OF not_call(1) this] show "pushes (OPCODE_ICONST # be32_bytes n) st n"
    by (simp add: pushes_def add.commute)
  have "opcode_execute_funcs OPCODE_FCONST ?f (le32_bytes n) =
      Inr (int (length (le32_bytes n)) + 1, ?f\<lparr>stack := n # stack ?f, locals := locals ?f\<rparr>)"
    using assms by (simp add: vm_execute_opcode_fconst_def push_word_def le32_bytes_def be32_bytes_def be32_val_bytes)
  from exec_instr [OF not_call(2) this] show "pushes (OPCODE_FCONST # le32_bytes n) st n"
    by (simp add: pushes_def add.commute)
qed



lemma pushes_load:
  assumes "4 * (length (stack (current_frame st)) + 1) \<le> stack_cap (current_frame st)"
    and "t = TYPE_INT \<or> t = TYPE_FLOAT" "unat index < length (locals (current_frame st))"
    and "locals (current_frame st) ! unat index = Some v"
  shows "pushes [OPCODE_LOAD t, index] st v"
proof -
  let ?f = "current_frame st"
  have "opcode_execute_funcs (OPCODE_LOAD t) ?f [index] =
      Inr (int (length [index]) + 1, ?f\<lparr>stack := v # stack ?f, locals := locals ?f\<rparr>)"
    using assms by (auto simp: OPCODE_LOAD_def handler_defs local_load_def push_word_def)
  from exec_instr [OF not_call(4) [OF assms(2)] this] show ?thesis by (simp add: pushes_def add.commute)
qed

lemma exec_i2f:
  "exec_block [OPCODE_I2F] (set_frame st (v # stk) lcs n)
     (set_frame st (f32_of_int (sint v) # stk) lcs (n + 1))"
proof -
  let ?st = "set_frame st (v # stk) lcs n"
  have "opcode_execute_funcs OPCODE_I2F (current_frame ?st) [] =
      Inr (int (length ([] :: byte list)) + 1,
        (current_frame ?st)\<lparr>stack := f32_of_int (sint v) # stk, locals := lcs\<rparr>)"
    by (simp add: vm_execute_opcode_i2f_def pop_word_def set_frame_def)
  from exec_instr [OF not_call(3) this] show ?thesis by simp
qed

subsection \<open>Operators\<close>

definition promoted :: "static_type \<Rightarrow> val \<Rightarrow> i32" where
  "promoted t v = (if t = TYPE_FLOAT then to_float v else val_word v)"

lemma binary_handler:
  assumes "result_type oper (val_type v) (val_type w) = Some t" "binary_value oper v w = Some r"
    and "stack frame = promoted t w # promoted t v # stk"
  shows "opcode_execute_funcs (binary_opcode t oper) frame data = Inr (1, frame\<lparr>stack := val_word r # stk\<rparr>)"
  using assms
  by (cases v; cases w; cases oper)
     (auto simp: result_type_def binary_opcode_def int_operator_to_opcode_def float_operator_to_opcode_def
       binary_value_def promoted_def to_float_def handler_defs binary_words_def int_div_def
       split: if_splits)

lemma binary_value_type:
  assumes "result_type oper (val_type v) (val_type w) = Some t" "binary_value oper v w = Some r"
  shows "val_type r = t"
  using assms by (cases v; cases w) (auto simp: result_type_def binary_value_def split: if_splits)

lemma exec_binary:
  assumes "result_type oper (val_type v) (val_type w) = Some t" "binary_value oper v w = Some r"
  shows "exec_block [binary_opcode t oper] (set_frame st (promoted t w # promoted t v # stk) lcs n)
     (set_frame st (val_word r # stk) lcs (n + 1))"
proof -
  let ?st = "set_frame st (promoted t w # promoted t v # stk) lcs n"
  have "opcode_execute_funcs (binary_opcode t oper) (current_frame ?st) [] =
      Inr (int (length ([] :: byte list)) + 1, (current_frame ?st)\<lparr>stack := val_word r # stk, locals := lcs\<rparr>)"
    using binary_handler [OF assms, of "current_frame ?st" stk "[]"] by (simp add: set_frame_def)
  from exec_instr [OF binary_not_call this] show ?thesis by simp
qed


subsection \<open>Expressions\<close>

text \<open>The value of a variable: the word in its slot, read at its static type.\<close>

definition machine_env :: "slots \<Rightarrow> i32 option list \<Rightarrow> string \<Rightarrow> val option" where
  "machine_env \<Gamma> lcs name =
     (case \<Gamma> name of
        Some (t, slot) \<Rightarrow>
          if unat slot < length lcs
          then map_option (if t = TYPE_FLOAT then Float_Val else Int_Val) (lcs ! unat slot) else None
      | None \<Rightarrow> None)"

text \<open>The words an expression needs on the operand stack.\<close>

fun expr_depth :: "expr \<Rightarrow> nat" where
  "expr_depth (Group t e) = expr_depth e"
| "expr_depth (Binary_Op t oper l r) = max (expr_depth l) (Suc (expr_depth r))"
| "expr_depth (Special_Cast t opcode e) = expr_depth e"
| "expr_depth e = 1"

lemma expr_depth_pos: "0 < expr_depth e"
  by (induction e) auto

lemma machine_env_type:
  "type_of \<Gamma> (Ident s name) = Some t \<Longrightarrow> machine_env \<Gamma> lcs name = Some v \<Longrightarrow> val_type v = t"
  by (auto simp: machine_env_def split: option.splits if_splits)

lemma type_of_binary:
  assumes "type_of \<Gamma> (Binary_Op s oper l r) = Some t"
  obtains t1 t2 where "type_of \<Gamma> l = Some t1" "type_of \<Gamma> r = Some t2" "result_type oper t1 t2 = Some t"
  using assms by (auto split: option.splits if_splits)

lemma eval_binary:
  assumes "eval env (Binary_Op s oper l r) = Some x"
  obtains v w where "eval env l = Some v" "eval env r = Some w" "binary_value oper v w = Some x"
  using assms by (auto split: option.splits)

lemma eval_type:
  "type_of \<Gamma> e = Some t \<Longrightarrow> eval (machine_env \<Gamma> lcs) e = Some v \<Longrightarrow> val_type v = t"
proof (induction e arbitrary: t v)
  case (Ident s name)
  then show ?case using machine_env_type by simp
next
  case (Binary_Op s oper l r)
  obtain t1 t2 where t: "type_of \<Gamma> l = Some t1" "type_of \<Gamma> r = Some t2" "result_type oper t1 t2 = Some t"
    using type_of_binary [OF Binary_Op.prems(1)] .
  obtain a b where v: "eval (machine_env \<Gamma> lcs) l = Some a" "eval (machine_env \<Gamma> lcs) r = Some b"
    "binary_value oper a b = Some v"
    using eval_binary [OF Binary_Op.prems(2)] .
  show ?case
    using binary_value_type [OF _ v(3)] Binary_Op.IH(1) [OF t(1) v(1)] Binary_Op.IH(2) [OF t(2) v(2)] t(3)
    by simp
qed (auto split: option.splits if_splits)

lemma exec_promote:
  assumes "type_of \<Gamma> e = Some (val_type v)" "type_of \<Gamma> other = Some t'"
    and "result_type oper (val_type v) t' = Some t \<or> result_type oper t' (val_type v) = Some t"
  shows "exec_chunks (promote \<Gamma> e other) (set_frame st (val_word v # stk) lcs n)
    (set_frame st (promoted t v # stk) lcs (n + int (length (concat (promote \<Gamma> e other)))))"
  using assms exec_i2f [of st _ stk lcs n]
  by (cases v) (auto simp: promote_def promoted_def to_float_def result_type_def split: if_splits)

lemma exec_expression:
  assumes "type_of \<Gamma> e = Some t" "eval (machine_env \<Gamma> lcs) e = Some v"
    and "4 * (length stk + expr_depth e) \<le> stack_cap (current_frame st)"
  shows "exec_chunks (code_of \<Gamma> e) (set_frame st stk lcs n)
    (set_frame st (val_word v # stk) lcs (n + int (length (concat (code_of \<Gamma> e)))))"
  using assms
proof (induction e arbitrary: t v stk n)
  case (Ident s name)
  let ?st = "set_frame st stk lcs n"
  obtain t' slot where g: "\<Gamma> name = Some (t', slot)" "t' = TYPE_INT \<or> t' = TYPE_FLOAT"
    using Ident.prems(1) by (auto split: option.splits if_splits)
  have "unat slot < length lcs" "lcs ! unat slot = Some (val_word v)"
    using Ident.prems(2) g by (auto simp: machine_env_def split: if_splits)
  then have "pushes [OPCODE_LOAD t', slot] ?st (val_word v)"
    using Ident.prems(3) g(2) by (intro pushes_load) simp_all
  then show ?case using g(1) by (simp add: pushes_def)
next
  case (Literal_Int x)
  let ?st = "set_frame st stk lcs n"
  have "pushes (OPCODE_ICONST # be32_bytes x) ?st x" using Literal_Int by (intro pushes_const) simp
  then show ?case using Literal_Int by (auto simp: pushes_def)
next
  case (Literal_Float x)
  let ?st = "set_frame st stk lcs n"
  have "pushes (OPCODE_FCONST # le32_bytes x) ?st x" using Literal_Float by (intro pushes_const) simp
  then show ?case using Literal_Float by (auto simp: pushes_def)
next
  case (Group s e)
  then show ?case by (auto split: option.splits if_splits)
next
  case (Special_Cast s opcode e)
  then obtain w where w: "type_of \<Gamma> e = Some TYPE_INT" "eval (machine_env \<Gamma> lcs) e = Some w"
    "v = Float_Val (to_float w)" "opcode = OPCODE_I2F" by (auto split: if_splits)
  moreover obtain x where "w = Int_Val x" using eval_type [OF w(1,2)] by (cases w) simp_all
  ultimately have v: "val_word v = f32_of_int (sint (val_word w))" by (simp add: to_float_def)
  have "exec_chunks (code_of \<Gamma> e) (set_frame st stk lcs n)
    (set_frame st (val_word w # stk) lcs (n + int (length (concat (code_of \<Gamma> e)))))"
    using Special_Cast.IH [OF w(1,2)] Special_Cast.prems(3) by simp
  moreover have "exec_chunks [[OPCODE_I2F]]
      (set_frame st (val_word w # stk) lcs (n + int (length (concat (code_of \<Gamma> e)))))
      (set_frame st (val_word v # stk) lcs (n + int (length (concat (code_of \<Gamma> e))) + 1))"
    using exec_i2f v by simp
  ultimately have "exec_chunks (code_of \<Gamma> e @ [[OPCODE_I2F]]) (set_frame st stk lcs n)
      (set_frame st (val_word v # stk) lcs (n + int (length (concat (code_of \<Gamma> e))) + 1))"
    by (rule exec_chunks_append)
  then show ?case using w(4) by (simp add: ac_simps)
next
  case (Binary_Op s oper l r)
  let ?env = "machine_env \<Gamma> lcs" and ?len = "\<lambda>bs. int (length (concat bs))"
  obtain t1 t2 where t: "type_of \<Gamma> l = Some t1" "type_of \<Gamma> r = Some t2" "result_type oper t1 t2 = Some t"
    using type_of_binary [OF Binary_Op.prems(1)] .
  obtain a b where v: "eval ?env l = Some a" "eval ?env r = Some b" "binary_value oper a b = Some v"
    using eval_binary [OF Binary_Op.prems(2)] .
  have ty: "val_type a = t1" "val_type b = t2" using eval_type t v by metis+
  have room: "4 * (length stk + expr_depth l) \<le> stack_cap (current_frame st)"
    "4 * (length (promoted t a # stk) + expr_depth r) \<le> stack_cap (current_frame st)"
    using Binary_Op.prems(3) by (auto simp: max_def split: if_splits)
  let ?n1 = "n + ?len (code_of \<Gamma> l)" let ?n2 = "?n1 + ?len (promote \<Gamma> l r)"
  let ?n3 = "?n2 + ?len (code_of \<Gamma> r)" let ?n4 = "?n3 + ?len (promote \<Gamma> r l)"
  have "exec_chunks (code_of \<Gamma> l) (set_frame st stk lcs n) (set_frame st (val_word a # stk) lcs ?n1)"
    by (rule Binary_Op.IH(1) [OF t(1) v(1) room(1)])
  moreover have "exec_chunks (promote \<Gamma> l r) (set_frame st (val_word a # stk) lcs ?n1)
      (set_frame st (promoted t a # stk) lcs ?n2)"
    using exec_promote t ty by metis
  moreover have "exec_chunks (code_of \<Gamma> r) (set_frame st (promoted t a # stk) lcs ?n2)
      (set_frame st (val_word b # promoted t a # stk) lcs ?n3)"
    by (rule Binary_Op.IH(2) [OF t(2) v(2) room(2)])
  moreover have "exec_chunks (promote \<Gamma> r l) (set_frame st (val_word b # promoted t a # stk) lcs ?n3)
      (set_frame st (promoted t b # promoted t a # stk) lcs ?n4)"
    using exec_promote t ty by metis
  moreover have "exec_chunks [[binary_opcode t oper]] (set_frame st (promoted t b # promoted t a # stk) lcs ?n4)
      (set_frame st (val_word v # stk) lcs (?n4 + 1))"
    using exec_binary t(3) v(3) ty unfolding exec_chunks_single by metis
  ultimately have "exec_chunks (code_of \<Gamma> l @ promote \<Gamma> l r @ code_of \<Gamma> r @
      promote \<Gamma> r l @ [[binary_opcode t oper]]) (set_frame st stk lcs n)
      (set_frame st (val_word v # stk) lcs (?n4 + 1))"
    by (intro exec_chunks_append)
  then show ?case using Binary_Op.prems(1) by (simp add: ac_simps del: type_of.simps)
qed auto

end
