(* ===== verification/Expr_Claims.thy ===== *)
theory Expr_Claims
  imports Expr_Exec
begin

text \<open>
  From emissions to claims: the stack accounting of an emitted expression, the two emitters, and
  the correctness of compiled expressions on each.
\<close>

subsection \<open>Stack accounting\<close>

primrec stack_account :: "byte list list \<Rightarrow> 64 word \<times> 64 word \<Rightarrow> 64 word \<times> 64 word" where
  "stack_account [] sm = sm"
| "stack_account (bytes # chunks) sm =
     (let s = fst sm + word_of_int (stack_inc (hd bytes)) in stack_account chunks (s, max (snd sm) s))"

lemma stack_account_append: "stack_account (a @ b) sm = stack_account b (stack_account a sm)"
  by (induction a arbitrary: sm) (simp_all add: Let_def)

lemma stack_inc_binary:
  assumes "result_type oper t1 t2 = Some t"
  shows "stack_inc (binary_opcode t oper) = -4"
  using assms
  by (cases oper)
     (auto simp: result_type_def binary_opcode_def int_operator_to_opcode_def float_operator_to_opcode_def
       stack_inc_simps split: if_splits)

lemma stack_inc_load: "t = TYPE_INT \<or> t = TYPE_FLOAT \<Longrightarrow> stack_inc (OPCODE_LOAD t) = 4"
  by (auto simp: OPCODE_LOAD_def stack_inc_simps)

lemma unat_add_nat: "unat s + k < 2 ^ 64 \<Longrightarrow> unat (s + word_of_nat k :: 64 word) = unat s + k"
  by (subst unat_word_ariths) (simp add: unat_of_nat)

lemma unat_add_4: "unat s + 4 < 2 ^ 64 \<Longrightarrow> unat (s + 4 :: 64 word) = unat s + 4"
  using unat_add_nat [of s 4] by simp

lemma unat_max: "unat (max a b :: 'a::len word) = max (unat a) (unat b)"
  by (simp add: max_def word_le_nat_alt)

lemma account_promote:
  "s \<le> m \<Longrightarrow> stack_account (promote \<Gamma> e other) (s, m) = (s, m)"
  by (simp add: promote_def stack_inc_simps Let_def max_absorb1)

text \<open>
  \<open>accounts chunks d s m r\<close>: from stack size \<open>s\<close> and maximum \<open>m\<close>, the emissions \<open>chunks\<close> end with
  four more bytes on the stack and the maximum raised to cover \<open>d\<close> words.
\<close>

definition accounts :: "byte list list \<Rightarrow> nat \<Rightarrow> 64 word \<Rightarrow> 64 word \<Rightarrow> 64 word \<Rightarrow> bool" where
  "accounts chunks d s m m' \<longleftrightarrow> stack_account chunks (s, m) = (s + 4, m') \<and>
     unat m' = max (unat m) (unat s + 4 * d)"

lemma accounts_push:
  assumes "stack_inc opcode = 4" "unat s + 4 < 2 ^ 64"
  shows "accounts [opcode # operands] 1 s m (max m (s + 4))"
  using assms by (simp add: accounts_def unat_max unat_add_4 Let_def)

lemma account_expression:
  assumes "type_of \<Gamma> e = Some t" "unat s + 4 * expr_depth e < 2 ^ 64"
  shows "\<exists>m'. accounts (code_of \<Gamma> e) (expr_depth e) s m m'"
  using assms
proof (induction e arbitrary: t s m)
  case (Ident u name)
  then show ?case using accounts_push stack_inc_load by (fastforce split: option.splits if_splits)
next
  case (Literal_Int x)
  then show ?case using accounts_push [OF stack_inc_simps(3)] by fastforce
next
  case (Literal_Float x)
  then show ?case using accounts_push [OF stack_inc_simps(17)] by fastforce
next
  case (Group u e)
  then show ?case by (auto split: option.splits if_splits)
next
  case (Special_Cast u opcode e)
  then have e: "type_of \<Gamma> e = Some TYPE_INT" "opcode = OPCODE_I2F" by (auto split: if_splits)
  obtain m' where m': "accounts (code_of \<Gamma> e) (expr_depth e) s m m'"
    using Special_Cast.IH [OF e(1)] Special_Cast.prems(2) by auto
  have "unat (s + 4) \<le> unat m'"
    using m' Special_Cast.prems(2) expr_depth_pos [of e] unat_add_4 [of s] by (simp add: accounts_def)
  then have "s + 4 \<le> m'" by (simp add: word_le_nat_alt)
  then show ?case using m' e(2)
    by (auto simp: accounts_def stack_account_append stack_inc_simps Let_def max_absorb1)
next
  case (Binary_Op u oper l r)
  obtain t1 t2 where t: "type_of \<Gamma> l = Some t1" "type_of \<Gamma> r = Some t2" "result_type oper t1 t2 = Some t"
    using type_of_binary [OF Binary_Op.prems(1)] .
  let ?l = "expr_depth l" and ?r = "expr_depth r"
  have room: "unat s + 4 * ?l < 2 ^ 64" "unat s + 4 * Suc ?r < 2 ^ 64"
    using Binary_Op.prems(2) by (auto simp: max_def split: if_splits)
  have s4: "unat (s + 4) = unat s + 4" using room(2) by (simp add: unat_add_4)
  have s8: "unat (s + 4 + 4) = unat s + 8"
    using room(2) expr_depth_pos [of r] s4 unat_add_4 [of "s + 4"] by simp
  obtain m1 where m1: "accounts (code_of \<Gamma> l) ?l s m m1"
    using Binary_Op.IH(1) [OF t(1) room(1)] by blast
  have le1: "s + 4 \<le> m1"
    using m1 s4 expr_depth_pos [of l] by (simp add: accounts_def word_le_nat_alt)
  have "unat (s + 4) + 4 * ?r < 2 ^ 64" using room(2) s4 by simp
  then obtain m2 where m2: "accounts (code_of \<Gamma> r) ?r (s + 4) m1 m2"
    using Binary_Op.IH(2) [OF t(2)] by blast
  have le2: "s + 4 + 4 \<le> m2"
    using m2 s4 s8 expr_depth_pos [of r] by (simp add: accounts_def word_le_nat_alt)
  have le3: "s + 4 \<le> m2" using le2 s4 s8 by (simp add: word_le_nat_alt)
  have inc: "s + 4 + 4 + word_of_int (stack_inc (binary_opcode t oper)) = s + 4"
    using stack_inc_binary [OF t(3)] by simp
  have last: "stack_account [[binary_opcode t oper]] (s + 4 + 4, m2) = (s + 4, m2)"
    unfolding stack_account.simps Let_def fst_conv snd_conv list.sel inc using le3 by (simp add: max_absorb1)
  have parts: "stack_account (code_of \<Gamma> l) (s, m) = (s + 4, m1)"
    "stack_account (promote \<Gamma> l r) (s + 4, m1) = (s + 4, m1)"
    "stack_account (code_of \<Gamma> r) (s + 4, m1) = (s + 4 + 4, m2)"
    "stack_account (promote \<Gamma> r l) (s + 4 + 4, m2) = (s + 4 + 4, m2)"
    using m1 m2 account_promote [OF le1] account_promote [OF le2] by (simp_all only: accounts_def)
  have "stack_account (code_of \<Gamma> (Binary_Op u oper l r)) (s, m) = (s + 4, m2)"
    unfolding code_of.simps stack_account_append parts Binary_Op.prems(1) option.sel last ..
  moreover have "unat m2 = max (unat m) (unat s + 4 * expr_depth (Binary_Op u oper l r))"
    using m1 m2 s4 by (simp add: accounts_def max_def)
  ultimately show ?case by (auto simp: accounts_def)
qed auto


subsection \<open>The two emitters\<close>

definition set_scope_stack :: "64 word \<Rightarrow> 64 word \<Rightarrow> compiler \<Rightarrow> compiler" where
  "set_scope_stack s m c = c\<lparr>c_scope := (c_scope c)\<lparr>sc_stack_size := s\<rparr>, c_stack_max := m\<rparr>"

definition scope_account :: "byte list list \<Rightarrow> compiler \<Rightarrow> compiler" where
  "scope_account chunks c =
     (case stack_account chunks (sc_stack_size (c_scope c), c_stack_max c) of (s, m) \<Rightarrow> set_scope_stack s m c)"

lemma set_scope_stack_simps [simp]:
  "sc_stack_size (c_scope (set_scope_stack s m c)) = s" "c_stack_max (set_scope_stack s m c) = m"
  "sc_emitter (c_scope (set_scope_stack s m c)) = sc_emitter (c_scope c)"
  "sc_vars (c_scope (set_scope_stack s m c)) = sc_vars (c_scope c)"
  "sc_vars_off (c_scope (set_scope_stack s m c)) = sc_vars_off (c_scope c)"
  "sc_vars_cap (c_scope (set_scope_stack s m c)) = sc_vars_cap (c_scope c)"
  "sc_is_function_scope (c_scope (set_scope_stack s m c)) = sc_is_function_scope (c_scope c)"
  "c_parents (set_scope_stack s m c) = c_parents c" "c_vm (set_scope_stack s m c) = c_vm c"
  "c_vars_max (set_scope_stack s m c) = c_vars_max c"
  "set_scope_stack s m (set_scope_stack s' m' c) = set_scope_stack s m c"
  "set_scope_stack s m (c\<lparr>c_vm := vm\<rparr>) = (set_scope_stack s m c)\<lparr>c_vm := vm\<rparr>"
  "set_scope_stack s m (set_emitter em c) = set_emitter em (set_scope_stack s m c)"
  by (simp_all add: set_scope_stack_def set_emitter_def)

lemma set_emitter_simps [simp]:
  "sc_stack_size (c_scope (set_emitter em c)) = sc_stack_size (c_scope c)"
  "c_stack_max (set_emitter em c) = c_stack_max c"
  "sc_emitter (c_scope (set_emitter em c)) = em"
  "sc_vars (c_scope (set_emitter em c)) = sc_vars (c_scope c)"
  "sc_vars_off (c_scope (set_emitter em c)) = sc_vars_off (c_scope c)"
  "sc_vars_cap (c_scope (set_emitter em c)) = sc_vars_cap (c_scope c)"
  "sc_is_function_scope (c_scope (set_emitter em c)) = sc_is_function_scope (c_scope c)"
  "c_parents (set_emitter em c) = c_parents c" "c_vm (set_emitter em c) = c_vm c"
  "c_vars_max (set_emitter em c) = c_vars_max c"
  "set_emitter em (set_emitter em' c) = set_emitter em c"
  by (simp_all add: set_emitter_def)

lemma frame_increment_set:
  "frame_increment_stack_size d c =
     set_scope_stack (sc_stack_size (c_scope c) + word_of_int d)
       (max (c_stack_max c) (sc_stack_size (c_scope c) + word_of_int d)) c"
  by (simp add: frame_increment_stack_size_def set_scope_stack_def Let_def)

lemma scope_account_Cons:
  "scope_account (bytes # chunks) c = scope_account chunks (frame_increment_stack_size (stack_inc (hd bytes)) c)"
  by (simp add: scope_account_def frame_increment_set Let_def split: prod.split)

lemma set_emitter_same: "sc_emitter (c_scope c) = em \<Longrightarrow> set_emitter em c = c"
  by (auto simp: set_emitter_def)

lemma scope_account_set:
  "scope_account chunks (set_emitter em c) = set_emitter em (scope_account chunks c)"
  "scope_account chunks (c\<lparr>c_vm := vm\<rparr>) = (scope_account chunks c)\<lparr>c_vm := vm\<rparr>"
  by (simp_all add: scope_account_def split: prod.split)

lemma scope_account_emitter [simp]:
  "sc_emitter (c_scope (scope_account chunks c)) = sc_emitter (c_scope c)" "c_vm (scope_account chunks c) = c_vm c"
  by (simp_all add: scope_account_def split: prod.split)

lemma scope_account_Nil: "scope_account [] c = c"
  by (simp add: scope_account_def set_scope_stack_def)

lemma emit_seq_buffered:
  assumes "sc_emitter (c_scope c) = Buffered em" "em_wf em" "\<forall>bytes \<in> set chunks. length bytes \<le> em_page_size em"
  shows "\<exists>em'. emit_seq fuel chunks c = Inr (0, set_emitter (Buffered em') (scope_account chunks c)) \<and>
    em_wf em' \<and> em_page_size em' = em_page_size em \<and> em_bytes em' = em_bytes em @ concat chunks"
  using assms
proof (induction chunks arbitrary: c em)
  case Nil
  then show ?case by (intro exI [of _ em]) (simp add: scope_account_Nil set_emitter_same)
next
  case (Cons bytes chunks)
  let ?c = "frame_increment_stack_size (stack_inc (hd bytes)) c"
  obtain em1 where em1: "emitter_emit_buffered em bytes = Inr em1" "em_wf em1"
    "em_page_size em1 = em_page_size em" "em_bytes em1 = em_bytes em @ bytes"
    using pages.emit_appends [OF Cons.prems(2)] Cons.prems(3) by auto
  have step: "compiler_emit_n fuel bytes ?c = Inr (0, set_emitter (Buffered em1) ?c)"
    using Cons.prems(1) em1(1) by (simp add: compiler_emit_n_def frame_increment_set set_emitter_def)
  obtain em' where em': "emit_seq fuel chunks (set_emitter (Buffered em1) ?c) =
      Inr (0, set_emitter (Buffered em') (scope_account chunks (set_emitter (Buffered em1) ?c)))"
    "em_wf em'" "em_page_size em' = em_page_size em1" "em_bytes em' = em_bytes em1 @ concat chunks"
    using Cons.IH [of "set_emitter (Buffered em1) ?c" em1] em1 Cons.prems(3) by auto
  have "emit_seq fuel (bytes # chunks) c =
      Inr (0, set_emitter (Buffered em') (scope_account (bytes # chunks) c))"
    using step em'(1) by (simp add: scope_account_Cons scope_account_set)
  with em' em1 show ?case by auto
qed

lemma emit_seq_unbuffered:
  assumes "sc_emitter (c_scope c) = Unbuffered" "exec_chunks chunks (c_vm c) st'"
  shows "\<exists>fuel0. \<forall>fuel \<ge> fuel0. emit_seq fuel chunks c = Inr (0, (scope_account chunks c)\<lparr>c_vm := st'\<rparr>)"
  using assms
proof (induction chunks arbitrary: c)
  case Nil
  then show ?case by (auto simp: scope_account_Nil)
next
  case (Cons bytes chunks)
  let ?c = "frame_increment_stack_size (stack_inc (hd bytes)) c"
  obtain st1 where st1: "exec_block bytes (c_vm c) st1" "exec_chunks chunks st1 st'"
    using Cons.prems(2) by auto
  obtain f where f: "vm_execute_opcodes f bytes (c_vm c) = Inr st1" using exec_block_run [OF st1(1)] by blast
  have step: "compiler_emit_n fuel bytes ?c = Inr (0, ?c\<lparr>c_vm := st1\<rparr>)" if "f \<le> fuel" for fuel
    using vm_execute_opcodes_mono [OF that] f Cons.prems(1)
    by (simp add: compiler_emit_n_def frame_increment_set)
  have "sc_emitter (c_scope (?c\<lparr>c_vm := st1\<rparr>)) = Unbuffered" "exec_chunks chunks (c_vm (?c\<lparr>c_vm := st1\<rparr>)) st'"
    using Cons.prems(1) st1(2) by (simp_all add: frame_increment_set)
  from Cons.IH [OF this] obtain f' where f': "\<And>fuel. f' \<le> fuel \<Longrightarrow> emit_seq fuel chunks (?c\<lparr>c_vm := st1\<rparr>) =
      Inr (0, (scope_account chunks (?c\<lparr>c_vm := st1\<rparr>))\<lparr>c_vm := st'\<rparr>)" by blast
  have "emit_seq fuel (bytes # chunks) c = Inr (0, (scope_account (bytes # chunks) c)\<lparr>c_vm := st'\<rparr>)"
    if "max f f' \<le> fuel" for fuel
    using step [of fuel] f' [of fuel] that by (simp add: scope_account_Cons scope_account_set)
  then show ?case by blast
qed

lemma code_of_length: "\<forall>bytes \<in> set (code_of \<Gamma> e). length bytes \<le> 5"
  by (induction e) (auto simp: promote_def split: option.splits if_splits)


subsection \<open>Properties\<close>

text \<open>A function-like scope with one integer and one float variable, and a machine to match.\<close>

definition demo_scope :: scope_handler where
  "demo_scope = frame_init_scope\<lparr>sc_vars_cap := 4,
     sc_vars := [\<lparr>var_static_type = TYPE_INT, var_name = ''i'', var_index = 0\<rparr>,
                 \<lparr>var_static_type = TYPE_FLOAT, var_name = ''x'', var_index = 1\<rparr>],
     sc_emitter := Buffered (compiler_emitter_buffered_new 16)\<rparr>"

definition demo_compiler :: compiler where
  "demo_compiler = (compiler_init True)\<lparr>c_scope := demo_scope\<rparr>"

definition demo_expr :: expr where
  "demo_expr = Binary_Op 0 ADDITION (Ident 0 ''i'') (Group 0 (Binary_Op 0 MULTIPLICATION (Literal_Int 3) (Ident 0 ''i'')))"

definition demo_machine :: vm_state where
  "demo_machine = vm_static_init\<lparr>current_frame := new_frame 12 [Some 5, Some 0]\<rparr>"

lemma demo_facts:
  "type_of (compiler_slots demo_compiler) demo_expr = Some TYPE_INT"
  "sc_emitter (c_scope demo_compiler) = Buffered (compiler_emitter_buffered_new 16)"
  "eval (machine_env (compiler_slots demo_compiler) (locals (current_frame demo_machine))) demo_expr = Some (Int_Val 20)"
  "expr_depth demo_expr = 3" "stack_cap (current_frame demo_machine) = 12" "stack (current_frame demo_machine) = []"
  by (simp_all add: demo_compiler_def demo_scope_def demo_expr_def demo_machine_def new_frame_def
      compiler_slots_def c_chain_def compiler_init_def frame_init_scope_def result_type_def
      int_operator_to_opcode_def machine_env_def binary_value_def)

text \<open>
  C2. Compiler correctness for expressions. An expression over integer and float literals,
  variables, groups, arithmetic and comparisons that type-checks against the variables in
  scope compiles without a panic into the buffer of its scope, and running the new bytes from
  any state whose variables give it a value pushes exactly that value, casts included, and
  changes nothing else. The operand stack needs no more than \<open>expr_depth\<close> further words.
\<close>

theorem compile_expression_correct:
  assumes "type_of (compiler_slots c) e = Some t"
    and "sc_emitter (c_scope c) = Buffered em" "em_wf em" "5 \<le> em_page_size em"
  shows "\<exists>code c' em'. compile_expression fuel e c = Inr (0, c') \<and> sc_emitter (c_scope c') = Buffered em' \<and>
     em_wf em' \<and> em_bytes em' = em_bytes em @ code \<and>
     (\<forall>st v. eval (machine_env (compiler_slots c) (locals (current_frame st))) e = Some v \<longrightarrow>
        4 * (length (stack (current_frame st)) + expr_depth e) \<le> stack_cap (current_frame st) \<longrightarrow>
        (\<exists>run. vm_execute_opcodes run code st =
           Inr (set_frame st (val_word v # stack (current_frame st)) (locals (current_frame st)) (int (length code)))))"
proof -
  let ?chunks = "code_of (compiler_slots c) e"
  have "\<forall>bytes \<in> set ?chunks. length bytes \<le> em_page_size em"
    using code_of_length assms(4) by (meson order_trans)
  from emit_seq_buffered [OF assms(2,3) this, of fuel] obtain em' where em':
    "emit_seq fuel ?chunks c = Inr (0, set_emitter (Buffered em') (scope_account ?chunks c))"
    "em_wf em'" "em_bytes em' = em_bytes em @ concat ?chunks" by blast
  have run: "\<exists>run. vm_execute_opcodes run (concat ?chunks) st =
      Inr (set_frame st (val_word v # stack (current_frame st)) (locals (current_frame st)) (int (length (concat ?chunks))))"
    if "eval (machine_env (compiler_slots c) (locals (current_frame st))) e = Some v"
      "4 * (length (stack (current_frame st)) + expr_depth e) \<le> stack_cap (current_frame st)" for st v
    using exec_block_run [OF exec_chunks_block [OF exec_expression [OF assms(1) that, of 0]]]
    by (simp add: set_frame_id)
  show ?thesis
    using compile_expression_emits [OF assms(1)] em' run
    by (intro exI [of _ "concat ?chunks"] exI [of _ "set_emitter (Buffered em') (scope_account ?chunks c)"]
        exI [of _ em']) simp
qed

lemma compile_expression_correct_witness:
  "\<exists>code c' em'. compile_expression 0 demo_expr demo_compiler = Inr (0, c') \<and>
     sc_emitter (c_scope c') = Buffered em' \<and> em_bytes em' = code \<and>
     (\<exists>run st'. vm_execute_opcodes run code demo_machine = Inr st' \<and> stack (current_frame st') = [20])"
proof -
  obtain code c' em' where r: "compile_expression 0 demo_expr demo_compiler = Inr (0, c')"
    "sc_emitter (c_scope c') = Buffered em'" "em_bytes em' = [] @ code"
    "\<forall>st v. eval (machine_env (compiler_slots demo_compiler) (locals (current_frame st))) demo_expr = Some v \<longrightarrow>
        4 * (length (stack (current_frame st)) + expr_depth demo_expr) \<le> stack_cap (current_frame st) \<longrightarrow>
        (\<exists>run. vm_execute_opcodes run code st =
           Inr (set_frame st (val_word v # stack (current_frame st)) (locals (current_frame st)) (int (length code))))"
    using compile_expression_correct [OF demo_facts(1,2), of 0]
    by (force simp: compiler_emitter_buffered_new_def em_wf_def em_bytes_def)
  have "\<exists>run. vm_execute_opcodes run code demo_machine =
      Inr (set_frame demo_machine [20] (locals (current_frame demo_machine)) (int (length code)))"
    using r(4) [rule_format, OF demo_facts(3)] demo_facts(4-6) by simp
  then obtain run where run: "vm_execute_opcodes run code demo_machine =
      Inr (set_frame demo_machine [20] (locals (current_frame demo_machine)) (int (length code)))" ..
  show ?thesis
    by (rule exI [of _ code], rule exI [of _ c'], rule exI [of _ em'])
       (use r run in \<open>auto intro!: exI [of _ run]\<close>)
qed

text \<open>
  C10. Interactive mode: compiled against the unbuffered emitter, the same expression runs on the
  machine while it is compiled, instruction by instruction, and leaves its value on the stack of
  the current frame.
\<close>

theorem compile_expression_interactive:
  assumes "type_of (compiler_slots c) e = Some t" "sc_emitter (c_scope c) = Unbuffered"
    and "eval (machine_env (compiler_slots c) (locals (current_frame (c_vm c)))) e = Some v"
    and "4 * (length (stack (current_frame (c_vm c))) + expr_depth e) \<le> stack_cap (current_frame (c_vm c))"
  shows "\<exists>fuel0. \<forall>fuel \<ge> fuel0. \<exists>c'. compile_expression fuel e c = Inr (0, c') \<and>
     stack (current_frame (c_vm c')) = val_word v # stack (current_frame (c_vm c)) \<and>
     locals (current_frame (c_vm c')) = locals (current_frame (c_vm c))"
proof -
  let ?chunks = "code_of (compiler_slots c) e" and ?f = "current_frame (c_vm c)"
  let ?st = "set_frame (c_vm c) (val_word v # stack ?f) (locals ?f) (int (length (concat ?chunks)))"
  have "exec_chunks ?chunks (c_vm c) ?st"
    using exec_expression [OF assms(1,3,4), of 0] by (simp add: set_frame_id)
  from emit_seq_unbuffered [OF assms(2) this] obtain f0 where
    f0: "\<And>fuel. f0 \<le> fuel \<Longrightarrow> emit_seq fuel ?chunks c = Inr (0, (scope_account ?chunks c)\<lparr>c_vm := ?st\<rparr>)" by blast
  have "\<exists>c'. compile_expression fuel e c = Inr (0, c') \<and>
     stack (current_frame (c_vm c')) = val_word v # stack ?f \<and> locals (current_frame (c_vm c')) = locals ?f"
    if "f0 \<le> fuel" for fuel
    using compile_expression_emits [OF assms(1), of fuel] f0 [OF that] by simp
  then show ?thesis by blast
qed

lemma compile_expression_interactive_witness:
  "\<exists>fuel0. \<forall>fuel \<ge> fuel0. \<exists>c'.
     compile_expression fuel (Binary_Op 0 ADDITION (Literal_Int 2) (Literal_Int 3)) (compiler_init True) = Inr (0, c') \<and>
     stack (current_frame (c_vm c')) = val_word (Int_Val 5) # stack (current_frame (c_vm (compiler_init True))) \<and>
     locals (current_frame (c_vm c')) = locals (current_frame (c_vm (compiler_init True)))"
  by (rule compile_expression_interactive [where t = TYPE_INT])
     (simp_all add: result_type_def int_operator_to_opcode_def compiler_init_def compiler_get_root_frame_def
       binary_value_def vm_static_init_def new_frame_def)

text \<open>
  C9. The stack a function reserves is enough for its expressions: compiling an expression
  raises the recorded maximum to cover every word the expression needs on top of the current
  stack, and adds exactly the four bytes of its value to the current size. So a frame of that
  size never overflows while the expression runs.
\<close>

theorem compile_expression_stack_bound:
  assumes "type_of (compiler_slots c) e = Some t"
    and "sc_emitter (c_scope c) = Buffered em" "em_wf em" "5 \<le> em_page_size em"
    and "unat (sc_stack_size (c_scope c)) + 4 * expr_depth e < 2 ^ 64"
  shows "\<exists>c'. compile_expression fuel e c = Inr (0, c') \<and>
     sc_stack_size (c_scope c') = sc_stack_size (c_scope c) + 4 \<and>
     unat (c_stack_max c') = max (unat (c_stack_max c)) (unat (sc_stack_size (c_scope c)) + 4 * expr_depth e)"
proof -
  let ?chunks = "code_of (compiler_slots c) e"
  have "\<forall>bytes \<in> set ?chunks. length bytes \<le> em_page_size em"
    using code_of_length assms(4) by (meson order_trans)
  from emit_seq_buffered [OF assms(2,3) this, of fuel] obtain em' where
    em': "emit_seq fuel ?chunks c = Inr (0, set_emitter (Buffered em') (scope_account ?chunks c))" by blast
  obtain m' where "accounts ?chunks (expr_depth e) (sc_stack_size (c_scope c)) (c_stack_max c) m'"
    using account_expression [OF assms(1,5)] by blast
  then show ?thesis
    using compile_expression_emits [OF assms(1), of fuel] em' by (simp add: accounts_def scope_account_def)
qed

lemma compile_expression_stack_bound_witness:
  "\<exists>c'. compile_expression 0 demo_expr demo_compiler = Inr (0, c') \<and> unat (c_stack_max c') = 12"
proof -
  have z: "sc_stack_size (c_scope demo_compiler) = 0" "c_stack_max demo_compiler = 0"
    by (simp_all add: demo_compiler_def demo_scope_def frame_init_scope_def compiler_init_def)
  have "em_wf (compiler_emitter_buffered_new 16)" "5 \<le> em_page_size (compiler_emitter_buffered_new 16)"
    by (simp_all add: compiler_emitter_buffered_new_def em_wf_def)
  from compile_expression_stack_bound [OF demo_facts(1,2) this, of 0] show ?thesis
    using z demo_facts(4) by auto
qed

end
