(* ===== verification/Stat_Correct.thy ===== *)
theory Stat_Correct
  imports Expr_Claims
begin

text \<open>
  Compiled statements: assignments, selections and loops. A big-step semantics over named
  variables says what they mean; \<open>elab_stat\<close> is the fragment for which the compiler is
  correct, with the code it emits, and makes the limits of the one-byte jump offsets and of the
  emitter's pages explicit; the lemmas of this theory show that the compiler emits that code.
\<close>

subsection \<open>Source semantics\<close>

text \<open>
  A store maps the variables in scope to their values. Assigning to a new name defines it;
  leaving a block forgets the names defined in it.
\<close>

type_synonym store = "string \<Rightarrow> val option"

definition convert :: "static_type \<Rightarrow> val \<Rightarrow> val option" where
  "convert t v =
     (if val_type v = t then Some v
      else if t = TYPE_FLOAT \<and> val_type v = TYPE_INT then Some (Float_Val (to_float v)) else None)"

abbreviation assign :: "string \<Rightarrow> expr \<Rightarrow> stat" where
  "assign x e \<equiv> Stat_Expr (Binary_Op TYPE_UNKNWN ASSIGNMENT (Ident TYPE_UNKNWN x) e)"

inductive sem_stat :: "stat \<Rightarrow> store \<Rightarrow> store \<Rightarrow> bool"
  and sem_scope :: "stat list \<Rightarrow> store \<Rightarrow> store \<Rightarrow> bool" where
  sem_assign_new: "\<rho> x = None \<Longrightarrow> eval \<rho> e = Some v \<Longrightarrow> sem_stat (assign x e) \<rho> (\<rho>(x \<mapsto> v))"
| sem_assign: "\<rho> x = Some w \<Longrightarrow> eval \<rho> e = Some v \<Longrightarrow> convert (val_type w) v = Some v' \<Longrightarrow>
    sem_stat (assign x e) \<rho> (\<rho>(x \<mapsto> v'))"
| sem_if_true: "eval \<rho> e = Some (Int_Val w) \<Longrightarrow> w \<noteq> 0 \<Longrightarrow> sem_scope ts \<rho> \<rho>' \<Longrightarrow>
    sem_stat (Stat_If e ts fs) \<rho> (\<rho>' |` dom \<rho>)"
| sem_if_false: "eval \<rho> e = Some (Int_Val 0) \<Longrightarrow> sem_scope (case fs of None \<Rightarrow> [] | Some fs \<Rightarrow> fs) \<rho> \<rho>' \<Longrightarrow>
    sem_stat (Stat_If e ts fs) \<rho> (\<rho>' |` dom \<rho>)"
| sem_while_end: "eval \<rho> e = Some (Int_Val 0) \<Longrightarrow> sem_stat (Stat_While e body) \<rho> \<rho>"
| sem_while: "eval \<rho> e = Some (Int_Val w) \<Longrightarrow> w \<noteq> 0 \<Longrightarrow> sem_scope body \<rho> \<rho>1 \<Longrightarrow>
    sem_stat (Stat_While e body) (\<rho>1 |` dom \<rho>) \<rho>' \<Longrightarrow> sem_stat (Stat_While e body) \<rho> \<rho>'"
| sem_Nil: "sem_scope [] \<rho> \<rho>"
| sem_Cons: "sem_stat s \<rho> \<rho>1 \<Longrightarrow> sem_scope ss \<rho>1 \<rho>' \<Longrightarrow> sem_scope (s # ss) \<rho> \<rho>'"

subsection \<open>The fragment and its code\<close>

text \<open>
  \<open>(\<Gamma>, k, n, m)\<close>: the slots of the variables in scope, the number of variables of the current
  scope, the next free slot, the number of slots needed so far. \<open>page\<close> is the page size of the
  emitter the code goes to.
\<close>

type_synonym env = "slots \<times> nat \<times> nat \<times> nat"

fun elab_assign :: "nat \<Rightarrow> env \<Rightarrow> string \<Rightarrow> expr \<Rightarrow> (env \<times> byte list list) option" where
  "elab_assign cap (\<Gamma>, k, n, m) x e =
     (case type_of \<Gamma> e of
        None \<Rightarrow> None
      | Some t \<Rightarrow>
          (case \<Gamma> x of
             Some (t', slot) \<Rightarrow>
               if t' = t then Some ((\<Gamma>, k, n, m), code_of \<Gamma> e @ [[OPCODE_SAVE t, slot]])
               else if t' = TYPE_FLOAT \<and> t = TYPE_INT
               then Some ((\<Gamma>, k, n, m), code_of \<Gamma> e @ [[OPCODE_I2F], [OPCODE_FSAVE, slot]])
               else None
           | None \<Rightarrow>
               if k < cap \<and> n < 256
               then Some ((\<Gamma>(x \<mapsto> (t, word_of_nat n)), k + 1, n + 1, max m (n + 1)),
                          code_of \<Gamma> e @ [[OPCODE_SAVE t, word_of_nat n]])
               else None))"

definition if_code :: "byte list \<Rightarrow> byte list \<Rightarrow> byte list" where
  "if_code t f =
     [OPCODE_JEZ, jump_hi (length t + 3), jump_lo (length t + 3)] @ t @ OPCODE_JMP # be16_bytes (length f) @ f"

definition while_code :: "byte list \<Rightarrow> byte list \<Rightarrow> byte list" where
  "while_code e b =
     e @ [OPCODE_JEZ, jump_hi (length b + 3), jump_lo (length b + 3)] @ b @
     [OPCODE_RJMP, jump_hi (length e + length b + 6), jump_lo (length e + length b + 6)]"

fun elab_stat :: "nat \<Rightarrow> nat \<Rightarrow> env \<Rightarrow> stat \<Rightarrow> (env \<times> byte list) option"
  and elab_scope :: "nat \<Rightarrow> nat \<Rightarrow> env \<Rightarrow> stat list \<Rightarrow> (env \<times> byte list) option" where
  "elab_stat cap page env (Stat_Expr e) =
     (case e of
        Binary_Op t oper left right \<Rightarrow>
          (case left of
             Ident t' x \<Rightarrow>
               if t = TYPE_UNKNWN \<and> oper = ASSIGNMENT \<and> t' = TYPE_UNKNWN
               then map_option (\<lambda>(env, chunks). (env, concat chunks)) (elab_assign cap env x right) else None
           | _ \<Rightarrow> None)
      | _ \<Rightarrow> None)"
| "elab_stat cap page (\<Gamma>, k, n, m) (Stat_If e ts fs) =
     (case elab_scope cap 512 (\<Gamma>, 0, n, m) ts of
        None \<Rightarrow> None
      | Some ((_, _, _, m1), t) \<Rightarrow>
          (case (case fs of None \<Rightarrow> Some ((\<Gamma>, 0, n, m1), []) | Some fs \<Rightarrow> elab_scope cap 512 (\<Gamma>, 0, n, m1) fs) of
             None \<Rightarrow> None
           | Some ((_, _, _, m2), f) \<Rightarrow>
               if type_of \<Gamma> e = Some TYPE_INT \<and> length t + 3 < 256 \<and> length f \<le> 65535 \<and>
                  length t + length f + 6 \<le> page
               then Some ((\<Gamma>, k, n, m2), concat (code_of \<Gamma> e) @ if_code t f) else None))"
| "elab_stat cap page (\<Gamma>, k, n, m) (Stat_While e body) =
     (case elab_scope cap 512 (\<Gamma>, 0, n, m) body of
        None \<Rightarrow> None
      | Some ((_, _, _, m1), b) \<Rightarrow>
          if type_of \<Gamma> e = Some TYPE_INT \<and> length (concat (code_of \<Gamma> e)) + length b + 6 < 256 \<and>
             length (concat (code_of \<Gamma> e)) + length b + 6 \<le> page
          then Some ((\<Gamma>, k, n, m1), while_code (concat (code_of \<Gamma> e)) b) else None)"
| "elab_stat cap page env _ = None"
| "elab_scope cap page env [] = Some (env, [])"
| "elab_scope cap page env (s # ss) =
     (case elab_stat cap page env s of
        None \<Rightarrow> None
      | Some (env1, a) \<Rightarrow>
          (case elab_scope cap page env1 ss of None \<Rightarrow> None | Some (env2, b) \<Rightarrow> Some (env2, a @ b)))"

fun stat_depth :: "stat \<Rightarrow> nat" and scope_depth :: "stat list \<Rightarrow> nat" where
  "stat_depth (Stat_Expr e) = (case e of Binary_Op t oper l r \<Rightarrow> expr_depth r | _ \<Rightarrow> 0)"
| "stat_depth (Stat_If e ts fs) =
     max (expr_depth e) (max (scope_depth ts) (case fs of None \<Rightarrow> 0 | Some fs \<Rightarrow> scope_depth fs))"
| "stat_depth (Stat_While e body) = max (expr_depth e) (scope_depth body)"
| "stat_depth _ = 0"
| "scope_depth [] = 0"
| "scope_depth (s # ss) = max (stat_depth s) (scope_depth ss)"

subsection \<open>Extending the variables in scope\<close>

lemma type_of_mono:
  "type_of \<Gamma> e = Some t \<Longrightarrow> \<Gamma> \<subseteq>\<^sub>m \<Gamma>' \<Longrightarrow> type_of \<Gamma>' e = Some t \<and> code_of \<Gamma>' e = code_of \<Gamma> e"
proof (induction e arbitrary: t)
  case (Ident s name)
  then obtain p where p: "\<Gamma> name = Some p" by (auto split: option.splits)
  then have "\<Gamma>' name = Some p" using Ident.prems(2) by (metis domI map_le_def)
  with p Ident.prems(1) show ?case by simp
next
  case (Binary_Op s oper l r)
  obtain t1 t2 where t: "type_of \<Gamma> l = Some t1" "type_of \<Gamma> r = Some t2" "result_type oper t1 t2 = Some t"
    using type_of_binary [OF Binary_Op.prems(1)] .
  have "type_of \<Gamma>' l = Some t1 \<and> code_of \<Gamma>' l = code_of \<Gamma> l" "type_of \<Gamma>' r = Some t2 \<and> code_of \<Gamma>' r = code_of \<Gamma> r"
    using Binary_Op.IH Binary_Op.prems(2) t by blast+
  with t Binary_Op.prems(1) show ?case by (simp add: promote_def)
qed (auto split: option.splits if_splits)

lemma map_le_new: "\<Gamma> x = None \<Longrightarrow> \<Gamma> \<subseteq>\<^sub>m \<Gamma>(x \<mapsto> p)"
  by (simp add: map_le_def dom_def)

lemma find_append: "find P (a @ b) = (case find P a of None \<Rightarrow> find P b | Some x \<Rightarrow> Some x)"
  by (induction a) simp_all

lemma slots_define:
  assumes "compiler_slots c x = None" "frame_define_var t x c = Inr (var, c')"
  shows "compiler_slots c' = (compiler_slots c)(x \<mapsto> (t, var_index var))"
proof (rule ext)
  fix y
  have nf: "find (\<lambda>v. var_name v = x) (sc_vars (c_scope c)) = None"
    using assms(1) by (auto simp: compiler_slots_def c_chain_def split: option.splits)
  have c': "c_scope c' = (c_scope c)\<lparr>sc_vars := sc_vars (c_scope c) @ [var]\<rparr>" "c_parents c' = c_parents c"
    "var_name var = x" "var_static_type var = t"
    using assms(2) by (auto simp: frame_define_var_def Let_def split: if_splits)
  show "compiler_slots c' y = ((compiler_slots c)(x \<mapsto> (t, var_index var))) y"
    using nf c' by (cases "x = y")
      (auto simp: compiler_slots_def c_chain_def find_append split: option.splits)
qed

lemma slots_enter_block: "compiler_slots (enter_block stk c) = compiler_slots c"
  by (rule ext) (simp add: compiler_slots_def enter_block_def enter_scope_def c_chain_def block_scope_def
      frame_init_scope_def)


subsection \<open>Compiling the fragment\<close>

definition scope_env :: "compiler \<Rightarrow> env" where
  "scope_env c = (compiler_slots c, length (sc_vars (c_scope c)),
     length (sc_vars (c_scope c)) + sc_vars_off (c_scope c), c_vars_max c)"

definition ready :: "compiler \<Rightarrow> nat \<Rightarrow> bool" where
  "ready c page \<longleftrightarrow> (\<exists>em. sc_emitter (c_scope c) = Buffered em \<and> em_wf em \<and> em_page_size em = page)"

definition emitted :: "compiler \<Rightarrow> byte list" where
  "emitted c = em_bytes (block_emitter c)"

text \<open>What compiling a piece of source does to the compiler.\<close>

definition grows :: "compiler \<Rightarrow> compiler \<Rightarrow> nat \<Rightarrow> byte list \<Rightarrow> bool" where
  "grows c c' page code \<longleftrightarrow> ready c' page \<and> emitted c' = emitted c @ code \<and>
     sc_vars_off (c_scope c') = sc_vars_off (c_scope c) \<and> sc_vars_cap (c_scope c') = sc_vars_cap (c_scope c) \<and>
     sc_is_function_scope (c_scope c') = sc_is_function_scope (c_scope c) \<and> c_parents c' = c_parents c \<and>
     c_vm c' = c_vm c"

lemma grows_trans: "grows c c1 page a \<Longrightarrow> grows c1 c2 page b \<Longrightarrow> grows c c2 page (a @ b)"
  by (simp add: grows_def)

lemma grows_refl: "ready c page \<Longrightarrow> grows c c page []"
  by (simp add: grows_def)

lemma readyI: "sc_emitter (c_scope c) = Buffered em \<Longrightarrow> em_wf em \<Longrightarrow> em_page_size em = page \<Longrightarrow> ready c page"
  by (simp add: ready_def)

lemma block_emitter_Buffered: "sc_emitter (c_scope c) = Buffered em \<Longrightarrow> block_emitter c = em"
  by (simp add: block_emitter_def)

lemma emit_seq_grows:
  assumes "ready c page" "\<forall>bytes \<in> set chunks. length bytes \<le> page"
  shows "\<exists>c'. emit_seq fuel chunks c = Inr (0, c') \<and> grows c c' page (concat chunks) \<and> scope_env c' = scope_env c"
proof -
  obtain em where em: "sc_emitter (c_scope c) = Buffered em" "em_wf em" "em_page_size em = page"
    using assms(1) by (auto simp: ready_def)
  obtain em' where em': "emit_seq fuel chunks c = Inr (0, set_emitter (Buffered em') (scope_account chunks c))"
    "em_wf em'" "em_page_size em' = em_page_size em" "em_bytes em' = em_bytes em @ concat chunks"
    using emit_seq_buffered [OF em(1,2)] assms(2) em(3) by blast
  let ?c = "set_emitter (Buffered em') (scope_account chunks c)"
  have sv: "same_vars c ?c" using same_vars_emit_seq [OF em'(1)] .
  have acc: "sc_vars_off (c_scope (scope_account chunks c)) = sc_vars_off (c_scope c)"
    "sc_vars_cap (c_scope (scope_account chunks c)) = sc_vars_cap (c_scope c)"
    "c_vars_max (scope_account chunks c) = c_vars_max c"
    by (simp_all add: scope_account_def split: prod.split)
  have "ready ?c page" using em' em(3) by (intro readyI) simp_all
  moreover have "emitted ?c = emitted c @ concat chunks"
    using em'(4) em(1) by (simp add: emitted_def block_emitter_def)
  ultimately have "grows c ?c page (concat chunks)"
    using sv acc by (simp add: grows_def same_vars_def)
  moreover have "scope_env ?c = scope_env c"
    using sv acc same_vars_slots [OF sv] by (simp add: scope_env_def same_vars_def)
  ultimately show ?thesis using em'(1) by blast
qed

lemma emit_n_grows:
  assumes "ready c page" "length bytes \<le> page"
  shows "\<exists>c'. compiler_emit_n fuel bytes c = Inr (0, c') \<and> grows c c' page bytes \<and> scope_env c' = scope_env c"
proof -
  obtain em where em: "sc_emitter (c_scope c) = Buffered em" "em_wf em" "em_page_size em = page"
    using assms(1) by (auto simp: ready_def)
  obtain em' where em': "emitter_emit_buffered em bytes = Inr em'" "em_wf em'"
    "em_page_size em' = em_page_size em" "em_bytes em' = em_bytes em @ bytes"
    using pages.emit_appends [OF em(2)] assms(2) em(3) by blast
  let ?c = "set_emitter (Buffered em') c"
  have "compiler_emit_n fuel bytes c = Inr (0, ?c)"
    using em(1) em'(1) by (simp add: compiler_emit_n_def set_emitter_def)
  moreover have "ready ?c page" using em' em(3) by (intro readyI) simp_all
  then have "grows c ?c page bytes"
    using em'(4) em(1) by (simp add: grows_def emitted_def block_emitter_def)
  moreover have "scope_env ?c = scope_env c"
    by (simp add: scope_env_def compiler_slots_def c_chain_def set_emitter_def fun_eq_iff)
  ultimately show ?thesis by blast
qed

lemma assign_code:
  assumes tr: "ast_node_trace_data_type (c_chain c) e = Inr e'" "traced (compiler_slots c) e t e'"
    and te: "type_of (compiler_slots c) e = Some t"
    and target: "assignment_target (Ident TYPE_UNKNWN x) t c = Inr (var, cast, vt, c1)"
    and slots: "compiler_slots c \<subseteq>\<^sub>m compiler_slots c1"
  shows "compile_expression fuel (Binary_Op TYPE_UNKNWN ASSIGNMENT (Ident TYPE_UNKNWN x) e) c =
    emit_seq fuel (code_of (compiler_slots c) e @ (if cast \<noteq> 0 then [[cast]] else []) @
      [[OPCODE_SAVE vt, var_index var]]) c1"
proof -
  have t: "static_type e' = t" "type_of (compiler_slots c) e' = Some t"
    "code_of (compiler_slots c) e' = code_of (compiler_slots c) e" using tr(2) by (simp_all add: traced_def)
  have e': "compile_expression fuel e' c1 = emit_seq fuel (code_of (compiler_slots c) e) c1"
    using compile_expression_emits [of c1 e' t] type_of_mono [OF t(2) slots] t(3) by simp
  have save: "compiler_emit_1 fuel (OPCODE_SAVE vt) (var_index var)
      (frame_increment_stack_size (stack_inc (OPCODE_SAVE vt)) c2) = emit_seq fuel [[OPCODE_SAVE vt, var_index var]] c2" for c2
    unfolding emit_seq_single by (simp add: compiler_emit_1_def)
  have cast: "(if cast \<noteq> 0 then emit_opcode fuel cast c2 else Inr (0, c2)) =
      emit_seq fuel (if cast \<noteq> 0 then [[cast]] else []) c2" for c2
    by (simp add: emit_opcode_seq emit_seq_Nil)
  have "compile_expression fuel (Binary_Op TYPE_UNKNWN ASSIGNMENT (Ident TYPE_UNKNWN x) e) c =
    cbind (compile_expression fuel e' c1) (\<lambda>c. cbind (if cast \<noteq> 0 then emit_opcode fuel cast c else Inr (0, c))
      (\<lambda>c. compiler_emit_1 fuel (OPCODE_SAVE vt) (var_index var)
         (frame_increment_stack_size (stack_inc (OPCODE_SAVE vt)) c)))"
    using tr(1) target t(1) by (simp add: Let_def)
  also have "\<dots> = emit_seq fuel (code_of (compiler_slots c) e @ (if cast \<noteq> 0 then [[cast]] else []) @
      [[OPCODE_SAVE vt, var_index var]]) c1"
    by (rule cbind_emit_seq [OF e'], rule cbind_emit_seq [OF cast], rule save)
  finally show ?thesis .
qed

lemma elab_assign_chunks:
  "elab_assign cap env x e = Some (env', chunks) \<Longrightarrow> \<forall>bytes \<in> set chunks. length bytes \<le> 5"
  using code_of_length
  by (cases env) (auto split: option.splits if_splits)

lemma assign_emits:
  assumes elab: "elab_assign (sc_vars_cap (c_scope c)) (scope_env c) x e = Some (env', chunks)"
  obtains c1 where "\<forall>fuel. compile_statement fuel (assign x e) c = emit_seq fuel chunks c1"
    "scope_env c1 = env'" "sc_emitter (c_scope c1) = sc_emitter (c_scope c)"
    "sc_vars_off (c_scope c1) = sc_vars_off (c_scope c)" "sc_vars_cap (c_scope c1) = sc_vars_cap (c_scope c)"
    "sc_is_function_scope (c_scope c1) = sc_is_function_scope (c_scope c)" "c_parents c1 = c_parents c"
    "c_vm c1 = c_vm c" "sc_stack_size (c_scope c1) = sc_stack_size (c_scope c)" "c_stack_max c1 = c_stack_max c"
proof -
  let ?G = "compiler_slots c"
  obtain t where t: "type_of ?G e = Some t" using elab by (auto simp: scope_env_def split: option.splits)
  obtain e' where tr: "ast_node_trace_data_type (c_chain c) e = Inr e'" "traced ?G e t e'" using trace_of [OF t] by blast
  show ?thesis
  proof (cases "?G x")
    case (Some p)
    then obtain var where var: "frame_lookup_var_by_name (c_chain c) x True = Some var"
      "p = (var_static_type var, var_index var)" by (auto simp: compiler_slots_def)
    obtain cast vt where "assignment_target (Ident TYPE_UNKNWN x) t c = Inr (var, cast, vt, c)"
      "chunks = code_of ?G e @ (if cast \<noteq> 0 then [[cast]] else []) @ [[OPCODE_SAVE vt, var_index var]]" "env' = scope_env c"
      using elab var Some t
      by (auto simp: assignment_target_def scope_env_def type_select_cast_method_def OPCODE_SAVE_def split: if_splits)
    with assign_code [OF tr t] have "\<forall>fuel. compile_statement fuel (assign x e) c = emit_seq fuel chunks c" "scope_env c = env'"
      by (simp_all del: compile_expression.simps)
    then show ?thesis by (rule that) simp_all
  next
    case None
    then have look: "frame_lookup_var_by_name (c_chain c) x True = None" by (simp add: compiler_slots_def)
    have room: "length (sc_vars (c_scope c)) < sc_vars_cap (c_scope c)"
      using elab None t by (auto simp: scope_env_def split: if_splits)
    then obtain var c1 where def: "frame_define_var t x c = Inr (var, c1)"
      by (auto simp: frame_define_var_def Let_def)
    have G1: "compiler_slots c1 = ?G(x \<mapsto> (t, var_index var))" using slots_define [OF None def] .
    have c1: "c_scope c1 = (c_scope c)\<lparr>sc_vars := sc_vars (c_scope c) @ [var]\<rparr>" "c_parents c1 = c_parents c"
      "var_index var = word_of_nat (length (sc_vars (c_scope c)) + sc_vars_off (c_scope c))"
      "c_vars_max c1 = max (c_vars_max c) (Suc (length (sc_vars (c_scope c)) + sc_vars_off (c_scope c)))"
      "c_vm c1 = c_vm c" "c_stack_max c1 = c_stack_max c"
      using def room by (auto simp: frame_define_var_def Let_def)
    have "assignment_target (Ident TYPE_UNKNWN x) t c = Inr (var, 0, t, c1)"
      using look def by (simp add: assignment_target_def)
    from assign_code [OF tr t this] map_le_new [of ?G x, OF None] G1
    have "\<forall>fuel. compile_statement fuel (assign x e) c = emit_seq fuel (code_of ?G e @ [[OPCODE_SAVE t, var_index var]]) c1"
      by (simp del: compile_expression.simps)
    moreover have "chunks = code_of ?G e @ [[OPCODE_SAVE t, var_index var]]" "scope_env c1 = env'"
      using elab None t c1 G1 by (auto simp: scope_env_def split: if_splits)
    ultimately have "\<forall>fuel. compile_statement fuel (assign x e) c = emit_seq fuel chunks c1" "scope_env c1 = env'"
      by (simp_all only: simp_thms)
    then show ?thesis by (rule that) (use c1 in simp_all)
  qed
qed

lemma compile_assign:
  assumes elab: "elab_assign (sc_vars_cap (c_scope c)) (scope_env c) x e = Some (env', chunks)"
    and rdy: "ready c page" "5 \<le> page"
  shows "\<exists>c'. compile_statement fuel (assign x e) c = Inr (0, c') \<and> grows c c' page (concat chunks) \<and> scope_env c' = env'"
proof -
  have small: "\<forall>bytes \<in> set chunks. length bytes \<le> page"
    using elab_assign_chunks [OF elab] rdy(2) by (meson order_trans)
  obtain c1 where c1: "\<forall>fuel. compile_statement fuel (assign x e) c = emit_seq fuel chunks c1"
    "scope_env c1 = env'" "sc_emitter (c_scope c1) = sc_emitter (c_scope c)"
    "sc_vars_off (c_scope c1) = sc_vars_off (c_scope c)" "sc_vars_cap (c_scope c1) = sc_vars_cap (c_scope c)"
    "sc_is_function_scope (c_scope c1) = sc_is_function_scope (c_scope c)" "c_parents c1 = c_parents c"
    "c_vm c1 = c_vm c" by (rule assign_emits [OF elab]) blast
  then have g: "grows c c1 page []" using rdy(1) by (simp add: grows_def ready_def emitted_def block_emitter_def)
  then have "ready c1 page" by (simp add: grows_def)
  then obtain c' where c': "emit_seq fuel chunks c1 = Inr (0, c')" "grows c1 c' page (concat chunks)" "scope_env c' = scope_env c1"
    using emit_seq_grows small by blast
  show ?thesis using c1 c' grows_trans [OF g c'(2)] by (simp del: compile_statement.simps)
qed


lemma jump_hi_0 [simp]: "jump_hi n = 0"
  by (rule bit_word_eqI) (simp add: jump_hi_def bit_simps)

lemma enter_block_facts:
  "ready (enter_block stk c) 512" "emitted (enter_block stk c) = []"
  "scope_env (enter_block stk c) = (compiler_slots c, 0, snd (snd (scope_env c)))"
  "sc_vars_cap (c_scope (enter_block stk c)) = sc_vars_cap (c_scope c)"
  "c_parents (enter_block stk c) = c_chain c"
  by (simp_all add: ready_def emitted_def block_emitter_def scope_env_def slots_enter_block)
     (simp_all add: enter_block_def enter_scope_def block_scope_def frame_init_scope_def em_wf_new
       em_bytes_def compiler_emitter_buffered_new_def em_wf_def)

lemma leave_scope_vars_max: "c_vars_max (leave_scope b) = c_vars_max b"
  by (simp add: leave_scope_def)

text \<open>What is known after a block was compiled and left.\<close>

lemma leave_block:
  assumes "grows (enter_block stk c) b 512 code"
  shows "c_scope (leave_scope b) = c_scope c" "c_parents (leave_scope b) = c_parents c"
    "em_size (block_emitter b) = length code" "compiler_emitter_sink (block_emitter b) = Inr code"
    "em_bytes (block_emitter b) = code" "em_wf (block_emitter b)" "em_page_size (block_emitter b) = 512"
    "c_vm (leave_scope b) = c_vm c" "scope_env (leave_scope b) =
      (compiler_slots c, length (sc_vars (c_scope c)), length (sc_vars (c_scope c)) + sc_vars_off (c_scope c), c_vars_max b)"
proof -
  have p: "c_parents b = c_chain c" using assms enter_block_facts by (simp add: grows_def)
  then show l: "c_scope (leave_scope b) = c_scope c" "c_parents (leave_scope b) = c_parents c"
    by (simp_all add: leave_scope_def c_chain_def)
  obtain em where em: "sc_emitter (c_scope b) = Buffered em" "em_wf em" "em_page_size em = 512"
    using assms by (auto simp: grows_def ready_def)
  have bytes: "em_bytes em = code"
    using assms em(1) enter_block_facts(2) by (simp add: grows_def emitted_def block_emitter_def)
  show "em_size (block_emitter b) = length code" "compiler_emitter_sink (block_emitter b) = Inr code"
    "em_bytes (block_emitter b) = code" "em_wf (block_emitter b)" "em_page_size (block_emitter b) = 512"
    using em bytes em_bytes_length [OF em(2)] compiler_emitter_sink_wf [OF em(2)]
    by (simp_all add: block_emitter_def)
  show "c_vm (leave_scope b) = c_vm c"
    using assms by (simp add: grows_def leave_scope_def enter_block_def enter_scope_def)
  show "scope_env (leave_scope b) =
      (compiler_slots c, length (sc_vars (c_scope c)), length (sc_vars (c_scope c)) + sc_vars_off (c_scope c), c_vars_max b)"
    using l leave_scope_vars_max by (simp_all add: scope_env_def compiler_slots_def c_chain_def fun_eq_iff)
qed

lemma grows_same:
  assumes "c_scope c' = c_scope c" "c_parents c' = c_parents c" "c_vm c' = c_vm c" "ready c page"
  shows "grows c c' page []"
  using assms by (simp add: grows_def ready_def emitted_def block_emitter_def)

lemma emit_selection_code:
  assumes t: "em_wf te" "em_bytes te = t" "em_page_size te = 512"
    and f: "em_size fe = length f" "compiler_emitter_sink fe = Inr f"
    and size: "length t + 3 \<le> 65535" "length f \<le> 65535"
  shows "emit_selection fuel te fe c = cseq (compiler_emit_n fuel (if_code t f) c) (\<lambda>c. Inr (0, c))"
proof -
  let ?jmp = "OPCODE_JMP # be16_bytes (length f)"
  obtain te' where te': "emitter_emit_buffered te ?jmp = Inr te'" "em_wf te'" "em_bytes te' = t @ ?jmp"
    using pages.emit_appends [OF t(1), of ?jmp] t by auto
  have sz: "em_size te' = length t + 3" using em_bytes_length [OF te'(2)] te'(3) by simp
  show ?thesis
    using te' f size sz compiler_emitter_sink_wf [OF te'(2)]
    by (simp add: emit_selection_def if_code_def Let_def)
qed

lemma compile_selection:
  assumes t: "em_wf te" "em_bytes te = t" "em_page_size te = 512"
    and f: "em_size fe = length f" "compiler_emitter_sink fe = Inr f"
    and size: "length t + 3 \<le> 65535" "length f \<le> 65535" "length t + length f + 6 \<le> page" and rdy: "ready c page"
  shows "\<exists>c'. emit_selection fuel te fe c = Inr (0, c') \<and> grows c c' page (if_code t f) \<and> scope_env c' = scope_env c"
proof -
  have "length (if_code t f) \<le> page" using size by (simp add: if_code_def)
  from emit_n_grows [OF rdy this, of fuel] show ?thesis
    unfolding emit_selection_code [OF t f size(1,2)] by auto
qed

lemma compile_cond:
  assumes "type_of (compiler_slots c) e = Some t" "ready c page" "5 \<le> page"
  shows "\<exists>c'. compile_expression fuel e c = Inr (0, c') \<and>
    grows c c' page (concat (code_of (compiler_slots c) e)) \<and> scope_env c' = scope_env c"
proof -
  have "\<forall>bytes \<in> set (code_of (compiler_slots c) e). length bytes \<le> page"
    using code_of_length assms(3) by (meson order_trans)
  from emit_seq_grows [OF assms(2) this] show ?thesis using compile_expression_emits [OF assms(1)] by simp
qed

lemma set_emitter_env [simp]:
  "scope_env (set_emitter em c) = scope_env c" "compiler_slots (set_emitter em c) = compiler_slots c"
  by (simp_all add: scope_env_def compiler_slots_def c_chain_def set_emitter_def fun_eq_iff)

lemma truncate_vars_id: "truncate_vars (length (sc_vars (c_scope c))) c = c"
  by (simp add: truncate_vars_def)

lemma emit_loop_code:
  assumes "em_size ee = length e" "compiler_emitter_sink ee = Inr e" "em_size be = length b"
    "compiler_emitter_sink be = Inr b" "length e + length b + 6 < 256"
  shows "emit_loop fuel ee be c = cseq (compiler_emit_n fuel (while_code e b) c) (\<lambda>c. Inr (0, c))"
  using assms by (simp add: emit_loop_def while_code_def Let_def ac_simps)

lemma compile_loop:
  assumes "em_size ee = length e" "compiler_emitter_sink ee = Inr e" "em_size be = length b"
    "compiler_emitter_sink be = Inr b" "length e + length b + 6 < 256" "length e + length b + 6 \<le> page" "ready c page"
  shows "\<exists>c'. emit_loop fuel ee be c = Inr (0, c') \<and> grows c c' page (while_code e b) \<and> scope_env c' = scope_env c"
proof -
  have "length (while_code e b) \<le> page" using assms by (simp add: while_code_def)
  from emit_n_grows [OF assms(7) this, of fuel] show ?thesis
    unfolding emit_loop_code [OF assms(1-5)] by auto
qed

lemma elab_scope_none:
  "elab_scope cap page env [] = Some (env', code) \<longleftrightarrow> env' = env \<and> code = []"
  by auto

definition compiles :: "nat \<Rightarrow> (compiler \<Rightarrow> (int \<times> compiler) result) \<Rightarrow>
    nat \<Rightarrow> env \<Rightarrow> env \<Rightarrow> byte list \<Rightarrow> bool" where
  "compiles cap cf page env env' code \<longleftrightarrow>
     (\<forall>c. sc_vars_cap (c_scope c) = cap \<longrightarrow> scope_env c = env \<longrightarrow> ready c page \<longrightarrow>
        (\<exists>c'. cf c = Inr (0, c') \<and> grows c c' page code \<and> scope_env c' = env'))"

lemma compile_block:
  assumes "compiles cap (compile_scope fuel ss) 512 (\<Gamma>, 0, n, m) env' code"
    and "sc_vars_cap (c_scope c) = cap" "scope_env c = (\<Gamma>, k, n, m)"
  shows "\<exists>b. compile_scope fuel ss (enter_block stk c) = Inr (0, b) \<and> grows (enter_block stk c) b 512 code \<and>
    scope_env b = env'"
proof -
  have "compiler_slots c = \<Gamma>" using assms(3) by (simp add: scope_env_def)
  then show ?thesis
    using assms enter_block_facts [of stk c] by (simp add: compiles_def)
qed

text \<open>The two branches of a selection, compiled one after the other from the scope of the statement.\<close>

lemma compile_branches:
  assumes ts: "compiles cap (compile_scope fuel ts) 512 (\<Gamma>, 0, n, m) (\<Gamma>t, kt, nt, m1) t"
    and fs: "case fs of None \<Rightarrow> f = [] \<and> m2 = m1
      | Some ss \<Rightarrow> compiles cap (compile_scope fuel ss) 512 (\<Gamma>, 0, n, m1) (\<Gamma>f, kf, nf, m2) f"
    and c: "sc_vars_cap (c_scope c) = cap" "scope_env c = (\<Gamma>, k, n, m)"
  obtains bt bf where "compile_scope fuel ts (enter_block (sc_stack_size (c_scope c)) c) = Inr (0, bt)"
    "(case fs of None \<Rightarrow> Inr (0, enter_block (sc_stack_size (c_scope (leave_scope bt))) (leave_scope bt))
      | Some stats \<Rightarrow> compile_scope fuel stats (enter_block (sc_stack_size (c_scope (leave_scope bt))) (leave_scope bt))) =
     Inr (0, bf)"
    "em_wf (block_emitter bt)" "em_bytes (block_emitter bt) = t" "em_page_size (block_emitter bt) = 512"
    "em_size (block_emitter bf) = length f" "compiler_emitter_sink (block_emitter bf) = Inr f"
    "c_scope (leave_scope bf) = c_scope c" "c_parents (leave_scope bf) = c_parents c" "c_vm (leave_scope bf) = c_vm c"
    "scope_env (leave_scope bf) = (\<Gamma>, k, n, m2)"
proof -
  let ?s1 = "sc_stack_size (c_scope c)"
  obtain bt where bt: "compile_scope fuel ts (enter_block ?s1 c) = Inr (0, bt)" "grows (enter_block ?s1 c) bt 512 t"
    "scope_env bt = (\<Gamma>t, kt, nt, m1)"
    using compile_block [OF ts c] by blast
  note lt = leave_block [OF bt(2)]
  let ?c2 = "leave_scope bt"
  have r2: "sc_vars_cap (c_scope ?c2) = cap" "scope_env ?c2 = (\<Gamma>, k, n, m1)"
    using lt(1,9) c bt(3) by (simp_all add: scope_env_def)
  let ?s2 = "sc_stack_size (c_scope ?c2)"
  obtain bf where bf: "(case fs of None \<Rightarrow> Inr (0, enter_block ?s2 ?c2)
        | Some stats \<Rightarrow> compile_scope fuel stats (enter_block ?s2 ?c2)) = Inr (0, bf)"
    "grows (enter_block ?s2 ?c2) bf 512 f" "c_vars_max bf = m2"
  proof (cases fs)
    case None
    have "c_vars_max (enter_block ?s2 ?c2) = m1" using r2(2) by (simp add: scope_env_def enter_block_def enter_scope_def)
    with that [of "enter_block ?s2 ?c2"] None fs grows_refl [OF enter_block_facts(1)] show ?thesis by simp
  next
    case (Some ss)
    with fs have "compiles cap (compile_scope fuel ss) 512 (\<Gamma>, 0, n, m1) (\<Gamma>f, kf, nf, m2) f" by simp
    from compile_block [OF this r2] that Some show ?thesis by (auto simp: scope_env_def)
  qed
  note lf = leave_block [OF bf(2)]
  show ?thesis
    by (rule that [OF bt(1) bf(1) lt(6,5,7) lf(3,4)]) (use lt lf r2 bf(3) in \<open>simp_all add: scope_env_def\<close>)
qed

lemma compile_if:
  assumes ts: "compiles cap (compile_scope fuel ts) 512 (\<Gamma>, 0, n, m) (\<Gamma>t, kt, nt, m1) t"
    and fs: "case fs of None \<Rightarrow> f = [] \<and> m2 = m1
      | Some ss \<Rightarrow> compiles cap (compile_scope fuel ss) 512 (\<Gamma>, 0, n, m1) (\<Gamma>f, kf, nf, m2) f"
    and e: "type_of \<Gamma> e = Some TYPE_INT"
    and size: "length t + 3 < 256" "length f \<le> 65535" "length t + length f + 6 \<le> page" "5 \<le> page"
  shows "compiles cap (compile_statement fuel (Stat_If e ts fs)) page (\<Gamma>, k, n, m) (\<Gamma>, k, n, m2)
    (concat (code_of \<Gamma> e) @ if_code t f)"
  unfolding compiles_def
proof (intro allI impI)
  fix c assume c: "sc_vars_cap (c_scope c) = cap" "scope_env c = (\<Gamma>, k, n, m)" "ready c page"
  have G: "compiler_slots c = \<Gamma>" using c(2) by (simp add: scope_env_def)
  obtain c1 where c1: "compile_expression fuel e c = Inr (0, c1)" "grows c c1 page (concat (code_of \<Gamma> e))"
    "scope_env c1 = (\<Gamma>, k, n, m)"
    using compile_cond [of c e _ page fuel] e G c(2,3) size(4) by auto
  have r1: "ready c1 page" "sc_vars_cap (c_scope c1) = cap" using c1(2) c(1) by (simp_all add: grows_def)
  obtain bt bf where b: "compile_scope fuel ts (enter_block (sc_stack_size (c_scope c1)) c1) = Inr (0, bt)"
    "(case fs of None \<Rightarrow> Inr (0, enter_block (sc_stack_size (c_scope (leave_scope bt))) (leave_scope bt))
      | Some stats \<Rightarrow> compile_scope fuel stats (enter_block (sc_stack_size (c_scope (leave_scope bt))) (leave_scope bt))) =
     Inr (0, bf)"
    "em_wf (block_emitter bt)" "em_bytes (block_emitter bt) = t" "em_page_size (block_emitter bt) = 512"
    "em_size (block_emitter bf) = length f" "compiler_emitter_sink (block_emitter bf) = Inr f"
    "c_scope (leave_scope bf) = c_scope c1" "c_parents (leave_scope bf) = c_parents c1" "c_vm (leave_scope bf) = c_vm c1"
    "scope_env (leave_scope bf) = (\<Gamma>, k, n, m2)"
    by (rule compile_branches [OF ts fs r1(2) c1(3)])
  have g: "grows c1 (leave_scope bf) page []" by (rule grows_same [OF b(8-10) r1(1)])
  then have r3: "ready (leave_scope bf) page" by (simp add: grows_def)
  obtain c' where c': "emit_selection fuel (block_emitter bt) (block_emitter bf) (leave_scope bf) = Inr (0, c')"
    "grows (leave_scope bf) c' page (if_code t f)" "scope_env c' = scope_env (leave_scope bf)"
    using compile_selection [OF b(3-7) _ size(2,3) r3] size(1) by auto
  have "grows c c' page (concat (code_of \<Gamma> e) @ [] @ if_code t f)"
    by (rule grows_trans [OF c1(2) grows_trans [OF g c'(2)]])
  moreover have "compile_statement fuel (Stat_If e ts fs) c = Inr (0, c')"
    using c1(1) b(1,2) c'(1) by (cases fs) simp_all
  ultimately show "\<exists>c'. compile_statement fuel (Stat_If e ts fs) c = Inr (0, c') \<and>
      grows c c' page (concat (code_of \<Gamma> e) @ if_code t f) \<and> scope_env c' = (\<Gamma>, k, n, m2)"
    using c'(3) b(11) by auto
qed

text \<open>The condition and the body of a loop, each compiled into its own buffer.\<close>

lemma compile_loop_parts:
  assumes body: "compiles cap (compile_scope fuel body) 512 (\<Gamma>, 0, n, m) (\<Gamma>b, kb, nb, m1) b"
    and e: "type_of \<Gamma> e = Some TYPE_INT"
    and c: "sc_vars_cap (c_scope c) = cap" "scope_env c = (\<Gamma>, k, n, m)"
  obtains c1 bb c3 where
    "compile_expression fuel e (set_emitter (Buffered (compiler_emitter_buffered_new 256)) c) = Inr (0, c1)"
    "truncate_vars (length (sc_vars (c_scope c))) c1 = c1" "compile_scope fuel body (enter_block 0 c1) = Inr (0, bb)"
    "em_size (block_emitter (leave_scope bb)) = length (concat (code_of \<Gamma> e))"
    "compiler_emitter_sink (block_emitter (leave_scope bb)) = Inr (concat (code_of \<Gamma> e))"
    "em_size (block_emitter bb) = length b" "compiler_emitter_sink (block_emitter bb) = Inr b"
    "c3 = set_emitter (sc_emitter (c_scope c)) (leave_scope bb)"
    "scope_env c3 = (\<Gamma>, k, n, m1)" "sc_emitter (c_scope c3) = sc_emitter (c_scope c)"
    "sc_vars_off (c_scope c3) = sc_vars_off (c_scope c)" "sc_vars_cap (c_scope c3) = sc_vars_cap (c_scope c)"
    "sc_is_function_scope (c_scope c3) = sc_is_function_scope (c_scope c)" "c_parents c3 = c_parents c"
    "c_vm c3 = c_vm c"
proof -
  let ?code = "concat (code_of \<Gamma> e)" and ?c0 = "set_emitter (Buffered (compiler_emitter_buffered_new 256)) c"
  have G: "compiler_slots c = \<Gamma>" using c(2) by (simp add: scope_env_def)
  have r0: "ready ?c0 256" by (simp add: ready_def em_wf_def compiler_emitter_buffered_new_def)
  have e0: "emitted ?c0 = []" by (simp add: emitted_def block_emitter_def)
  obtain c1 where c1: "compile_expression fuel e ?c0 = Inr (0, c1)" "grows ?c0 c1 256 ?code" "scope_env c1 = (\<Gamma>, k, n, m)"
    using compile_cond [of ?c0 e _ 256 fuel] e G c(2) r0 by auto
  have k: "truncate_vars (length (sc_vars (c_scope c))) c1 = c1"
    using truncate_vars_id [of c1] c1(3) c(2) by (simp add: scope_env_def)
  have r1: "sc_vars_cap (c_scope c1) = cap" using c1(2) c(1) by (simp_all add: grows_def)
  obtain bb where bb: "compile_scope fuel body (enter_block 0 c1) = Inr (0, bb)" "grows (enter_block 0 c1) bb 512 b"
    "c_vars_max bb = m1"
    using compile_block [OF body r1 c1(3)] by (auto simp: scope_env_def)
  note lb = leave_block [OF bb(2)]
  obtain ee where ee: "sc_emitter (c_scope (leave_scope bb)) = Buffered ee" "em_wf ee" "em_bytes ee = ?code"
    using c1(2) e0 lb(1) by (auto simp: grows_def ready_def emitted_def block_emitter_def)
  have ee': "block_emitter (leave_scope bb) = ee" "em_size ee = length ?code" "compiler_emitter_sink ee = Inr ?code"
    using ee em_bytes_length [OF ee(2)] compiler_emitter_sink_wf [OF ee(2)] by (simp_all add: block_emitter_def)
  show ?thesis
  proof (rule that [OF c1(1) k bb(1) _ _ lb(3,4) refl])
    show "scope_env (set_emitter (sc_emitter (c_scope c)) (leave_scope bb)) = (\<Gamma>, k, n, m1)"
      using lb(9) c1(3) bb(3) by (simp add: scope_env_def)
  qed (use ee' lb c1(2) in \<open>simp_all add: grows_def\<close>)
qed

lemma compile_while:
  assumes body: "compiles cap (compile_scope fuel body) 512 (\<Gamma>, 0, n, m) (\<Gamma>b, kb, nb, m1) b"
    and e: "type_of \<Gamma> e = Some TYPE_INT"
    and size: "length (concat (code_of \<Gamma> e)) + length b + 6 < 256"
      "length (concat (code_of \<Gamma> e)) + length b + 6 \<le> page"
  shows "compiles cap (compile_statement fuel (Stat_While e body)) page (\<Gamma>, k, n, m) (\<Gamma>, k, n, m1)
    (while_code (concat (code_of \<Gamma> e)) b)"
  unfolding compiles_def
proof (intro allI impI)
  fix c assume c: "sc_vars_cap (c_scope c) = cap" "scope_env c = (\<Gamma>, k, n, m)" "ready c page"
  let ?code = "concat (code_of \<Gamma> e)"
  obtain c1 bb c3 where p:
    "compile_expression fuel e (set_emitter (Buffered (compiler_emitter_buffered_new 256)) c) = Inr (0, c1)"
    "truncate_vars (length (sc_vars (c_scope c))) c1 = c1" "compile_scope fuel body (enter_block 0 c1) = Inr (0, bb)"
    "em_size (block_emitter (leave_scope bb)) = length ?code" "compiler_emitter_sink (block_emitter (leave_scope bb)) = Inr ?code"
    "em_size (block_emitter bb) = length b" "compiler_emitter_sink (block_emitter bb) = Inr b"
    "c3 = set_emitter (sc_emitter (c_scope c)) (leave_scope bb)"
    "scope_env c3 = (\<Gamma>, k, n, m1)" "sc_emitter (c_scope c3) = sc_emitter (c_scope c)"
    "sc_vars_off (c_scope c3) = sc_vars_off (c_scope c)" "sc_vars_cap (c_scope c3) = sc_vars_cap (c_scope c)"
    "sc_is_function_scope (c_scope c3) = sc_is_function_scope (c_scope c)" "c_parents c3 = c_parents c"
    "c_vm c3 = c_vm c" by (rule compile_loop_parts [OF body e c(1,2)])
  have g3: "grows c c3 page []"
    using c(3) p by (simp add: grows_def ready_def emitted_def block_emitter_def)
  then have r3: "ready c3 page" by (simp add: grows_def)
  obtain c' where c': "emit_loop fuel (block_emitter (leave_scope bb)) (block_emitter bb) c3 = Inr (0, c')"
    "grows c3 c' page (while_code ?code b)" "scope_env c' = (\<Gamma>, k, n, m1)"
    using compile_loop [OF p(4-7) size r3] p(9) by auto
  have "compile_statement fuel (Stat_While e body) c = Inr (0, c')"
    using p(1-3) c'(1) p(8) by simp
  then show "\<exists>c'. compile_statement fuel (Stat_While e body) c = Inr (0, c') \<and>
      grows c c' page (while_code ?code b) \<and> scope_env c' = (\<Gamma>, k, n, m1)"
    using c' grows_trans [OF g3 c'(2)] by auto
qed

lemma elab_Stat_Expr:
  "elab_stat cap page env (Stat_Expr e) = Some (env', code) \<Longrightarrow>
   \<exists>x r chunks. e = Binary_Op TYPE_UNKNWN ASSIGNMENT (Ident TYPE_UNKNWN x) r \<and>
     elab_assign cap env x r = Some (env', chunks) \<and> code = concat chunks"
  by (auto split: expr.splits if_splits)

theorem elab_compiles:
  "elab_stat cap page env s = Some (env', code) \<Longrightarrow> 5 \<le> page \<Longrightarrow>
    compiles cap (compile_statement fuel s) page env env' code"
  "elab_scope cap page env ss = Some (env', code) \<Longrightarrow> 5 \<le> page \<Longrightarrow>
    compiles cap (compile_scope fuel ss) page env env' code"
proof (induction cap page env s and cap page env ss arbitrary: env' code and env' code
    rule: elab_stat_elab_scope.induct)
  case (1 cap page env e)
  then obtain x r chunks where x: "e = Binary_Op TYPE_UNKNWN ASSIGNMENT (Ident TYPE_UNKNWN x) r"
    "elab_assign cap env x r = Some (env', chunks)" "code = concat chunks" using elab_Stat_Expr by blast
  show ?case unfolding compiles_def x(1,3) using x(2) 1(2) compile_assign by blast
next
  case (2 cap page \<Gamma> k n m e ts fs)
  have five: "5 \<le> (512::nat)" by simp
  obtain \<Gamma>t kt nt m1 t \<Gamma>f kf nf m2 f where tf: "elab_scope cap 512 (\<Gamma>, 0, n, m) ts = Some ((\<Gamma>t, kt, nt, m1), t)"
    "(case fs of None \<Rightarrow> Some ((\<Gamma>, 0, n, m1), []) | Some fs \<Rightarrow> elab_scope cap 512 (\<Gamma>, 0, n, m1) fs) =
      Some ((\<Gamma>f, kf, nf, m2), f)"
    "type_of \<Gamma> e = Some TYPE_INT" "length t + 3 < 256" "length f \<le> 65535" "length t + length f + 6 \<le> page"
    "env' = (\<Gamma>, k, n, m2)" "code = concat (code_of \<Gamma> e) @ if_code t f"
    using "2.prems"(1) by (simp split: option.splits if_splits prod.splits)
  have "case fs of None \<Rightarrow> f = [] \<and> m2 = m1
      | Some ss \<Rightarrow> compiles cap (compile_scope fuel ss) 512 (\<Gamma>, 0, n, m1) (\<Gamma>f, kf, nf, m2) f"
  proof (cases fs)
    case None with tf(2) show ?thesis by simp
  next
    case (Some ss)
    with tf(2) have "elab_scope cap 512 (\<Gamma>, 0, n, m1) ss = Some ((\<Gamma>f, kf, nf, m2), f)" by simp
    from "2.IH"(2) [OF tf(1) _ _ _ _ Some this five] Some show ?thesis by simp
  qed
  then show ?case
    unfolding tf(7,8) by (rule compile_if [OF "2.IH"(1) [OF tf(1) five] _ tf(3-6) "2.prems"(2)])
next
  case (3 cap page \<Gamma> k n m e body)
  have five: "5 \<le> (512::nat)" by simp
  obtain \<Gamma>b kb nb m1 b where b: "elab_scope cap 512 (\<Gamma>, 0, n, m) body = Some ((\<Gamma>b, kb, nb, m1), b)"
    "type_of \<Gamma> e = Some TYPE_INT"
    "length (concat (code_of \<Gamma> e)) + length b + 6 < 256" "length (concat (code_of \<Gamma> e)) + length b + 6 \<le> page"
    "env' = (\<Gamma>, k, n, m1)" "code = while_code (concat (code_of \<Gamma> e)) b"
    using "3.prems"(1) by (simp split: option.splits if_splits prod.splits)
  from compile_while [OF "3.IH" [OF b(1) five] b(2-4)] show ?case unfolding b(5,6) .
next
  case (6 cap page env s ss)
  obtain env1 a env2 b where ab: "elab_stat cap page env s = Some (env1, a)" "elab_scope cap page env1 ss = Some (env2, b)"
    "env' = env2" "code = a @ b" using "6.prems"(1) by (simp split: option.splits prod.splits)
  have s: "compiles cap (compile_statement fuel s) page env env1 a" using "6.IH"(1) ab(1) "6.prems"(2) by blast
  have ss: "compiles cap (compile_scope fuel ss) page env1 env2 b" using "6.IH"(2) ab(1,2) "6.prems"(2) by blast
  show ?case unfolding compiles_def ab(3,4)
  proof (intro allI impI)
    fix c assume c: "sc_vars_cap (c_scope c) = cap" "scope_env c = env" "ready c page"
    obtain c1 where c1: "compile_statement fuel s c = Inr (0, c1)" "grows c c1 page a" "scope_env c1 = env1"
      using s c by (auto simp: compiles_def)
    have "sc_vars_cap (c_scope c1) = cap" "ready c1 page" using c1(2) c(1) by (simp_all add: grows_def)
    then obtain c2 where c2: "compile_scope fuel ss c1 = Inr (0, c2)" "grows c1 c2 page b" "scope_env c2 = env2"
      using ss c1(3) by (auto simp: compiles_def)
    show "\<exists>c'. compile_scope fuel (s # ss) c = Inr (0, c') \<and> grows c c' page (a @ b) \<and> scope_env c' = env2"
      using c1 c2 grows_trans by auto
  qed
qed (auto simp: compiles_def intro: grows_refl)

end
