(* ===== verification/Stat_Exec.thy ===== *)
theory Stat_Exec
  imports Stat_Correct
begin

text \<open>
  Running the code of statements: from a machine state that holds the variables of a store, the
  code of a statement runs from its first byte to behind its last one and leaves the state that
  holds the store the semantics gives.
\<close>

subsection \<open>Stores and local variables\<close>

definition slots_ok :: "slots \<Rightarrow> nat \<Rightarrow> bool" where
  "slots_ok \<Gamma> n \<longleftrightarrow>
     (\<forall>x t s. \<Gamma> x = Some (t, s) \<longrightarrow> (t = TYPE_INT \<or> t = TYPE_FLOAT) \<and> unat s < n) \<and>
     (\<forall>x y t t' s. \<Gamma> x = Some (t, s) \<longrightarrow> \<Gamma> y = Some (t', s) \<longrightarrow> x = y)"

definition holds :: "slots \<Rightarrow> nat \<Rightarrow> store \<Rightarrow> i32 option list \<Rightarrow> bool" where
  "holds \<Gamma> n \<rho> lcs \<longleftrightarrow> slots_ok \<Gamma> n \<and> \<rho> = machine_env \<Gamma> lcs \<and> dom \<rho> = dom \<Gamma>"

lemma slots_okD:
  "slots_ok \<Gamma> n \<Longrightarrow> \<Gamma> x = Some (t, s) \<Longrightarrow> (t = TYPE_INT \<or> t = TYPE_FLOAT) \<and> unat s < n"
  "slots_ok \<Gamma> n \<Longrightarrow> \<Gamma> x = Some (t, s) \<Longrightarrow> \<Gamma> y = Some (t', s) \<Longrightarrow> x = y"
  unfolding slots_ok_def by blast+

lemma slots_ok_mono: "slots_ok \<Gamma> n \<Longrightarrow> n \<le> n' \<Longrightarrow> slots_ok \<Gamma> n'"
  unfolding slots_ok_def by (meson order_less_le_trans)

lemma slots_ok_new:
  assumes "slots_ok \<Gamma> n" "n < 256" "t = TYPE_INT \<or> t = TYPE_FLOAT"
  shows "slots_ok (\<Gamma>(x \<mapsto> (t, word_of_nat n))) (Suc n)"
proof -
  have n: "unat (word_of_nat n :: byte) = n" using assms(2) by (simp add: unat_of_nat)
  have lt: "unat s < n" if "\<Gamma> y = Some (u, s)" for y u s using slots_okD(1) [OF assms(1) that] by simp
  then have ne: "s \<noteq> word_of_nat n" if "\<Gamma> y = Some (u, s)" for y u s using that n by (metis nat_neq_iff)
  show ?thesis
    unfolding slots_ok_def
  proof (intro conjI allI impI, goal_cases)
    case (1 y u s)
    then show ?case using slots_okD(1) [OF assms(1), of y u s] assms(3) by (simp split: if_splits)
  next
    case (2 y u s)
    then show ?case using lt [of y u s] n by (simp split: if_splits)
  next
    case (3 y z u u' s)
    then show ?case using ne slots_okD(2) [OF assms(1), of y u s z u'] by (simp split: if_splits) metis+
  qed
qed

lemma machine_env_update_other:
  "\<Gamma> y = Some (t, s) \<Longrightarrow> unat s \<noteq> i \<Longrightarrow> machine_env \<Gamma> (lcs[i := v]) y = machine_env \<Gamma> lcs y"
  by (simp add: machine_env_def)

lemma machine_env_update_same:
  "\<Gamma> y = Some (t, s) \<Longrightarrow> unat s < length lcs \<Longrightarrow>
   machine_env \<Gamma> (lcs[unat s := Some w]) y = Some (if t = TYPE_FLOAT then Float_Val w else Int_Val w)"
  by (simp add: machine_env_def)

lemma val_of_word: "val_type v = t \<Longrightarrow> (if t = TYPE_FLOAT then Float_Val (val_word v) else Int_Val (val_word v)) = v"
  by (cases v) auto

text \<open>Storing the value of a variable in its slot.\<close>

lemma holds_store:
  assumes h: "slots_ok \<Gamma> n" "\<Gamma> x = Some (t, s)" "val_type v = t" "unat s < length lcs"
    and others: "\<And>y. y \<noteq> x \<Longrightarrow> \<rho> y = machine_env \<Gamma> lcs y" "dom \<Gamma> - {x} \<subseteq> dom \<rho>"
  shows "holds \<Gamma> n (\<rho>(x \<mapsto> v)) (lcs[unat s := Some (val_word v)])"
proof -
  have same: "machine_env \<Gamma> (lcs[unat s := Some (val_word v)]) x = Some v"
    using machine_env_update_same [of \<Gamma> x t s lcs "val_word v"] h val_of_word by simp
  have other: "machine_env \<Gamma> (lcs[unat s := w]) y = \<rho> y" if "y \<noteq> x" for y w
  proof (cases "\<Gamma> y")
    case None then show ?thesis using others(1) [OF that] by (simp add: machine_env_def)
  next
    case (Some p)
    obtain u s' where p: "p = (u, s')" by (cases p)
    have "s' \<noteq> s" using slots_okD(2) [OF h(1,2), of y u] Some p that by blast
    then have "unat s' \<noteq> unat s" using word_unat_eq_iff by blast
    with machine_env_update_other Some p show ?thesis using others(1) [OF that] by metis
  qed
  have "\<rho>(x \<mapsto> v) = machine_env \<Gamma> (lcs[unat s := Some (val_word v)])"
    using same other by (intro ext) auto
  moreover have "dom (\<rho>(x \<mapsto> v)) = dom \<Gamma>"
  proof -
    have "y \<in> dom \<Gamma>" if "y \<in> dom \<rho> - {x}" for y
      using that others(1) [of y] by (cases "\<Gamma> y") (auto simp: machine_env_def)
    then have "dom \<rho> - {x} \<subseteq> dom \<Gamma>" by (rule subsetI)
    moreover have "x \<in> dom \<Gamma>" using h(2) by blast
    ultimately have "insert x (dom \<rho>) = dom \<Gamma>" using others(2) by blast
    then show ?thesis by simp
  qed
  ultimately show ?thesis using h(1) by (simp add: holds_def)
qed

lemma holds_restrict:
  assumes "holds \<Gamma>' n' \<rho>' lcs" "\<Gamma> \<subseteq>\<^sub>m \<Gamma>'" "slots_ok \<Gamma> n" "dom \<rho> = dom \<Gamma>"
  shows "holds \<Gamma> n (\<rho>' |` dom \<rho>) lcs"
proof -
  have "\<Gamma>' x = \<Gamma> x" if "x \<in> dom \<Gamma>" for x using that assms(2) by (simp add: map_le_def)
  then have "machine_env \<Gamma>' lcs x = machine_env \<Gamma> lcs x" if "x \<in> dom \<Gamma>" for x
    using that by (simp add: machine_env_def)
  moreover have "machine_env \<Gamma> lcs x = None" if "x \<notin> dom \<Gamma>" for x
    using that by (cases "\<Gamma> x") (auto simp: machine_env_def)
  ultimately have "\<rho>' |` dom \<rho> = machine_env \<Gamma> lcs"
    using assms(1,4) by (intro ext) (auto simp: holds_def restrict_map_def)
  moreover have "dom \<rho>' = dom \<Gamma>'" using assms(1) unfolding holds_def by blast
  then have "dom (\<rho>' |` dom \<rho>) = dom \<Gamma>"
    using assms(4) map_le_implies_dom_le [OF assms(2)] unfolding dom_restrict by blast
  ultimately show ?thesis using assms(3) by (simp add: holds_def)
qed

subsection \<open>What elaboration does to the variables\<close>

definition env_grows :: "env \<Rightarrow> env \<Rightarrow> bool" where
  "env_grows e e' = (case (e, e') of ((\<Gamma>, k, n, m), (\<Gamma>', k', n', m')) \<Rightarrow>
     \<Gamma> \<subseteq>\<^sub>m \<Gamma>' \<and> n \<le> n' \<and> m \<le> m' \<and> (n \<le> m \<longrightarrow> n' \<le> m') \<and> (slots_ok \<Gamma> n \<longrightarrow> slots_ok \<Gamma>' n'))"

lemma env_grows_refl [simp]: "env_grows e e"
  by (simp add: env_grows_def split: prod.split)

lemma env_grows_trans: "env_grows a b \<Longrightarrow> env_grows b c \<Longrightarrow> env_grows a c"
  by (auto simp: env_grows_def intro: map_le_trans split: prod.splits)

lemma env_grows_assign:
  assumes "elab_assign cap env x e = Some (env', chunks)"
  shows "env_grows env env'"
proof -
  obtain \<Gamma> k n m where env: "env = (\<Gamma>, k, n, m)" by (cases env)
  obtain t where t: "type_of \<Gamma> e = Some t" using assms env by (auto split: option.splits)
  then have tt: "t = TYPE_INT \<or> t = TYPE_FLOAT" using type_of_range by blast
  show ?thesis
    using assms t tt env
    by (auto simp: env_grows_def map_le_new slots_ok_new split: option.splits if_splits)
qed

lemma elab_grows:
  "elab_stat cap page env s = Some (env', code) \<Longrightarrow> env_grows env env'"
  "elab_scope cap page env ss = Some (env', code) \<Longrightarrow> env_grows env env'"
proof (induction cap page env s and cap page env ss arbitrary: env' code and env' code
    rule: elab_stat_elab_scope.induct)
  case (1 cap page env e)
  then show ?case using elab_Stat_Expr env_grows_assign by blast
next
  case (2 cap page \<Gamma> k n m e ts fs)
  obtain \<Gamma>t kt nt m1 t \<Gamma>f kf nf m2 f where tf: "elab_scope cap 512 (\<Gamma>, 0, n, m) ts = Some ((\<Gamma>t, kt, nt, m1), t)"
    "(case fs of None \<Rightarrow> Some ((\<Gamma>, 0, n, m1), []) | Some fs \<Rightarrow> elab_scope cap 512 (\<Gamma>, 0, n, m1) fs) =
      Some ((\<Gamma>f, kf, nf, m2), f)" "env' = (\<Gamma>, k, n, m2)"
    using "2.prems"(1) by (simp split: option.splits if_splits prod.splits)
  have "m \<le> m1" using "2.IH"(1) [OF tf(1)] by (simp add: env_grows_def)
  moreover have "m1 \<le> m2"
  proof (cases fs)
    case None with tf(2) show ?thesis by simp
  next
    case (Some ss)
    with tf(2) have "elab_scope cap 512 (\<Gamma>, 0, n, m1) ss = Some ((\<Gamma>f, kf, nf, m2), f)" by simp
    from "2.IH"(2) [OF tf(1) _ _ _ _ Some this] Some show ?thesis by (simp add: env_grows_def)
  qed
  ultimately show ?case using tf(3) by (simp add: env_grows_def)
next
  case (3 cap page \<Gamma> k n m e body)
  then obtain \<Gamma>b kb nb m1 b where b: "elab_scope cap 512 (\<Gamma>, 0, n, m) body = Some ((\<Gamma>b, kb, nb, m1), b)"
    "env' = (\<Gamma>, k, n, m1)"
    by (simp split: option.splits if_splits prod.splits)
  from "3.IH" [OF b(1)] show ?case using b(2) by (simp add: env_grows_def)
next
  case (6 cap page env s ss)
  then show ?case by (auto split: option.splits prod.splits intro: env_grows_trans)
qed auto

subsection \<open>Jumps and stores\<close>

lemma step_instr:
  assumes "opcode \<noteq> OPCODE_CALL"
    and "opcode_execute_funcs opcode (current_frame st) operands =
      Inr (res, (current_frame st)\<lparr>stack := stk, locals := lcs\<rparr>)"
  shows "vm_step (pre @ (opcode # operands) @ post) (int (length pre), st)
     (int (length pre) + res, set_frame st stk lcs res)"
proof -
  let ?st = "st\<lparr>current_frame := (current_frame st)\<lparr>stack := stk, locals := lcs\<rparr>\<rparr>"
  have "vm_dispatch (vm_execute_opcodes 0) opcode operands st = Inr (res, ?st)"
    using assms by (simp add: vm_dispatch_def)
  then have "vm_step (opcode # operands) (0, st) (0 + res, advance_frame res ?st)"
    by (intro vm_step) simp_all
  moreover have "advance_frame res ?st = set_frame st stk lcs res"
    by (simp add: advance_frame_def set_frame_def)
  ultimately show ?thesis using vm_step_embed [of "opcode # operands" 0 st res _ pre post] by simp
qed

lemma be16_jump: "n < 256 \<Longrightarrow> be16_val 0 (jump_lo n) = n"
  by (simp add: be16_val_def jump_lo_def unat_of_nat)

lemma step_jez:
  assumes "n < 256"
  shows "vm_step (pre @ [OPCODE_JEZ, jump_hi n, jump_lo n] @ post)
     (int (length pre), set_frame st (w # stk) lcs i)
     (int (length pre) + (3 + (if w = 0 then int n else 0)), set_frame st stk lcs (i + (3 + (if w = 0 then int n else 0))))"
proof -
  let ?st = "set_frame st (w # stk) lcs i"
  have "opcode_execute_funcs OPCODE_JEZ (current_frame ?st) [jump_hi n, jump_lo n] =
      Inr (3 + (if w = 0 then int n else 0), (current_frame ?st)\<lparr>stack := stk, locals := lcs\<rparr>)"
    using assms by (simp add: vm_execute_opcode_jez_def jmp_offset_def be16_jump pop_word_def set_frame_def)
  from step_instr [OF not_call(6) this, of pre post] show ?thesis by simp
qed

lemma step_jmp:
  assumes "n \<le> 65535"
  shows "vm_step (pre @ (OPCODE_JMP # be16_bytes n) @ post)
     (int (length pre), set_frame st stk lcs i) (int (length pre) + (3 + int n), set_frame st stk lcs (i + (3 + int n)))"
proof -
  let ?st = "set_frame st stk lcs i"
  have "opcode_execute_funcs OPCODE_JMP (current_frame ?st) (be16_bytes n) =
      Inr (3 + int n, (current_frame ?st)\<lparr>stack := stk, locals := lcs\<rparr>)"
    using assms be16_val_bytes [of n]
    by (simp add: vm_execute_opcode_jmp_def jmp_offset_def be16_bytes_def set_frame_def)
  from step_instr [OF not_call(7) this, of pre post] show ?thesis by simp
qed

lemma step_rjmp:
  assumes "n < 256"
  shows "vm_step (pre @ [OPCODE_RJMP, jump_hi n, jump_lo n] @ post)
     (int (length pre), set_frame st stk lcs i) (int (length pre) + (3 - int n), set_frame st stk lcs (i + (3 - int n)))"
proof -
  let ?st = "set_frame st stk lcs i"
  have "opcode_execute_funcs OPCODE_RJMP (current_frame ?st) [jump_hi n, jump_lo n] =
      Inr (3 - int n, (current_frame ?st)\<lparr>stack := stk, locals := lcs\<rparr>)"
    using assms by (simp add: vm_execute_opcode_rjmp_def jmp_offset_def be16_jump set_frame_def)
  from step_instr [OF not_call(8) this, of pre post] show ?thesis by simp
qed

lemma exec_save:
  assumes "t = TYPE_INT \<or> t = TYPE_FLOAT" "unat slot < length lcs"
  shows "exec_block [OPCODE_SAVE t, slot] (set_frame st (v # stk) lcs n)
     (set_frame st stk (lcs[unat slot := Some v]) (n + 2))"
proof -
  let ?st = "set_frame st (v # stk) lcs n"
  have "opcode_execute_funcs (OPCODE_SAVE t) (current_frame ?st) [slot] =
      Inr (int (length [slot]) + 1, (current_frame ?st)\<lparr>stack := stk, locals := lcs[unat slot := Some v]\<rparr>)"
    using assms by (auto simp: OPCODE_SAVE_def handler_defs local_save_def pop_word_def set_frame_def)
  from exec_instr [OF not_call(5) [OF assms(1)] this] show ?thesis by (simp add: add.commute)
qed


subsection \<open>Assignments\<close>

lemma holds_slot:
  assumes "holds \<Gamma> n \<rho> lcs" "\<Gamma> x = Some (t, s)"
  shows "unat s < length lcs" "\<exists>w. \<rho> x = Some w \<and> val_type w = t"
proof -
  have h: "\<rho> = machine_env \<Gamma> lcs" "dom \<rho> = dom \<Gamma>" "slots_ok \<Gamma> n" using assms(1) unfolding holds_def by blast+
  have "x \<in> dom \<rho>" using assms(2) h(2) by blast
  then obtain w where w: "\<rho> x = Some w" by blast
  with h(1) assms(2) show "unat s < length lcs" by (auto simp: machine_env_def split: if_splits)
  have "type_of \<Gamma> (Ident 0 x) = Some t" using assms(2) slots_okD(1) [OF h(3) assms(2)] by auto
  then show "\<exists>w. \<rho> x = Some w \<and> val_type w = t" using w h(1) machine_env_type by blast
qed

lemma exec_assign:
  assumes elab: "elab_assign cap (\<Gamma>, k, n, m) x e = Some ((\<Gamma>', k', n', m'), chunks)"
    and h: "holds \<Gamma> n \<rho> lcs" and v: "eval \<rho> e = Some v"
    and v': "case \<rho> x of None \<Rightarrow> v' = v | Some w \<Rightarrow> convert (val_type w) v = Some v'"
    and room: "m' \<le> length lcs" "4 * (length stk + expr_depth e) \<le> stack_cap (current_frame st)"
  shows "\<exists>lcs'. exec_chunks chunks (set_frame st stk lcs i) (set_frame st stk lcs' (i + int (length (concat chunks)))) \<and>
    holds \<Gamma>' n' (\<rho>(x \<mapsto> v')) lcs' \<and> length lcs' = length lcs"
proof -
  have rho: "\<rho> = machine_env \<Gamma> lcs" "dom \<rho> = dom \<Gamma>" "slots_ok \<Gamma> n" using h unfolding holds_def by blast+
  obtain t where t: "type_of \<Gamma> e = Some t" using elab by (auto split: option.splits)
  have tt: "t = TYPE_INT \<or> t = TYPE_FLOAT" using type_of_range [OF t] .
  have vt: "val_type v = t" using eval_type [OF t] v rho(1) by blast
  let ?c = "code_of \<Gamma> e" and ?len = "\<lambda>bs. int (length (concat bs))"
  have run: "exec_chunks ?c (set_frame st stk lcs i) (set_frame st (val_word v # stk) lcs (i + ?len ?c))"
    using exec_expression [OF t _ room(2), of lcs v i] v rho(1) by simp
  have others: "\<rho> y = machine_env \<Gamma>' lcs y" if "y \<noteq> x" for y
    using elab t rho(1) that by (auto simp: machine_env_def split: option.splits if_splits)
  have dom: "dom \<Gamma>' - {x} \<subseteq> dom \<rho>" using elab t rho(2) by (auto split: option.splits if_splits)
  have ok: "slots_ok \<Gamma>' n'" using env_grows_assign [OF elab] rho(3) by (simp add: env_grows_def)
  obtain slot cast t' where s: "\<Gamma>' x = Some (t', slot)" "val_type v' = t'" "unat slot < length lcs"
    "chunks = ?c @ cast @ [[OPCODE_SAVE t', slot]]" "t' = TYPE_INT \<or> t' = TYPE_FLOAT"
    "exec_chunks cast (set_frame st (val_word v # stk) lcs (i + ?len ?c))
      (set_frame st (val_word v' # stk) lcs (i + ?len ?c + ?len cast))"
  proof (cases "\<Gamma> x")
    case None
    then have "v' = v" using v' rho(2) by (auto split: option.splits)
    moreover have "n < 256" "Suc n \<le> length lcs" "\<Gamma>' = \<Gamma>(x \<mapsto> (t, word_of_nat n))"
      "chunks = ?c @ [[OPCODE_SAVE t, word_of_nat n]]"
      using elab t None room(1) by (auto split: if_splits)
    ultimately show ?thesis using that [of t "word_of_nat n" "[]"] vt tt by (simp add: unat_of_nat)
  next
    case (Some p)
    obtain t' slot where p: "p = (t', slot)" by (cases p)
    have g: "\<Gamma> x = Some (t', slot)" using Some p by simp
    obtain w where w: "\<rho> x = Some w" "val_type w = t'" using holds_slot(2) [OF h g] by blast
    have l: "unat slot < length lcs" using holds_slot(1) [OF h g] .
    have c: "convert t' v = Some v'" using v' w by simp
    have tt': "t' = TYPE_INT \<or> t' = TYPE_FLOAT" using slots_okD(1) [OF rho(3) g] by simp
    show ?thesis
    proof (cases "t' = t")
      case True
      then have "v' = v" "\<Gamma>' = \<Gamma>" "chunks = ?c @ [[OPCODE_SAVE t', slot]]"
        using c vt elab t g by (auto simp: convert_def)
      with that [of t' slot "[]"] True vt g l tt show ?thesis by simp
    next
      case False
      then have f: "t' = TYPE_FLOAT" "t = TYPE_INT" "\<Gamma>' = \<Gamma>" "chunks = ?c @ [[OPCODE_I2F], [OPCODE_FSAVE, slot]]"
        using elab t g by (auto split: if_splits)
      obtain a where a: "v = Int_Val a" using vt f(2) by (cases v) auto
      have "v' = Float_Val (f32_of_int (sint a))" using c f(1) a by (auto simp: convert_def to_float_def)
      then show ?thesis
        using that [of t' slot "[[OPCODE_I2F]]"] exec_i2f [of st a stk lcs "i + ?len ?c"] g l f a
        by (simp add: OPCODE_SAVE_def)
    qed
  qed
  let ?lcs = "lcs[unat slot := Some (val_word v')]"
  have save: "exec_chunks [[OPCODE_SAVE t', slot]] (set_frame st (val_word v' # stk) lcs (i + ?len ?c + ?len cast))
      (set_frame st stk ?lcs (i + ?len ?c + ?len cast + 2))"
    unfolding exec_chunks_single by (rule exec_save [OF s(5,3)])
  have "exec_chunks (?c @ cast @ [[OPCODE_SAVE t', slot]]) (set_frame st stk lcs i)
      (set_frame st stk ?lcs (i + ?len ?c + ?len cast + 2))"
    by (rule exec_chunks_append [OF run exec_chunks_append [OF s(6) save]])
  then have "exec_chunks chunks (set_frame st stk lcs i) (set_frame st stk ?lcs (i + ?len chunks))"
    using s(4) by (simp add: ac_simps)
  moreover have "holds \<Gamma>' n' (\<rho>(x \<mapsto> v')) ?lcs" using holds_store [OF ok s(1-3)] others dom by blast
  ultimately show ?thesis by (intro exI [of _ ?lcs]) simp
qed


subsection \<open>Selections and loops\<close>

lemma block_steps:
  assumes "exec_block c st st'"
  shows "vm_steps (pre @ c @ post) (int (length pre), st) (int (length pre + length c), st')"
  using exec_block_at [OF assms] by simp

lemma exec_selection:
  assumes size: "length t + 3 < 256" "length f \<le> 65535"
    and arm: "if w = 0
      then exec_block f (set_frame st stk lcs (i + int (length t + 6)))
             (set_frame st stk lcs' (i + int (length t + 6 + length f)))
      else exec_block t (set_frame st stk lcs (i + 3)) (set_frame st stk lcs' (i + int (3 + length t)))"
  shows "exec_block (if_code t f) (set_frame st (w # stk) lcs i)
    (set_frame st stk lcs' (i + int (length (if_code t f))))"
proof -
  let ?jez = "[OPCODE_JEZ, jump_hi (length t + 3), jump_lo (length t + 3)]" and ?jmp = "OPCODE_JMP # be16_bytes (length f)"
  let ?C = "?jez @ t @ ?jmp @ f"
  have C: "if_code t f = ?C" by (simp add: if_code_def)
  note jez = step_jez [OF size(1), of "[]" "t @ ?jmp @ f" st w stk lcs i]
  show ?thesis
  proof (cases "w = 0")
    case True
    have 1: "vm_step ?C (0, set_frame st (w # stk) lcs i) (int (length t + 6), set_frame st stk lcs (i + int (length t + 6)))"
      using jez True by (simp add: ac_simps)
    have "vm_steps ?C (int (length t + 6), set_frame st stk lcs (i + int (length t + 6)))
        (int (length ?C), set_frame st stk lcs' (i + int (length ?C)))"
      using block_steps [of f _ _ "?jez @ t @ ?jmp" "[]"] arm True by (simp add: ac_simps)
    with 1 show ?thesis
      unfolding exec_block_def C by (meson converse_rtranclp_into_rtranclp)
  next
    case False
    have 1: "vm_step ?C (0, set_frame st (w # stk) lcs i) (3, set_frame st stk lcs (i + 3))"
      using jez False by (simp add: ac_simps)
    have 2: "vm_steps ?C (3, set_frame st stk lcs (i + 3)) (int (3 + length t), set_frame st stk lcs' (i + int (3 + length t)))"
      using block_steps [of t _ _ "?jez" "?jmp @ f"] arm False by (simp add: ac_simps)
    have 3: "vm_step ?C (int (3 + length t), set_frame st stk lcs' (i + int (3 + length t)))
        (int (length ?C), set_frame st stk lcs' (i + int (length ?C)))"
      using step_jmp [OF size(2), of "?jez @ t" f st stk lcs' "i + int (3 + length t)"]
      by (simp add: ac_simps)
    from 1 2 3 show ?thesis
      unfolding exec_block_def C
      by (meson converse_rtranclp_into_rtranclp rtranclp.rtrancl_into_rtrancl)
  qed
qed

lemma exec_if_code:
  assumes cond: "exec_block ce (set_frame st stk lcs i) (set_frame st (w # stk) lcs (i + int (length ce)))"
    and size: "length t + 3 < 256" "length f \<le> 65535"
    and arm: "if w = 0
      then exec_block f (set_frame st stk lcs (i + int (length ce + length t + 6)))
             (set_frame st stk lcs' (i + int (length ce + length t + 6 + length f)))
      else exec_block t (set_frame st stk lcs (i + int (length ce + 3)))
             (set_frame st stk lcs' (i + int (length ce + 3 + length t)))"
  shows "exec_block (ce @ if_code t f) (set_frame st stk lcs i)
    (set_frame st stk lcs' (i + int (length (ce @ if_code t f))))"
proof -
  have "exec_block (if_code t f) (set_frame st (w # stk) lcs (i + int (length ce)))
      (set_frame st stk lcs' (i + int (length ce) + int (length (if_code t f))))"
    by (rule exec_selection [OF size]) (use arm in \<open>simp add: ac_simps split: if_splits\<close>)
  from exec_block_append [OF cond this] show ?thesis by (simp add: ac_simps)
qed

lemma exec_while_end:
  assumes cond: "exec_block ce (set_frame st stk lcs i) (set_frame st (0 # stk) lcs (i + int (length ce)))"
    and size: "length ce + length b + 6 < 256"
  shows "exec_block (while_code ce b) (set_frame st stk lcs i)
    (set_frame st stk lcs (i + int (length (while_code ce b))))"
proof -
  let ?jez = "[OPCODE_JEZ, jump_hi (length b + 3), jump_lo (length b + 3)]"
  let ?rj = "[OPCODE_RJMP, jump_hi (length ce + length b + 6), jump_lo (length ce + length b + 6)]"
  let ?C = "ce @ ?jez @ b @ ?rj"
  have C: "while_code ce b = ?C" by (simp add: while_code_def)
  have 1: "vm_steps ?C (0, set_frame st stk lcs i) (int (length ce), set_frame st (0 # stk) lcs (i + int (length ce)))"
    using block_steps [OF cond, of "[]" "?jez @ b @ ?rj"] by simp
  have "length b + 3 < 256" using size by simp
  from step_jez [OF this, of ce "b @ ?rj" st 0 stk lcs "i + int (length ce)"]
  have "vm_step ?C (int (length ce), set_frame st (0 # stk) lcs (i + int (length ce)))
      (int (length ?C), set_frame st stk lcs (i + int (length ?C)))" by (simp add: ac_simps)
  with 1 show ?thesis unfolding exec_block_def C by (rule rtranclp.rtrancl_into_rtrancl)
qed

lemma exec_while_step:
  assumes cond: "exec_block ce (set_frame st stk lcs i) (set_frame st (w # stk) lcs (i + int (length ce)))" "w \<noteq> 0"
    and size: "length ce + length b + 6 < 256"
    and body: "exec_block b (set_frame st stk lcs (i + int (length ce + 3)))
      (set_frame st stk lcs1 (i + int (length ce + 3 + length b)))"
    and again: "exec_block (while_code ce b) (set_frame st stk lcs1 i) st'"
  shows "exec_block (while_code ce b) (set_frame st stk lcs i) st'"
proof -
  let ?jez = "[OPCODE_JEZ, jump_hi (length b + 3), jump_lo (length b + 3)]"
  let ?rj = "[OPCODE_RJMP, jump_hi (length ce + length b + 6), jump_lo (length ce + length b + 6)]"
  let ?C = "ce @ ?jez @ b @ ?rj"
  have C: "while_code ce b = ?C" by (simp add: while_code_def)
  have 1: "vm_steps ?C (0, set_frame st stk lcs i) (int (length ce), set_frame st (w # stk) lcs (i + int (length ce)))"
    using block_steps [OF cond(1), of "[]" "?jez @ b @ ?rj"] by simp
  have "length b + 3 < 256" using size by simp
  from step_jez [OF this, of ce "b @ ?rj" st w stk lcs "i + int (length ce)"] cond(2)
  have 2: "vm_step ?C (int (length ce), set_frame st (w # stk) lcs (i + int (length ce)))
      (int (length ce + 3), set_frame st stk lcs (i + int (length ce + 3)))" by (simp add: ac_simps)
  have 3: "vm_steps ?C (int (length ce + 3), set_frame st stk lcs (i + int (length ce + 3)))
      (int (length ce + 3 + length b), set_frame st stk lcs1 (i + int (length ce + 3 + length b)))"
    using block_steps [OF body, of "ce @ ?jez" ?rj] by (simp add: ac_simps)
  from step_rjmp [OF size, of "ce @ ?jez @ b" "[]" st stk lcs1 "i + int (length ce + 3 + length b)"]
  have 4: "vm_step ?C (int (length ce + 3 + length b), set_frame st stk lcs1 (i + int (length ce + 3 + length b)))
      (0, set_frame st stk lcs1 i)" by (simp add: ac_simps)
  from 1 2 3 4 again show ?thesis
    unfolding exec_block_def C
    by (meson converse_rtranclp_into_rtranclp rtranclp_trans rtranclp.rtrancl_into_rtrancl)
qed


subsection \<open>The simulation\<close>

definition simulates :: "vm_state \<Rightarrow> i32 list \<Rightarrow> env \<Rightarrow> env \<Rightarrow> byte list \<Rightarrow> store \<Rightarrow> store \<Rightarrow> bool" where
  "simulates st stk e e' code \<rho> \<rho>' \<longleftrightarrow> (case (e, e') of ((\<Gamma>, k, n, m), (\<Gamma>', k', n', m')) \<Rightarrow>
     \<forall>lcs i. holds \<Gamma> n \<rho> lcs \<longrightarrow> m' \<le> length lcs \<longrightarrow>
       (\<exists>lcs'. exec_block code (set_frame st stk lcs i) (set_frame st stk lcs' (i + int (length code))) \<and>
          holds \<Gamma>' n' \<rho>' lcs' \<and> length lcs' = length lcs))"

lemma simulatesI:
  assumes "\<And>lcs i. holds \<Gamma> n \<rho> lcs \<Longrightarrow> m' \<le> length lcs \<Longrightarrow>
     \<exists>lcs'. exec_block code (set_frame st stk lcs i) (set_frame st stk lcs' (i + int (length code))) \<and>
       holds \<Gamma>' n' \<rho>' lcs' \<and> length lcs' = length lcs"
  shows "simulates st stk (\<Gamma>, k, n, m) (\<Gamma>', k', n', m') code \<rho> \<rho>'"
  using assms by (simp add: simulates_def)

lemma simulatesE:
  assumes "simulates st stk (\<Gamma>, k, n, m) (\<Gamma>', k', n', m') code \<rho> \<rho>'" "holds \<Gamma> n \<rho> lcs" "m' \<le> length lcs"
  obtains lcs' where "exec_block code (set_frame st stk lcs i) (set_frame st stk lcs' (i + int (length code)))"
    "holds \<Gamma>' n' \<rho>' lcs'" "length lcs' = length lcs"
  using assms by (auto simp: simulates_def)

lemma simulates_assign:
  assumes "elab_stat cap page env (assign x e) = Some (env', code)" "eval \<rho> e = Some v"
    and "case \<rho> x of None \<Rightarrow> v' = v | Some w \<Rightarrow> convert (val_type w) v = Some v'"
    and "4 * (length stk + stat_depth (assign x e)) \<le> stack_cap (current_frame st)"
  shows "simulates st stk env env' code \<rho> (\<rho>(x \<mapsto> v'))"
proof -
  obtain \<Gamma> k n m \<Gamma>' k' n' m' where env: "env = (\<Gamma>, k, n, m)" "env' = (\<Gamma>', k', n', m')" by (metis prod.exhaust)
  obtain chunks where c: "elab_assign cap env x e = Some (env', chunks)" "code = concat chunks"
    using assms(1) by (auto split: if_splits)
  show ?thesis
    unfolding env c(2)
  proof (rule simulatesI)
    fix lcs i assume h: "holds \<Gamma> n \<rho> lcs" "m' \<le> length lcs"
    from exec_assign [OF c(1) [unfolded env] h(1) assms(2,3) h(2), of stk st i] assms(4)
    show "\<exists>lcs'. exec_block (concat chunks) (set_frame st stk lcs i)
        (set_frame st stk lcs' (i + int (length (concat chunks)))) \<and>
      holds \<Gamma>' n' (\<rho>(x \<mapsto> v')) lcs' \<and> length lcs' = length lcs"
      using exec_chunks_block by fastforce
  qed
qed

text \<open>The evaluation of a condition.\<close>

lemma exec_cond:
  assumes "type_of \<Gamma> e = Some TYPE_INT" "holds \<Gamma> n \<rho> lcs" "eval \<rho> e = Some (Int_Val w)"
    and "4 * (length stk + expr_depth e) \<le> stack_cap (current_frame st)"
  shows "exec_block (concat (code_of \<Gamma> e)) (set_frame st stk lcs i)
    (set_frame st (w # stk) lcs (i + int (length (concat (code_of \<Gamma> e)))))"
  using exec_chunks_block [OF exec_expression [OF assms(1) _ assms(4), of lcs "Int_Val w" i]] assms(2,3)
  by (simp add: holds_def)

lemma simulates_block:
  assumes "simulates st stk (\<Gamma>, 0, n, m) (\<Gamma>t, kt, nt, mt) code \<rho> \<rho>'" "env_grows (\<Gamma>, 0, n, m) (\<Gamma>t, kt, nt, mt)"
    and "holds \<Gamma> n \<rho> lcs" "mt \<le> length lcs"
  obtains lcs' where "exec_block code (set_frame st stk lcs i) (set_frame st stk lcs' (i + int (length code)))"
    "holds \<Gamma> n (\<rho>' |` dom \<rho>) lcs'" "length lcs' = length lcs"
proof -
  obtain lcs' where l: "exec_block code (set_frame st stk lcs i) (set_frame st stk lcs' (i + int (length code)))"
    "holds \<Gamma>t nt \<rho>' lcs'" "length lcs' = length lcs" using simulatesE [OF assms(1,3,4)] .
  have "\<Gamma> \<subseteq>\<^sub>m \<Gamma>t" "slots_ok \<Gamma> n" "dom \<rho> = dom \<Gamma>"
    using assms(2,3) unfolding holds_def env_grows_def by auto
  from holds_restrict [OF l(2) this] l that show ?thesis by blast
qed

lemma elab_If:
  assumes "elab_stat cap page (\<Gamma>, k, n, m) (Stat_If e ts fs) = Some (env', code)"
  obtains \<Gamma>t kt nt m1 t \<Gamma>f kf nf m2 f where
    "elab_scope cap 512 (\<Gamma>, 0, n, m) ts = Some ((\<Gamma>t, kt, nt, m1), t)"
    "elab_scope cap 512 (\<Gamma>, 0, n, m1) (case fs of None \<Rightarrow> [] | Some fs \<Rightarrow> fs) = Some ((\<Gamma>f, kf, nf, m2), f)"
    "type_of \<Gamma> e = Some TYPE_INT" "length t + 3 < 256" "length f \<le> 65535"
    "env' = (\<Gamma>, k, n, m2)" "code = concat (code_of \<Gamma> e) @ if_code t f"
  using assms that by (cases fs) (auto split: option.splits if_splits prod.splits)

lemma elab_While:
  assumes "elab_stat cap page (\<Gamma>, k, n, m) (Stat_While e body) = Some (env', code)"
  obtains \<Gamma>b kb nb m1 b where
    "elab_scope cap 512 (\<Gamma>, 0, n, m) body = Some ((\<Gamma>b, kb, nb, m1), b)" "type_of \<Gamma> e = Some TYPE_INT"
    "length (concat (code_of \<Gamma> e)) + length b + 6 < 256"
    "env' = (\<Gamma>, k, n, m1)" "code = while_code (concat (code_of \<Gamma> e)) b"
  using assms that by (simp split: option.splits if_splits prod.splits)

theorem sem_simulates:
  "sem_stat s \<rho> \<rho>' \<Longrightarrow> elab_stat cap page env s = Some (env', code) \<Longrightarrow>
    4 * (length stk + stat_depth s) \<le> stack_cap (current_frame st) \<Longrightarrow> simulates st stk env env' code \<rho> \<rho>'"
  "sem_scope ss \<rho> \<rho>' \<Longrightarrow> elab_scope cap page env ss = Some (env', code) \<Longrightarrow>
    4 * (length stk + scope_depth ss) \<le> stack_cap (current_frame st) \<Longrightarrow> simulates st stk env env' code \<rho> \<rho>'"
proof (induction arbitrary: cap page env env' code and cap page env env' code rule: sem_stat_sem_scope.inducts)
  case (sem_assign_new \<rho> x e v)
  then show ?case by (intro simulates_assign) simp_all
next
  case (sem_assign \<rho> x w e v v')
  then show ?case by (intro simulates_assign) simp_all
next
  case (sem_if_true \<rho> e w ts \<rho>' fs)
  obtain \<Gamma> k n m where env: "env = (\<Gamma>, k, n, m)" by (cases env)
  note prems = sem_if_true.prems [unfolded env]
  obtain \<Gamma>t kt nt m1 t \<Gamma>f kf nf m2 f where tf:
    "elab_scope cap 512 (\<Gamma>, 0, n, m) ts = Some ((\<Gamma>t, kt, nt, m1), t)"
    "elab_scope cap 512 (\<Gamma>, 0, n, m1) (case fs of None \<Rightarrow> [] | Some fs \<Rightarrow> fs) = Some ((\<Gamma>f, kf, nf, m2), f)"
    "type_of \<Gamma> e = Some TYPE_INT" "length t + 3 < 256" "length f \<le> 65535"
    "env' = (\<Gamma>, k, n, m2)" "code = concat (code_of \<Gamma> e) @ if_code t f" by (rule elab_If [OF prems(1)])
  have room: "4 * (length stk + expr_depth e) \<le> stack_cap (current_frame st)"
    "4 * (length stk + scope_depth ts) \<le> stack_cap (current_frame st)" using prems(2) by auto
  note sim = sem_if_true.IH [OF tf(1) room(2)] and gr = elab_grows(2) [OF tf(1)]
  have m: "m1 \<le> m2" using elab_grows(2) [OF tf(2)] by (simp add: env_grows_def)
  show ?case
    unfolding env tf(6,7)
  proof (rule simulatesI)
    fix lcs i assume h: "holds \<Gamma> n \<rho> lcs" "m2 \<le> length lcs"
    have m1: "m1 \<le> length lcs" using m h(2) by simp
    let ?ce = "concat (code_of \<Gamma> e)"
    obtain lcs' where l: "exec_block t (set_frame st stk lcs (i + int (length ?ce + 3)))
        (set_frame st stk lcs' (i + int (length ?ce + 3) + int (length t)))"
      "holds \<Gamma> n (\<rho>' |` dom \<rho>) lcs'" "length lcs' = length lcs" by (rule simulates_block [OF sim gr h(1) m1])
    have "exec_block (?ce @ if_code t f) (set_frame st stk lcs i)
        (set_frame st stk lcs' (i + int (length (?ce @ if_code t f))))"
      using exec_cond [OF tf(3) h(1) sem_if_true.hyps(1) room(1)] tf(4,5) l(1) sem_if_true.hyps(2)
      by (intro exec_if_code) (auto simp: ac_simps)
    with l(2,3) show "\<exists>lcs'. exec_block (?ce @ if_code t f) (set_frame st stk lcs i)
        (set_frame st stk lcs' (i + int (length (?ce @ if_code t f)))) \<and>
      holds \<Gamma> n (\<rho>' |` dom \<rho>) lcs' \<and> length lcs' = length lcs" by blast
  qed
next
  case (sem_if_false \<rho> e fs \<rho>' ts)
  obtain \<Gamma> k n m where env: "env = (\<Gamma>, k, n, m)" by (cases env)
  note prems = sem_if_false.prems [unfolded env]
  obtain \<Gamma>t kt nt m1 t \<Gamma>f kf nf m2 f where tf:
    "elab_scope cap 512 (\<Gamma>, 0, n, m) ts = Some ((\<Gamma>t, kt, nt, m1), t)"
    "elab_scope cap 512 (\<Gamma>, 0, n, m1) (case fs of None \<Rightarrow> [] | Some fs \<Rightarrow> fs) = Some ((\<Gamma>f, kf, nf, m2), f)"
    "type_of \<Gamma> e = Some TYPE_INT" "length t + 3 < 256" "length f \<le> 65535"
    "env' = (\<Gamma>, k, n, m2)" "code = concat (code_of \<Gamma> e) @ if_code t f" by (rule elab_If [OF prems(1)])
  have room: "4 * (length stk + expr_depth e) \<le> stack_cap (current_frame st)"
    "4 * (length stk + scope_depth (case fs of None \<Rightarrow> [] | Some fs \<Rightarrow> fs)) \<le> stack_cap (current_frame st)"
    using prems(2) by (auto split: option.splits)
  note sim = sem_if_false.IH [OF tf(2) room(2)] and gr = elab_grows(2) [OF tf(2)]
  show ?case
    unfolding env tf(6,7)
  proof (rule simulatesI)
    fix lcs i assume h: "holds \<Gamma> n \<rho> lcs" "m2 \<le> length lcs"
    let ?ce = "concat (code_of \<Gamma> e)"
    obtain lcs' where l: "exec_block f (set_frame st stk lcs (i + int (length ?ce + length t + 6)))
        (set_frame st stk lcs' (i + int (length ?ce + length t + 6) + int (length f)))"
      "holds \<Gamma> n (\<rho>' |` dom \<rho>) lcs'" "length lcs' = length lcs" by (rule simulates_block [OF sim gr h])
    have "exec_block (?ce @ if_code t f) (set_frame st stk lcs i)
        (set_frame st stk lcs' (i + int (length (?ce @ if_code t f))))"
      using exec_cond [OF tf(3) h(1) sem_if_false.hyps(1) room(1)] tf(4,5) l(1)
      by (intro exec_if_code) (auto simp: ac_simps)
    with l(2,3) show "\<exists>lcs'. exec_block (?ce @ if_code t f) (set_frame st stk lcs i)
        (set_frame st stk lcs' (i + int (length (?ce @ if_code t f)))) \<and>
      holds \<Gamma> n (\<rho>' |` dom \<rho>) lcs' \<and> length lcs' = length lcs" by blast
  qed
next
  case (sem_while_end \<rho> e body)
  obtain \<Gamma> k n m where env: "env = (\<Gamma>, k, n, m)" by (cases env)
  note prems = sem_while_end.prems [unfolded env]
  obtain \<Gamma>b kb nb m1 b where b:
    "elab_scope cap 512 (\<Gamma>, 0, n, m) body = Some ((\<Gamma>b, kb, nb, m1), b)" "type_of \<Gamma> e = Some TYPE_INT"
    "length (concat (code_of \<Gamma> e)) + length b + 6 < 256"
    "env' = (\<Gamma>, k, n, m1)" "code = while_code (concat (code_of \<Gamma> e)) b" by (rule elab_While [OF prems(1)])
  have room: "4 * (length stk + expr_depth e) \<le> stack_cap (current_frame st)" using prems(2) by auto
  show ?case
    unfolding env b(4,5)
    using exec_while_end [OF exec_cond [OF b(2) _ sem_while_end.hyps room] b(3)] by (intro simulatesI) blast
next
  case (sem_while \<rho> e w body \<rho>1 \<rho>')
  obtain \<Gamma> k n m where env: "env = (\<Gamma>, k, n, m)" by (cases env)
  note prems = sem_while.prems [unfolded env]
  obtain \<Gamma>b kb nb m1 b where b:
    "elab_scope cap 512 (\<Gamma>, 0, n, m) body = Some ((\<Gamma>b, kb, nb, m1), b)" "type_of \<Gamma> e = Some TYPE_INT"
    "length (concat (code_of \<Gamma> e)) + length b + 6 < 256"
    "env' = (\<Gamma>, k, n, m1)" "code = while_code (concat (code_of \<Gamma> e)) b" by (rule elab_While [OF prems(1)])
  have room: "4 * (length stk + expr_depth e) \<le> stack_cap (current_frame st)"
    "4 * (length stk + scope_depth body) \<le> stack_cap (current_frame st)" using prems(2) by auto
  note sim = sem_while.IH(1) [OF b(1) room(2)] and gr = elab_grows(2) [OF b(1)]
  have rest: "simulates st stk (\<Gamma>, k, n, m) (\<Gamma>, k, n, m1) code (\<rho>1 |` dom \<rho>) \<rho>'"
    using sem_while.IH(2) [OF prems] b(4) by simp
  show ?case
    unfolding env b(4)
  proof (rule simulatesI)
    fix lcs i assume h: "holds \<Gamma> n \<rho> lcs" "m1 \<le> length lcs"
    let ?ce = "concat (code_of \<Gamma> e)"
    obtain lcs1 where l: "exec_block b (set_frame st stk lcs (i + int (length ?ce + 3)))
        (set_frame st stk lcs1 (i + int (length ?ce + 3) + int (length b)))"
      "holds \<Gamma> n (\<rho>1 |` dom \<rho>) lcs1" "length lcs1 = length lcs" by (rule simulates_block [OF sim gr h])
    have "m1 \<le> length lcs1" using h(2) l(3) by simp
    from simulatesE [OF rest l(2) this] obtain lcs' where l': "exec_block code (set_frame st stk lcs1 i)
        (set_frame st stk lcs' (i + int (length code)))" "holds \<Gamma> n \<rho>' lcs'" "length lcs' = length lcs1" by blast
    have "exec_block code (set_frame st stk lcs i) (set_frame st stk lcs' (i + int (length code)))"
      using exec_while_step [OF exec_cond [OF b(2) h(1) sem_while.hyps(1) room(1)] sem_while.hyps(2) b(3)]
        l(1) l'(1) b(5) by (simp add: ac_simps)
    with l' l(3) show "\<exists>lcs'. exec_block code (set_frame st stk lcs i) (set_frame st stk lcs' (i + int (length code))) \<and>
      holds \<Gamma> n \<rho>' lcs' \<and> length lcs' = length lcs" by auto
  qed
next
  case (sem_Nil \<rho>)
  then have env: "env' = env" "code = []" by simp_all
  show ?case unfolding env simulates_def by (auto split: prod.split) (metis exec_block_Nil)
next
  case (sem_Cons s \<rho> \<rho>1 ss \<rho>')
  obtain env1 a b where ab: "elab_stat cap page env s = Some (env1, a)" "elab_scope cap page env1 ss = Some (env', b)"
    "code = a @ b" using sem_Cons.prems(1) by (auto split: option.splits)
  have room: "4 * (length stk + stat_depth s) \<le> stack_cap (current_frame st)"
    "4 * (length stk + scope_depth ss) \<le> stack_cap (current_frame st)" using sem_Cons.prems(2) by auto
  obtain \<Gamma> k n m \<Gamma>1 k1 n1 m1 \<Gamma>' k' n' m' where env: "env = (\<Gamma>, k, n, m)" "env1 = (\<Gamma>1, k1, n1, m1)"
    "env' = (\<Gamma>', k', n', m')" by (metis prod.exhaust)
  note s1 = sem_Cons.IH(1) [OF ab(1) room(1), unfolded env] and s2 = sem_Cons.IH(2) [OF ab(2) room(2), unfolded env]
  have m: "m1 \<le> m'" using elab_grows(2) [OF ab(2)] env by (simp add: env_grows_def)
  show ?case
    unfolding env ab(3)
  proof (rule simulatesI)
    fix lcs i assume h: "holds \<Gamma> n \<rho> lcs" "m' \<le> length lcs"
    then have "m1 \<le> length lcs" using m by simp
    from simulatesE [OF s1 h(1) this] obtain lcs1 where l1: "exec_block a (set_frame st stk lcs i)
      (set_frame st stk lcs1 (i + int (length a)))" "holds \<Gamma>1 n1 \<rho>1 lcs1" "length lcs1 = length lcs" by blast
    have "m' \<le> length lcs1" using h(2) l1(3) by simp
    from simulatesE [OF s2 l1(2) this] obtain lcs' where l2: "exec_block b (set_frame st stk lcs1 (i + int (length a)))
      (set_frame st stk lcs' (i + int (length a) + int (length b)))" "holds \<Gamma>' n' \<rho>' lcs'" "length lcs' = length lcs1"
      by blast
    from exec_block_append [OF l1(1) l2(1)] l2 l1(3)
    show "\<exists>lcs'. exec_block (a @ b) (set_frame st stk lcs i) (set_frame st stk lcs' (i + int (length (a @ b)))) \<and>
      holds \<Gamma>' n' \<rho>' lcs' \<and> length lcs' = length lcs" by (auto simp: add.assoc)
  qed
qed

end
