(* ===== verification/Stat_Claims.thy ===== *)
theory Stat_Claims
  imports Stat_Exec
begin

text \<open>The properties of compiled statements, each with an instance.\<close>

subsection \<open>An instance\<close>

text \<open>The program \<open>y = i; while (0 < y) { y = y - 1 }\<close> in the scope of \<open>demo_compiler\<close>, with a page of 64 bytes.\<close>

definition demo_loop :: stat where
  "demo_loop = Stat_While (Binary_Op 0 LESS_THAN (Literal_Int 0) (Ident 0 ''y''))
     [assign ''y'' (Binary_Op 0 SUBTRACTION (Ident 0 ''y'') (Literal_Int 1))]"

definition demo_block :: "stat list" where
  "demo_block = [assign ''y'' (Ident 0 ''i''), demo_loop]"

definition demo_block_compiler :: compiler where
  "demo_block_compiler = demo_compiler\<lparr>c_scope := demo_scope\<lparr>sc_emitter := Buffered (compiler_emitter_buffered_new 64)\<rparr>\<rparr>"

definition demo_block_code :: "byte list" where
  "demo_block_code =
     [0x32, 0, 0x33, 2, 0x36, 0, 0, 0, 0, 0x32, 2, 0x4c, 0x62, 0, 13,
      0x32, 2, 0x36, 0, 0, 0, 1, 0x43, 0x33, 2, 0x61, 0, 24]"

definition demo_block_machine :: vm_state where
  "demo_block_machine = vm_static_init\<lparr>current_frame := new_frame 8 [Some 1, Some 0, None]\<rparr>"

lemma demo_block_slots: "compiler_slots demo_block_compiler = [''i'' \<mapsto> (TYPE_INT, 0), ''x'' \<mapsto> (TYPE_FLOAT, 1)]"
  by (rule ext) (simp add: demo_block_compiler_def demo_compiler_def demo_scope_def compiler_slots_def c_chain_def
      compiler_init_def frame_init_scope_def)

lemma demo_block_env: "scope_env demo_block_compiler = (compiler_slots demo_block_compiler, 2, 2, 0)"
  by (simp add: scope_env_def demo_block_compiler_def demo_compiler_def demo_scope_def frame_init_scope_def
      compiler_init_def)

lemma demo_block_elab:
  "elab_scope 4 64 (scope_env demo_block_compiler) demo_block =
     Some (((compiler_slots demo_block_compiler)(''y'' \<mapsto> (TYPE_INT, 2)), 3, 3, 3), demo_block_code)"
  unfolding demo_block_env demo_block_slots
  by (simp add: demo_block_def demo_loop_def result_type_def
      int_operator_to_opcode_def binary_opcode_def while_code_def jump_lo_def be32_bytes_def OPCODE_SAVE_def
      OPCODE_LOAD_def promote_def demo_block_code_def)


definition demo_store :: store where
  "demo_store = [''i'' \<mapsto> Int_Val 1, ''x'' \<mapsto> Float_Val 0]"

lemma demo_block_sem: "sem_scope demo_block demo_store (demo_store(''y'' \<mapsto> Int_Val 0))"
proof -
  let ?r1 = "demo_store(''y'' \<mapsto> Int_Val 1)" and ?r2 = "demo_store(''y'' \<mapsto> Int_Val 1, ''y'' \<mapsto> Int_Val 0)"
  let ?e = "Binary_Op 0 LESS_THAN (Literal_Int 0) (Ident 0 ''y'')"
  let ?b = "[assign ''y'' (Binary_Op 0 SUBTRACTION (Ident 0 ''y'') (Literal_Int 1))]"
  have a: "sem_stat (assign ''y'' (Ident 0 ''i'')) demo_store ?r1"
    by (rule sem_assign_new) (simp_all add: demo_store_def)
  have body: "sem_scope ?b ?r1 ?r2"
    by (rule sem_Cons [OF sem_assign [where w = "Int_Val 1" and v = "Int_Val 0" and v' = "Int_Val 0"] sem_Nil])
      (simp_all add: binary_value_def convert_def)
  have dom: "?r2 |` dom ?r1 = ?r2" by (rule ext) (auto simp: restrict_map_def domIff)
  have end_: "sem_stat (Stat_While ?e ?b) (?r2 |` dom ?r1) ?r2"
    unfolding dom by (rule sem_while_end) (simp add: binary_value_def)
  have "sem_stat demo_loop ?r1 ?r2"
    unfolding demo_loop_def by (rule sem_while [OF _ _ body end_, of 1]) (simp_all add: binary_value_def)
  from sem_Cons [OF a sem_Cons [OF this sem_Nil]] show ?thesis by (simp add: demo_block_def)
qed

lemma demo_block_holds: "holds (compiler_slots demo_block_compiler) 2 demo_store (locals (current_frame demo_block_machine))"
proof -
  have "slots_ok (compiler_slots demo_block_compiler) 2"
    unfolding demo_block_slots slots_ok_def by (auto split: if_splits)
  moreover have "demo_store = machine_env (compiler_slots demo_block_compiler) (locals (current_frame demo_block_machine))"
    unfolding demo_block_slots
    by (rule ext) (simp add: demo_store_def machine_env_def demo_block_machine_def new_frame_def)
  moreover have "dom demo_store = dom (compiler_slots demo_block_compiler)"
    by (simp add: demo_block_slots demo_store_def)
  ultimately show ?thesis by (simp add: holds_def)
qed

subsection \<open>Properties\<close>

text \<open>
  C3. Compiler correctness for statements. A block of assignments, selections and loops in the
  fragment of \<open>elab_scope\<close> (typed expressions, jump distances below 256 bytes, emissions of at
  most a page) compiles without a panic into the buffer of its scope. Running the new bytes
  from any state whose local variables hold a store that the source semantics takes to \<open>\<rho>'\<close>
  ends behind them with an unchanged operand stack and local variables that hold \<open>\<rho>'\<close>; the
  variables recorded for the function are enough for it.
\<close>

theorem compile_scope_correct:
  assumes "elab_scope (sc_vars_cap (c_scope c)) (em_page_size em) (scope_env c) ss = Some ((\<Gamma>', k', n', m'), code)"
    and "sc_emitter (c_scope c) = Buffered em" "em_wf em" "5 \<le> em_page_size em"
  shows "\<exists>c' em'. compile_scope fuel ss c = Inr (0, c') \<and> sc_emitter (c_scope c') = Buffered em' \<and>
     em_bytes em' = em_bytes em @ code \<and> c_vars_max c' = m' \<and>
     (\<forall>st \<rho> \<rho>'. sem_scope ss \<rho> \<rho>' \<longrightarrow>
        holds (compiler_slots c) (length (sc_vars (c_scope c)) + sc_vars_off (c_scope c)) \<rho> (locals (current_frame st)) \<longrightarrow>
        m' \<le> length (locals (current_frame st)) \<longrightarrow>
        4 * (length (stack (current_frame st)) + scope_depth ss) \<le> stack_cap (current_frame st) \<longrightarrow>
        (\<exists>run lcs'. vm_execute_opcodes run code st =
             Inr (set_frame st (stack (current_frame st)) lcs' (int (length code))) \<and> holds \<Gamma>' n' \<rho>' lcs'))"
proof -
  have "ready c (em_page_size em)" using assms(2,3) by (intro readyI) simp_all
  then obtain c' where c': "compile_scope fuel ss c = Inr (0, c')" "grows c c' (em_page_size em) code"
    "scope_env c' = (\<Gamma>', k', n', m')"
    using elab_compiles(2) [OF assms(1,4), of fuel] by (auto simp: compiles_def)
  obtain em' where em': "sc_emitter (c_scope c') = Buffered em'" using c'(2) by (auto simp: grows_def ready_def)
  have bytes: "em_bytes em' = em_bytes em @ code"
    using c'(2) em' assms(2) by (simp add: grows_def emitted_def block_emitter_def)
  have run: "\<exists>run lcs'. vm_execute_opcodes run code st =
        Inr (set_frame st (stack (current_frame st)) lcs' (int (length code))) \<and> holds \<Gamma>' n' \<rho>' lcs'"
    if s: "sem_scope ss \<rho> \<rho>'" and
      h: "holds (compiler_slots c) (length (sc_vars (c_scope c)) + sc_vars_off (c_scope c)) \<rho> (locals (current_frame st))"
      "m' \<le> length (locals (current_frame st))" and
      room: "4 * (length (stack (current_frame st)) + scope_depth ss) \<le> stack_cap (current_frame st)" for st \<rho> \<rho>'
  proof -
    from sem_simulates(2) [OF s assms(1) room] h obtain lcs' where
      "exec_block code (set_frame st (stack (current_frame st)) (locals (current_frame st)) 0)
         (set_frame st (stack (current_frame st)) lcs' (0 + int (length code)))" "holds \<Gamma>' n' \<rho>' lcs'"
      unfolding scope_env_def by (elim simulatesE)
    then show ?thesis using exec_block_run by (fastforce simp: set_frame_id)
  qed
  show ?thesis
    by (intro exI [of _ c'] exI [of _ em']) (use c' em' bytes run in \<open>simp add: scope_env_def\<close>)
qed

lemma compile_scope_correct_witness:
  "\<exists>code c'. compile_scope 0 demo_block demo_block_compiler = Inr (0, c') \<and> c_vars_max c' = 3 \<and>
     (\<exists>run lcs'. vm_execute_opcodes run code demo_block_machine =
        Inr (set_frame demo_block_machine [] lcs' (int (length code))) \<and>
        machine_env ((compiler_slots demo_block_compiler)(''y'' \<mapsto> (TYPE_INT, 2))) lcs' ''y'' = Some (Int_Val 0))"
proof -
  let ?em = "compiler_emitter_buffered_new 64"
  have c: "sc_vars_cap (c_scope demo_block_compiler) = 4" "sc_emitter (c_scope demo_block_compiler) = Buffered ?em"
    "length (sc_vars (c_scope demo_block_compiler)) = 2" "sc_vars_off (c_scope demo_block_compiler) = 0"
    "em_page_size ?em = 64" "em_wf ?em" "5 \<le> em_page_size ?em"
    by (simp_all add: demo_block_compiler_def demo_scope_def frame_init_scope_def compiler_emitter_buffered_new_def em_wf_def)
  have m: "stack (current_frame demo_block_machine) = []" "length (locals (current_frame demo_block_machine)) = 3"
    "stack_cap (current_frame demo_block_machine) = 8" "scope_depth demo_block = 2"
    by (simp_all add: demo_block_machine_def new_frame_def demo_block_def demo_loop_def)
  have "elab_scope (sc_vars_cap (c_scope demo_block_compiler)) (em_page_size ?em) (scope_env demo_block_compiler) demo_block =
     Some (((compiler_slots demo_block_compiler)(''y'' \<mapsto> (TYPE_INT, 2)), 3, 3, 3), demo_block_code)"
    using demo_block_elab by (simp add: c)
  from compile_scope_correct [OF this c(2,6,7), of 0] obtain c' where c': "compile_scope 0 demo_block demo_block_compiler = Inr (0, c')"
    "c_vars_max c' = 3"
    "\<forall>st \<rho> \<rho>'. sem_scope demo_block \<rho> \<rho>' \<longrightarrow>
        holds (compiler_slots demo_block_compiler) 2 \<rho> (locals (current_frame st)) \<longrightarrow>
        3 \<le> length (locals (current_frame st)) \<longrightarrow>
        4 * (length (stack (current_frame st)) + scope_depth demo_block) \<le> stack_cap (current_frame st) \<longrightarrow>
        (\<exists>run lcs'. vm_execute_opcodes run demo_block_code st =
             Inr (set_frame st (stack (current_frame st)) lcs' (int (length demo_block_code))) \<and>
             holds ((compiler_slots demo_block_compiler)(''y'' \<mapsto> (TYPE_INT, 2))) 3 \<rho>' lcs')"
    unfolding c(3,4) by auto
  from c'(3) [rule_format, OF demo_block_sem demo_block_holds] obtain run lcs' where
    "vm_execute_opcodes run demo_block_code demo_block_machine =
       Inr (set_frame demo_block_machine [] lcs' (int (length demo_block_code)))"
    "holds ((compiler_slots demo_block_compiler)(''y'' \<mapsto> (TYPE_INT, 2))) 3 (demo_store(''y'' \<mapsto> Int_Val 0)) lcs'"
    using m by auto
  moreover from this(2) have "machine_env ((compiler_slots demo_block_compiler)(''y'' \<mapsto> (TYPE_INT, 2))) lcs' ''y'' = Some (Int_Val 0)"
    unfolding holds_def by (metis fun_upd_same)
  ultimately show ?thesis using c' by blast
qed

text \<open>
  C34. The jump of an \<open>if\<close> over a long first branch is too short: the high byte of the distance
  is always 0, so for a branch of \<open>t\<close> bytes a false condition continues \<open>(t + 3) mod 256\<close> bytes
  behind the jump, and from 253 bytes on that is inside the branch.
\<close>

theorem if_jump_wraps:
  assumes "em_wf te" "em_bytes te = t" "em_page_size te = 512" "em_size fe = length f" "compiler_emitter_sink fe = Inr f"
    and "253 \<le> length t" "length t + 3 \<le> 65535" "length f \<le> 65535"
    and "sc_emitter (c_scope c) = Buffered em" "em_wf em" "length t + length f + 6 \<le> em_page_size em"
  shows "\<exists>c' em'. emit_selection fuel te fe c = Inr (0, c') \<and> sc_emitter (c_scope c') = Buffered em' \<and>
     em_bytes em' = em_bytes em @ if_code t f \<and> (length t + 3) mod 256 < length t + 3 \<and>
     (\<forall>st stk lcs. vm_step (if_code t f) (0, set_frame st (0 # stk) lcs 0)
        (3 + int ((length t + 3) mod 256), set_frame st stk lcs (3 + int ((length t + 3) mod 256))))"
proof -
  have "ready c (em_page_size em)" using assms(9,10) by (intro readyI) simp_all
  then obtain c' where c': "emit_selection fuel te fe c = Inr (0, c')" "grows c c' (em_page_size em) (if_code t f)"
    using compile_selection [OF assms(1-5) assms(7,8,11)] by blast
  obtain em' where em': "sc_emitter (c_scope c') = Buffered em'" using c'(2) by (auto simp: grows_def ready_def)
  have bytes: "em_bytes em' = em_bytes em @ if_code t f"
    using c'(2) em' assms(9) by (simp add: grows_def emitted_def block_emitter_def)
  have lo: "jump_lo (length t + 3) = jump_lo ((length t + 3) mod 256)"
    unfolding jump_lo_def by (rule word_unat_eq_iff [THEN iffD2]) (simp add: unat_of_nat del: of_nat_add)
  have "vm_step (if_code t f) (0, set_frame st (0 # stk) lcs 0)
        (3 + int ((length t + 3) mod 256), set_frame st stk lcs (3 + int ((length t + 3) mod 256)))" for st stk lcs
    using step_jez [of "(length t + 3) mod 256" "[]" "t @ OPCODE_JMP # be16_bytes (length f) @ f" st 0 stk lcs 0]
    by (simp add: if_code_def lo ac_simps del: of_nat_add)
  moreover have "(length t + 3) mod 256 < length t + 3"
    using assms(6) mod_less_divisor [of 256 "length t + 3"] by linarith
  ultimately show ?thesis using c'(1) em' bytes by blast
qed


lemma if_jump_wraps_witness:
  "\<exists>te fe c. em_bytes te = replicate 253 0 \<and>
     (\<exists>c'. emit_selection 0 te fe c = Inr (0, c') \<and>
        (\<forall>st stk lcs. vm_step (if_code (replicate 253 0) []) (0, set_frame st (0 # stk) lcs 0)
           (3, set_frame st stk lcs 3)))"
proof -
  let ?te = "\<lparr>em_pages = [replicate 512 0], em_size = 253, em_capacity = 512, em_page_size = 512\<rparr>"
  let ?em = "compiler_emitter_buffered_new 512"
  let ?c = "set_emitter (Buffered ?em) demo_compiler"
  have te: "em_wf ?te" "em_bytes ?te = replicate 253 0" "em_page_size ?te = 512"
    by (simp_all add: em_wf_def em_bytes_def)
  have fe: "em_size ?em = length ([] :: byte list)" "compiler_emitter_sink ?em = Inr []"
    by (simp_all add: compiler_emitter_buffered_new_def compiler_emitter_sink_def)
  have em: "em_wf ?em" "length (replicate 253 (0::byte)) + length ([]::byte list) + 6 \<le> em_page_size ?em"
    by (simp_all add: compiler_emitter_buffered_new_def em_wf_def)
  have len: "253 \<le> length (replicate 253 (0::byte))" "length (replicate 253 (0::byte)) + 3 \<le> 65535"
    "length ([]::byte list) \<le> 65535" by simp_all
  from if_jump_wraps [OF te fe len set_emitter_simps(3) em, of 0 demo_compiler]
  obtain c' where "emit_selection 0 ?te ?em ?c = Inr (0, c')"
    "\<forall>st stk lcs. vm_step (if_code (replicate 253 0) []) (0, set_frame st (0 # stk) lcs 0) (3, set_frame st stk lcs 3)"
    by auto
  with te(2) show ?thesis by blast
qed

end
