(* ===== verification/Stat_Safe.thy ===== *)
theory Stat_Safe
  imports Stat_Claims
begin

text \<open>
  What a run of compiled code can do at all: it reaches the state the source semantics allows, it
  stops in the trap of an integer division, or it goes on. \<open>safe n\<close> says so for the first \<open>n\<close>
  steps, so that loops that never end are covered.
\<close>

subsection \<open>Safe runs\<close>

definition div_traps :: "byte list \<Rightarrow> vm_pc \<times> vm_state \<Rightarrow> bool" where
  "div_traps code cfg \<longleftrightarrow> 0 \<le> fst cfg \<and> fst cfg < int (length code) \<and> code ! nat (fst cfg) = OPCODE_IDIV \<and>
     (\<exists>a b stk. stack (current_frame (snd cfg)) = b # a # stk \<and> int_div a b = Inl Div_Trap)"

primrec safe :: "nat \<Rightarrow> byte list \<Rightarrow> vm_pc \<times> vm_state \<Rightarrow> (vm_pc \<times> vm_state \<Rightarrow> bool) \<Rightarrow> bool" where
  "safe 0 code cfg P = True"
| "safe (Suc n) code cfg P = (P cfg \<or> div_traps code cfg \<or> (\<exists>cfg'. vm_step code cfg cfg' \<and> safe n code cfg' P))"

lemma safe_ret: "P cfg \<Longrightarrow> safe n code cfg P"
  by (cases n) simp_all

lemma safe_trap: "div_traps code cfg \<Longrightarrow> safe n code cfg P"
  by (cases n) simp_all

lemma safe_Suc: "safe (Suc n) code cfg P \<Longrightarrow> safe n code cfg P"
proof (induction n arbitrary: cfg)
  case (Suc n)
  then show ?case using safe.simps(2) [of "Suc n" code cfg P] safe.simps(2) [of n code cfg P] by blast
qed simp

lemma safe_bind:
  "safe n code cfg P \<Longrightarrow> (\<And>cfg. P cfg \<Longrightarrow> safe n code cfg Q) \<Longrightarrow> safe n code cfg Q"
proof (induction n arbitrary: cfg)
  case (Suc n)
  have P: "P cfg' \<Longrightarrow> safe n code cfg' Q" for cfg' using Suc.prems(2) safe_Suc by blast
  from Suc.prems(1) consider "P cfg" | "div_traps code cfg" | cfg' where "vm_step code cfg cfg'" "safe n code cfg' P"
    unfolding safe.simps by blast
  then show ?case
  proof cases
    case 3
    then show ?thesis using Suc.IH [OF 3(2) P] unfolding safe.simps by blast
  qed (use Suc.prems(2) safe_trap in blast)+
qed simp

lemma safe_step: "vm_step code cfg cfg' \<Longrightarrow> safe n code cfg' P \<Longrightarrow> safe (Suc n) code cfg P"
  unfolding safe.simps by blast

lemma safe_steps: "vm_steps code cfg cfg' \<Longrightarrow> safe n code cfg' P \<Longrightarrow> safe n code cfg P"
  by (induction rule: converse_rtranclp_induct) (auto dest: safe_step safe_Suc simp del: safe.simps)

lemma vm_step_dispatch:
  assumes "vm_step code (pc, st) (pc1, st1)"
  shows "vm_run (Suc fuel) code pc st = Inl Out_Of_Fuel \<or> vm_run (Suc fuel) code pc st = vm_run fuel code pc1 st1"
proof -
  obtain f res st2 where 1: "0 \<le> pc" "pc < int (length code)" "pc1 = pc + res" "st1 = advance_frame res st2"
    "vm_dispatch (vm_execute_opcodes f) (code ! nat pc) (drop (nat pc + 1) code) st = Inr (res, st2)"
    using assms by (elim vm_step_elim) simp
  let ?d = "\<lambda>f. vm_dispatch (vm_execute_opcodes f) (code ! nat pc) (drop (nat pc + 1) code) st"
  have "?d fuel = Inr (res, st2)" if "?d fuel \<noteq> Inl Out_Of_Fuel"
  proof -
    have up: "?d (max fuel f) = ?d g" if "g \<le> max fuel f" "?d g \<noteq> Inl Out_Of_Fuel" for g
      by (rule dispatch_mono [OF vm_execute_opcodes_mono [OF that(1)] that(2)])
    have "?d fuel = ?d f" using up [of fuel] up [of f] that 1(5) by simp
    then show ?thesis using 1(5) by simp
  qed
  then show ?thesis using 1(1-4) unfolding vm_run_Suc by (cases "?d fuel") auto
qed

lemma trap_run:
  assumes "div_traps code (pc, st)"
  shows "vm_run (Suc fuel) code pc st = Inl Div_Trap"
proof -
  obtain a b stk where 1: "0 \<le> pc" "pc < int (length code)" "code ! nat pc = OPCODE_IDIV"
    "stack (current_frame st) = b # a # stk" "int_div a b = Inl Div_Trap" using assms by (auto simp: div_traps_def)
  then show ?thesis
    unfolding vm_run_Suc by (simp add: vm_dispatch_def handler_defs binary_words_def)
qed

lemma safe_run:
  "safe (Suc fuel) code (pc, st) P \<Longrightarrow> (\<And>pc st. P (pc, st) \<Longrightarrow> \<not> (0 \<le> pc \<and> pc < int (length code))) \<Longrightarrow>
   vm_run fuel code pc st = Inl Out_Of_Fuel \<or> vm_run fuel code pc st = Inl Div_Trap \<or>
   (\<exists>cfg. vm_run fuel code pc st = Inr cfg \<and> P cfg)"
proof (induction fuel arbitrary: pc st)
  case (Suc fuel)
  from Suc.prems(1) consider "P (pc, st)" | "div_traps code (pc, st)"
    | pc1 st1 where "vm_step code (pc, st) (pc1, st1)" "safe (Suc fuel) code (pc1, st1) P"
    unfolding safe.simps(2) [of "Suc fuel"] by auto
  then show ?case
  proof cases
    case 1
    with Suc.prems(2) have "vm_run (Suc fuel) code pc st = Inr (pc, st)" unfolding vm_run_Suc by auto
    with 1 show ?thesis by blast
  next
    case 2
    then show ?thesis using trap_run by blast
  next
    case 3
    have "vm_run fuel code pc1 st1 = Inl Out_Of_Fuel \<or> vm_run fuel code pc1 st1 = Inl Div_Trap \<or>
        (\<exists>cfg. vm_run fuel code pc1 st1 = Inr cfg \<and> P cfg)" by (rule Suc.IH [OF 3(2) Suc.prems(2)])
    then show ?thesis using vm_step_dispatch [OF 3(1), of fuel] by metis
  qed
qed simp

text \<open>Runs of a block from its first byte to behind its last one, alone or inside larger code.\<close>

definition sblock :: "nat \<Rightarrow> byte list \<Rightarrow> vm_state \<Rightarrow> (vm_state \<Rightarrow> bool) \<Rightarrow> bool" where
  "sblock n code st P = safe n code (0, st) (\<lambda>cfg. fst cfg = int (length code) \<and> P (snd cfg))"

lemma div_traps_embed:
  assumes "div_traps code (pc, st)"
  shows "div_traps (pre @ code @ post) (int (length pre) + pc, st)"
proof -
  have "nat (int (length pre) + pc) = length pre + nat pc" "nat pc < length code"
    using assms by (auto simp: div_traps_def nat_add_distrib nat_less_iff)
  then show ?thesis using assms by (simp add: div_traps_def nth_append)
qed

lemma safe_embed:
  "safe n code (pc, st) (\<lambda>cfg. fst cfg = e \<and> P (snd cfg)) \<Longrightarrow>
   safe n (pre @ code @ post) (int (length pre) + pc, st) (\<lambda>cfg. fst cfg = int (length pre) + e \<and> P (snd cfg))"
proof (induction n arbitrary: pc st)
  case (Suc n)
  from Suc.prems consider "pc = e" "P st" | "div_traps code (pc, st)"
    | pc1 st1 where "vm_step code (pc, st) (pc1, st1)" "safe n code (pc1, st1) (\<lambda>cfg. fst cfg = e \<and> P (snd cfg))"
    by auto
  then show ?case
  proof cases
    case 3
    then show ?thesis using safe_step [OF vm_step_embed [OF 3(1)] Suc.IH [OF 3(2)]] by blast
  qed (auto intro: div_traps_embed)
qed simp

lemma sblock_at:
  "sblock n code st P \<Longrightarrow> safe n (pre @ code @ post) (int (length pre), st)
     (\<lambda>cfg. fst cfg = int (length pre + length code) \<and> P (snd cfg))"
  using safe_embed [of n code 0 st "int (length code)" P pre post] by (simp add: sblock_def)

lemma sblock_exec: "exec_block code st st' \<Longrightarrow> P st' \<Longrightarrow> sblock n code st P"
  unfolding sblock_def exec_block_def by (erule safe_steps) (simp add: safe_ret)

lemma sblock_append:
  assumes "sblock n c1 st P" "\<And>st1. P st1 \<Longrightarrow> sblock n c2 st1 Q"
  shows "sblock n (c1 @ c2) st Q"
  unfolding sblock_def
proof (rule safe_bind)
  show "safe n (c1 @ c2) (0, st) (\<lambda>cfg. fst cfg = int (length c1) \<and> P (snd cfg))"
    using sblock_at [OF assms(1), of "[]" c2] by simp
  fix cfg assume "fst cfg = int (length c1) \<and> P (snd cfg)"
  then obtain st1 where "cfg = (int (length c1), st1)" "P st1" by (cases cfg) auto
  with sblock_at [OF assms(2), of st1 c1 "[]"]
  show "safe n (c1 @ c2) cfg (\<lambda>cfg. fst cfg = int (length (c1 @ c2)) \<and> Q (snd cfg))" by simp
qed

lemma sblock_append_exec: "exec_block c1 st st1 \<Longrightarrow> sblock n c2 st1 Q \<Longrightarrow> sblock n (c1 @ c2) st Q"
  by (rule sblock_append [OF sblock_exec [where P = "\<lambda>st. st = st1"]]) simp_all

lemma sblock_append_trap: "sblock n c1 st (\<lambda>_. False) \<Longrightarrow> sblock n (c1 @ c2) st Q"
  by (erule sblock_append) simp

subsection \<open>Expressions\<close>

lemma binary_trap:
  assumes "result_type oper (val_type v) (val_type w) = Some t" "binary_value oper v w = None"
  shows "binary_opcode t oper = OPCODE_IDIV \<and> t = TYPE_INT \<and> int_div (val_word v) (val_word w) = Inl Div_Trap"
  using assms
  by (cases v; cases w; cases oper)
     (auto simp: result_type_def binary_opcode_def int_operator_to_opcode_def float_operator_to_opcode_def
       binary_value_def int_div_def split: if_splits)

text \<open>An expression without a value traps: its variables have values, so it divides by zero or overflows.\<close>

lemma trap_expression:
  assumes "type_of \<Gamma> e = Some t" "dom (machine_env \<Gamma> lcs) = dom \<Gamma>" "eval (machine_env \<Gamma> lcs) e = None"
    and "4 * (length stk + expr_depth e) \<le> stack_cap (current_frame st)"
  shows "sblock N (concat (code_of \<Gamma> e)) (set_frame st stk lcs i) (\<lambda>_. False)"
  using assms
proof (induction e arbitrary: t stk i)
  case (Ident s name)
  then have "name \<in> dom \<Gamma>" by (auto split: option.splits)
  then have "name \<in> dom (machine_env \<Gamma> lcs)" using Ident.prems(2) by simp
  with Ident.prems(3) show ?case by auto
next
  case (Group s e)
  then show ?case by (auto split: option.splits if_splits)
next
  case (Special_Cast s opcode e)
  then have "sblock N (concat (code_of \<Gamma> e)) (set_frame st stk lcs i) (\<lambda>_. False)" by (auto split: if_splits)
  then show ?case using sblock_append_trap by simp
next
  case (Binary_Op s oper l r)
  let ?env = "machine_env \<Gamma> lcs" and ?len = "\<lambda>bs. int (length (concat bs))"
  obtain t1 t2 where t: "type_of \<Gamma> l = Some t1" "type_of \<Gamma> r = Some t2" "result_type oper t1 t2 = Some t"
    using type_of_binary [OF Binary_Op.prems(1)] .
  have code: "concat (code_of \<Gamma> (Binary_Op s oper l r)) = concat (code_of \<Gamma> l) @ concat (promote \<Gamma> l r) @
      concat (code_of \<Gamma> r) @ concat (promote \<Gamma> r l) @ [binary_opcode t oper]"
    using Binary_Op.prems(1) by (simp del: type_of.simps)
  have room: "4 * (length stk + expr_depth l) \<le> stack_cap (current_frame st)"
    "4 * (length (w # stk) + expr_depth r) \<le> stack_cap (current_frame st)" for w
    using Binary_Op.prems(4) by (auto simp: max_def split: if_splits)
  show ?case
  proof (cases "eval ?env l")
    case None
    from Binary_Op.IH(1) [OF t(1) Binary_Op.prems(2) None room(1)] show ?thesis
      unfolding code by (rule sblock_append_trap)
  next
    case (Some a)
    have ta: "val_type a = t1" using eval_type [OF t(1) Some] .
    note le = exec_chunks_block [OF exec_expression [OF t(1) Some room(1), of i]]
    have pl: "exec_block (concat (promote \<Gamma> l r)) (set_frame st (val_word a # stk) lcs j)
        (set_frame st (promoted t a # stk) lcs (j + ?len (promote \<Gamma> l r)))" for j
      by (rule exec_chunks_block [OF exec_promote]) (use t ta in auto)
    show ?thesis
    proof (cases "eval ?env r")
      case None
      note Binary_Op.IH(2) [OF t(2) Binary_Op.prems(2) None room(2), of "promoted t a"]
      then show ?thesis unfolding code by (intro sblock_append_exec [OF le] sblock_append_exec [OF pl] sblock_append_trap)
    next
      case (Some b)
      have tb: "val_type b = t2" using eval_type [OF t(2) Some] .
      note re = exec_chunks_block [OF exec_expression [OF t(2) Some room(2)]]
      have pr: "exec_block (concat (promote \<Gamma> r l)) (set_frame st (val_word b # stk) lcs j)
          (set_frame st (promoted t b # stk) lcs (j + ?len (promote \<Gamma> r l)))" for j stk
        by (rule exec_chunks_block [OF exec_promote]) (use t tb in auto)
      have "binary_value oper a b = None" using Binary_Op.prems(3) \<open>eval ?env l = Some a\<close> Some by simp
      moreover have "result_type oper (val_type a) (val_type b) = Some t" using t(3) ta tb by simp
      ultimately have trap: "binary_opcode t oper = OPCODE_IDIV" "t = TYPE_INT"
        "int_div (val_word a) (val_word b) = Inl Div_Trap" using binary_trap by blast+
      then have "sblock N [binary_opcode t oper] (set_frame st (promoted t b # promoted t a # stk) lcs j) (\<lambda>_. False)" for j
        unfolding sblock_def by (intro safe_trap) (simp add: div_traps_def promoted_def)
      then show ?thesis
        unfolding code
        by (intro sblock_append_exec [OF le] sblock_append_exec [OF pl] sblock_append_exec [OF re] sblock_append_exec [OF pr])
    qed
  qed
qed simp_all

subsection \<open>Statements\<close>

definition sound :: "vm_state \<Rightarrow> i32 list \<Rightarrow> env \<Rightarrow> env \<Rightarrow> byte list \<Rightarrow> (store \<Rightarrow> store \<Rightarrow> bool) \<Rightarrow> bool" where
  "sound st stk e e' code R \<longleftrightarrow> (case (e, e') of ((\<Gamma>, k, n, m), (\<Gamma>', k', n', m')) \<Rightarrow>
     \<forall>N \<rho> lcs i. holds \<Gamma> n \<rho> lcs \<longrightarrow> m' \<le> length lcs \<longrightarrow>
       sblock N code (set_frame st stk lcs i) (\<lambda>st'. \<exists>\<rho>' lcs'. R \<rho> \<rho>' \<and>
         st' = set_frame st stk lcs' (i + int (length code)) \<and> holds \<Gamma>' n' \<rho>' lcs' \<and> length lcs' = length lcs))"

lemma soundI:
  assumes "\<And>N \<rho> lcs i. holds \<Gamma> n \<rho> lcs \<Longrightarrow> m' \<le> length lcs \<Longrightarrow>
     sblock N code (set_frame st stk lcs i) (\<lambda>st'. \<exists>\<rho>' lcs'. R \<rho> \<rho>' \<and>
         st' = set_frame st stk lcs' (i + int (length code)) \<and> holds \<Gamma>' n' \<rho>' lcs' \<and> length lcs' = length lcs)"
  shows "sound st stk (\<Gamma>, k, n, m) (\<Gamma>', k', n', m') code R"
  using assms by (simp add: sound_def)

lemma soundD:
  assumes "sound st stk (\<Gamma>, k, n, m) (\<Gamma>', k', n', m') code R" "holds \<Gamma> n \<rho> lcs" "m' \<le> length lcs"
  shows "sblock N code (set_frame st stk lcs i) (\<lambda>st'. \<exists>\<rho>' lcs'. R \<rho> \<rho>' \<and>
         st' = set_frame st stk lcs' (i + int (length code)) \<and> holds \<Gamma>' n' \<rho>' lcs' \<and> length lcs' = length lcs)"
  using assms by (simp add: sound_def)

lemma sblock_mono:
  "sblock n code st P \<Longrightarrow> (\<And>st. P st \<Longrightarrow> Q st) \<Longrightarrow> sblock n code st Q"
  unfolding sblock_def by (erule safe_bind) (simp add: safe_ret)

lemma trap_holds:
  assumes "type_of \<Gamma> e = Some t" "holds \<Gamma> n \<rho> lcs" "eval \<rho> e = None"
    and "4 * (length stk + expr_depth e) \<le> stack_cap (current_frame st)"
  shows "sblock N (concat (code_of \<Gamma> e)) (set_frame st stk lcs i) (\<lambda>_. False)"
proof -
  have "\<rho> = machine_env \<Gamma> lcs" "dom \<rho> = dom \<Gamma>" using assms(2) unfolding holds_def by blast+
  then have "dom (machine_env \<Gamma> lcs) = dom \<Gamma>" "eval (machine_env \<Gamma> lcs) e = None" using assms(3) by simp_all
  then show ?thesis by (rule trap_expression [OF assms(1) _ _ assms(4)])
qed

lemma sound_assign:
  assumes elab: "elab_assign cap (\<Gamma>, k, n, m) x e = Some ((\<Gamma>', k', n', m'), chunks)"
    and room: "4 * (length stk + expr_depth e) \<le> stack_cap (current_frame st)"
  shows "sound st stk (\<Gamma>, k, n, m) (\<Gamma>', k', n', m') (concat chunks) (sem_stat (assign x e))"
proof (rule soundI)
  fix N \<rho> lcs i assume h: "holds \<Gamma> n \<rho> lcs" "m' \<le> length lcs"
  obtain t where t: "type_of \<Gamma> e = Some t" using elab by (auto split: option.splits)
  obtain rest where code: "concat chunks = concat (code_of \<Gamma> e) @ rest"
    using elab t by (auto split: option.splits if_splits)
  let ?P = "\<lambda>st'. \<exists>\<rho>' lcs'. sem_stat (assign x e) \<rho> \<rho>' \<and>
    st' = set_frame st stk lcs' (i + int (length (concat chunks))) \<and> holds \<Gamma>' n' \<rho>' lcs' \<and> length lcs' = length lcs"
  show "sblock N (concat chunks) (set_frame st stk lcs i) ?P"
  proof (cases "eval \<rho> e")
    case None
    from trap_holds [OF t h(1) None room] show ?thesis unfolding code by (rule sblock_append_trap)
  next
    case (Some v)
    have "eval (machine_env \<Gamma> lcs) e = Some v" using Some h(1) by (simp add: holds_def)
    then have vt: "val_type v = t" using eval_type [OF t] by blast
    obtain v' where v': "case \<rho> x of None \<Rightarrow> v' = v | Some w \<Rightarrow> convert (val_type w) v = Some v'"
      "sem_stat (assign x e) \<rho> (\<rho>(x \<mapsto> v'))"
    proof (cases "\<rho> x")
      case None
      then show ?thesis using that [of v] sem_assign_new [of \<rho> x e v] Some by simp
    next
      case (Some w)
      have "x \<in> dom \<Gamma>" using h(1) Some unfolding holds_def by (metis domI)
      then obtain t' slot where g: "\<Gamma> x = Some (t', slot)" by auto
      have w: "val_type w = t'" using holds_slot(2) [OF h(1) g] Some by simp
      have "\<exists>v'. convert t' v = Some v'" using elab t g vt by (auto simp: convert_def split: if_splits)
      then obtain v' where "convert (val_type w) v = Some v'" using w by blast
      then show ?thesis using that [of v'] sem_assign [of \<rho> x w e v v'] Some \<open>eval \<rho> e = Some v\<close> by simp
    qed
    obtain lcs' where "exec_chunks chunks (set_frame st stk lcs i) (set_frame st stk lcs' (i + int (length (concat chunks))))"
      "holds \<Gamma>' n' (\<rho>(x \<mapsto> v')) lcs'" "length lcs' = length lcs"
      using exec_assign [OF elab h(1) Some v'(1) h(2) room] by blast
    then show ?thesis using v'(2) by (intro sblock_exec [OF exec_chunks_block]) blast+
  qed
qed

lemma sound_block:
  assumes "sound st stk (\<Gamma>, 0, n, m) (\<Gamma>t, kt, nt, mt) code R" "env_grows (\<Gamma>, 0, n, m) (\<Gamma>t, kt, nt, mt)"
    and "holds \<Gamma> n \<rho> lcs" "mt \<le> length lcs"
  shows "sblock N code (set_frame st stk lcs i) (\<lambda>st'. \<exists>\<rho>' lcs'. R \<rho> \<rho>' \<and>
    st' = set_frame st stk lcs' (i + int (length code)) \<and> holds \<Gamma> n (\<rho>' |` dom \<rho>) lcs' \<and> length lcs' = length lcs)"
proof -
  have "\<Gamma> \<subseteq>\<^sub>m \<Gamma>t" "slots_ok \<Gamma> n" "dom \<rho> = dom \<Gamma>" using assms(2,3) unfolding holds_def env_grows_def by auto
  then show ?thesis using holds_restrict by (intro sblock_mono [OF soundD [OF assms(1,3,4)]]) blast
qed

lemma safe_at_end: "cfg = (int (length code), st) \<Longrightarrow> P st \<Longrightarrow> safe n code cfg (\<lambda>cfg. fst cfg = int (length code) \<and> P (snd cfg))"
  by (simp add: safe_ret)

lemma sblock_selection:
  assumes size: "length t + 3 < 256" "length f \<le> 65535"
    and arm: "if w = 0
      then sblock N f (set_frame st stk lcs (j + int (length t + 6)))
             (\<lambda>st1. \<exists>lcs1. st1 = set_frame st stk lcs1 (j + int (length t + 6 + length f)) \<and> Q lcs1)
      else sblock N t (set_frame st stk lcs (j + 3))
             (\<lambda>st1. \<exists>lcs1. st1 = set_frame st stk lcs1 (j + int (3 + length t)) \<and> Q lcs1)"
  shows "sblock N (if_code t f) (set_frame st (w # stk) lcs j)
    (\<lambda>st1. \<exists>lcs1. st1 = set_frame st stk lcs1 (j + int (length (if_code t f))) \<and> Q lcs1)"
proof -
  let ?jez = "[OPCODE_JEZ, jump_hi (length t + 3), jump_lo (length t + 3)]" and ?jmp = "OPCODE_JMP # be16_bytes (length f)"
  let ?C = "?jez @ t @ ?jmp @ f"
  let ?P = "\<lambda>st1. \<exists>lcs1. st1 = set_frame st stk lcs1 (j + int (length ?C)) \<and> Q lcs1"
  have C: "if_code t f = ?C" by (simp add: if_code_def)
  note jez = step_jez [OF size(1), of "[]" "t @ ?jmp @ f" st w stk lcs j]
  show ?thesis
  proof (cases "w = 0")
    case True
    have 1: "vm_step ?C (0, set_frame st (w # stk) lcs j) (int (length t + 6), set_frame st stk lcs (j + int (length t + 6)))"
      using jez True by (simp add: ac_simps)
    have "sblock N f (set_frame st stk lcs (j + int (length t + 6))) ?P"
      using arm True by (simp add: ac_simps)
    from sblock_at [OF this, of "?jez @ t @ ?jmp" "[]"]
    have "safe N ?C (int (length t + 6), set_frame st stk lcs (j + int (length t + 6)))
        (\<lambda>cfg. fst cfg = int (length ?C) \<and> ?P (snd cfg))" by (simp add: ac_simps)
    with 1 show ?thesis unfolding sblock_def C by (rule safe_Suc [OF safe_step])
  next
    case False
    have 1: "vm_step ?C (0, set_frame st (w # stk) lcs j) (3, set_frame st stk lcs (j + 3))"
      using jez False by (simp add: ac_simps)
    have t: "sblock N t (set_frame st stk lcs (j + 3)) (\<lambda>st1. \<exists>lcs1. st1 = set_frame st stk lcs1 (j + int (3 + length t)) \<and> Q lcs1)"
      using arm False by simp
    have "safe N ?C (3, set_frame st stk lcs (j + 3)) (\<lambda>cfg. fst cfg = int (length ?C) \<and> ?P (snd cfg))"
    proof (rule safe_bind)
      show "safe N ?C (3, set_frame st stk lcs (j + 3)) (\<lambda>cfg. fst cfg = int (3 + length t) \<and>
          (\<exists>lcs1. snd cfg = set_frame st stk lcs1 (j + int (3 + length t)) \<and> Q lcs1))"
        using sblock_at [OF t, of ?jez "?jmp @ f"] by simp
      fix cfg assume "fst cfg = int (3 + length t) \<and> (\<exists>lcs1. snd cfg = set_frame st stk lcs1 (j + int (3 + length t)) \<and> Q lcs1)"
      then obtain lcs1 where cfg: "cfg = (int (3 + length t), set_frame st stk lcs1 (j + int (3 + length t)))" "Q lcs1"
        by (cases cfg) auto
      have "vm_step ?C cfg (int (length ?C), set_frame st stk lcs1 (j + int (length ?C)))"
        using step_jmp [OF size(2), of "?jez @ t" f st stk lcs1 "j + int (3 + length t)"] cfg(1) by (simp add: ac_simps)
      then show "safe N ?C cfg (\<lambda>cfg. fst cfg = int (length ?C) \<and> ?P (snd cfg))"
        by (rule safe_Suc [OF safe_step]) (rule safe_at_end [OF refl], use cfg(2) in blast)
    qed
    with 1 show ?thesis unfolding sblock_def C by (rule safe_Suc [OF safe_step])
  qed
qed

lemma arm_mono:
  assumes "sblock N c st0 (\<lambda>st'. \<exists>\<rho>' lcs'. R \<rho>' \<and> st' = set_frame st stk lcs' (a + int l) \<and>
      holds \<Gamma> n (\<rho>' |` D) lcs' \<and> length lcs' = L)"
    and "\<And>\<rho>'. R \<rho>' \<Longrightarrow> S (\<rho>' |` D)" "a + int l = a'"
  shows "sblock N c st0 (\<lambda>st'. \<exists>lcs'. st' = set_frame st stk lcs' a' \<and> (\<exists>\<rho>'. S \<rho>' \<and> holds \<Gamma> n \<rho>' lcs' \<and> length lcs' = L))"
  using assms(1) unfolding assms(3) by (rule sblock_mono) (use assms(2) in blast)

lemma sound_if:
  assumes ts: "sound st stk (\<Gamma>, 0, n, m) (\<Gamma>t, kt, nt, m1) t (sem_scope ts)" "env_grows (\<Gamma>, 0, n, m) (\<Gamma>t, kt, nt, m1)"
    and fs: "sound st stk (\<Gamma>, 0, n, m1) (\<Gamma>f, kf, nf, m2) f (sem_scope (case fs of None \<Rightarrow> [] | Some fs \<Rightarrow> fs))"
      "env_grows (\<Gamma>, 0, n, m1) (\<Gamma>f, kf, nf, m2)"
    and e: "type_of \<Gamma> e = Some TYPE_INT" "4 * (length stk + expr_depth e) \<le> stack_cap (current_frame st)"
    and size: "length t + 3 < 256" "length f \<le> 65535"
  shows "sound st stk (\<Gamma>, k, n, m) (\<Gamma>, k, n, m2) (concat (code_of \<Gamma> e) @ if_code t f) (sem_stat (Stat_If e ts fs))"
proof (rule soundI)
  fix N \<rho> lcs i assume h: "holds \<Gamma> n \<rho> lcs" "m2 \<le> length lcs"
  have m1: "m1 \<le> length lcs" using fs(2) h(2) by (simp add: env_grows_def)
  let ?ce = "concat (code_of \<Gamma> e)"
  let ?Q = "\<lambda>lcs'. \<exists>\<rho>'. sem_stat (Stat_If e ts fs) \<rho> \<rho>' \<and> holds \<Gamma> n \<rho>' lcs' \<and> length lcs' = length lcs"
  have "sblock N (?ce @ if_code t f) (set_frame st stk lcs i)
      (\<lambda>st'. \<exists>lcs'. st' = set_frame st stk lcs' (i + int (length ?ce) + int (length (if_code t f))) \<and> ?Q lcs')"
  proof (cases "eval \<rho> e")
    case None
    from trap_holds [OF e(1) h(1) None e(2)] show ?thesis by (rule sblock_append_trap)
  next
    case (Some v)
    have "val_type v = TYPE_INT" using eval_type [OF e(1)] Some h(1) unfolding holds_def by blast
    then obtain w where v: "eval \<rho> e = Some (Int_Val w)" using Some by (cases v) auto
    let ?j = "i + int (length ?ce)"
    have "sblock N (if_code t f) (set_frame st (w # stk) lcs ?j)
      (\<lambda>st1. \<exists>lcs1. st1 = set_frame st stk lcs1 (?j + int (length (if_code t f))) \<and> ?Q lcs1)"
    proof (rule sblock_selection [OF size], cases "w = 0")
      case True
      have "eval \<rho> e = Some (Int_Val 0)" using v True by simp
      note stat = sem_if_false [OF this]
      have "sblock N f (set_frame st stk lcs (?j + int (length t + 6)))
          (\<lambda>st1. \<exists>lcs1. st1 = set_frame st stk lcs1 (?j + int (length t + 6 + length f)) \<and> ?Q lcs1)"
        by (rule arm_mono [OF sound_block [OF fs h]]) (auto intro: stat)
      with True show "if w = 0
        then sblock N f (set_frame st stk lcs (?j + int (length t + 6)))
             (\<lambda>st1. \<exists>lcs1. st1 = set_frame st stk lcs1 (?j + int (length t + 6 + length f)) \<and> ?Q lcs1)
        else sblock N t (set_frame st stk lcs (?j + 3))
             (\<lambda>st1. \<exists>lcs1. st1 = set_frame st stk lcs1 (?j + int (3 + length t)) \<and> ?Q lcs1)"
        by (simp only: if_True refl simp_thms)
    next
      case False
      have "sblock N t (set_frame st stk lcs (?j + 3))
          (\<lambda>st1. \<exists>lcs1. st1 = set_frame st stk lcs1 (?j + int (3 + length t)) \<and> ?Q lcs1)"
        by (rule arm_mono [OF sound_block [OF ts h(1) m1]]) (auto intro: sem_if_true [OF v False])
      with False show "if w = 0
        then sblock N f (set_frame st stk lcs (?j + int (length t + 6)))
             (\<lambda>st1. \<exists>lcs1. st1 = set_frame st stk lcs1 (?j + int (length t + 6 + length f)) \<and> ?Q lcs1)
        else sblock N t (set_frame st stk lcs (?j + 3))
             (\<lambda>st1. \<exists>lcs1. st1 = set_frame st stk lcs1 (?j + int (3 + length t)) \<and> ?Q lcs1)"
        by (simp only: if_False)
    qed
    then show ?thesis by (rule sblock_append_exec [OF exec_cond [OF e(1) h(1) v e(2)]])
  qed
  then show "sblock N (?ce @ if_code t f) (set_frame st stk lcs i) (\<lambda>st'. \<exists>\<rho>' lcs'. sem_stat (Stat_If e ts fs) \<rho> \<rho>' \<and>
         st' = set_frame st stk lcs' (i + int (length (?ce @ if_code t f))) \<and> holds \<Gamma> n \<rho>' lcs' \<and> length lcs' = length lcs)"
    by (rule sblock_mono) (auto simp: ac_simps)
qed

lemma sound_while:
  assumes body: "sound st stk (\<Gamma>, 0, n, m) (\<Gamma>b, kb, nb, m1) b (sem_scope body)" "env_grows (\<Gamma>, 0, n, m) (\<Gamma>b, kb, nb, m1)"
    and e: "type_of \<Gamma> e = Some TYPE_INT" "4 * (length stk + expr_depth e) \<le> stack_cap (current_frame st)"
    and size: "length (concat (code_of \<Gamma> e)) + length b + 6 < 256"
  shows "sound st stk (\<Gamma>, k, n, m) (\<Gamma>, k, n, m1) (while_code (concat (code_of \<Gamma> e)) b) (sem_stat (Stat_While e body))"
proof (rule soundI)
  let ?ce = "concat (code_of \<Gamma> e)"
  let ?jez = "[OPCODE_JEZ, jump_hi (length b + 3), jump_lo (length b + 3)]"
  let ?rj = "[OPCODE_RJMP, jump_hi (length ?ce + length b + 6), jump_lo (length ?ce + length b + 6)]"
  let ?C = "?ce @ ?jez @ b @ ?rj"
  have C: "while_code ?ce b = ?C" by (simp add: while_code_def)
  fix N \<rho> lcs i assume "holds \<Gamma> n \<rho> lcs" "m1 \<le> length lcs"
  then show "sblock N (while_code ?ce b) (set_frame st stk lcs i) (\<lambda>st'. \<exists>\<rho>' lcs'. sem_stat (Stat_While e body) \<rho> \<rho>' \<and>
      st' = set_frame st stk lcs' (i + int (length (while_code ?ce b))) \<and> holds \<Gamma> n \<rho>' lcs' \<and> length lcs' = length lcs)"
  proof (induction N arbitrary: \<rho> lcs)
    case (Suc N)
    let ?P = "\<lambda>st'. \<exists>\<rho>' lcs'. sem_stat (Stat_While e body) \<rho> \<rho>' \<and>
      st' = set_frame st stk lcs' (i + int (length (while_code ?ce b))) \<and> holds \<Gamma> n \<rho>' lcs' \<and> length lcs' = length lcs"
    note h = Suc.prems
    show ?case
    proof (cases "eval \<rho> e")
      case None
      from trap_holds [OF e(1) h(1) None e(2)] show ?thesis unfolding C by (rule sblock_append_trap)
    next
      case (Some v)
      have "val_type v = TYPE_INT" using eval_type [OF e(1)] Some h(1) unfolding holds_def by blast
      then obtain w where v: "eval \<rho> e = Some (Int_Val w)" using Some by (cases v) auto
      note cond = exec_cond [OF e(1) h(1) v e(2), of i]
      show ?thesis
      proof (cases "w = 0")
        case True
        have "sem_stat (Stat_While e body) \<rho> \<rho>" using v True by (intro sem_while_end) simp
        moreover have "exec_block (while_code ?ce b) (set_frame st stk lcs i) (set_frame st stk lcs (i + int (length (while_code ?ce b))))"
          by (rule exec_while_end [OF _ size]) (use cond True in simp)
        ultimately show ?thesis using h(1) by (intro sblock_exec) blast+
      next
        case False
        have 1: "vm_steps ?C (0, set_frame st stk lcs i) (int (length ?ce), set_frame st (w # stk) lcs (i + int (length ?ce)))"
          using block_steps [OF cond, of "[]" "?jez @ b @ ?rj"] by simp
        have "length b + 3 < 256" using size by simp
        from step_jez [OF this, of ?ce "b @ ?rj" st w stk lcs "i + int (length ?ce)"] False
        have 2: "vm_step ?C (int (length ?ce), set_frame st (w # stk) lcs (i + int (length ?ce)))
            (int (length ?ce + 3), set_frame st stk lcs (i + int (length ?ce + 3)))" by (simp add: ac_simps)
        note blk = sound_block [OF body h, of N "i + int (length ?ce + 3)"]
        have "safe N ?C (int (length ?ce + 3), set_frame st stk lcs (i + int (length ?ce + 3)))
            (\<lambda>cfg. fst cfg = int (length ?C) \<and> ?P (snd cfg))"
        proof (rule safe_bind)
          show "safe N ?C (int (length ?ce + 3), set_frame st stk lcs (i + int (length ?ce + 3)))
            (\<lambda>cfg. fst cfg = int (length ?ce + 3 + length b) \<and> (\<exists>\<rho>1 lcs1. sem_scope body \<rho> \<rho>1 \<and>
               snd cfg = set_frame st stk lcs1 (i + int (length ?ce + 3) + int (length b)) \<and>
               holds \<Gamma> n (\<rho>1 |` dom \<rho>) lcs1 \<and> length lcs1 = length lcs))"
            using sblock_at [OF blk, of "?ce @ ?jez" ?rj] by (simp add: ac_simps)
          fix cfg assume "fst cfg = int (length ?ce + 3 + length b) \<and> (\<exists>\<rho>1 lcs1. sem_scope body \<rho> \<rho>1 \<and>
               snd cfg = set_frame st stk lcs1 (i + int (length ?ce + 3) + int (length b)) \<and>
               holds \<Gamma> n (\<rho>1 |` dom \<rho>) lcs1 \<and> length lcs1 = length lcs)"
          then obtain \<rho>1 lcs1 where r: "sem_scope body \<rho> \<rho>1" "holds \<Gamma> n (\<rho>1 |` dom \<rho>) lcs1" "length lcs1 = length lcs"
            and cfg: "cfg = (int (length ?ce + 3 + length b), set_frame st stk lcs1 (i + int (length ?ce + 3 + length b)))"
            by (cases cfg) (auto simp: ac_simps)
          have "m1 \<le> length lcs1" using h(2) r(3) by simp
          note ih = Suc.IH [OF r(2) this]
          have again: "sem_stat (Stat_While e body) \<rho> \<rho>'" if "sem_stat (Stat_While e body) (\<rho>1 |` dom \<rho>) \<rho>'" for \<rho>'
            by (rule sem_while [OF v False r(1) that])
          have rest: "sblock N (while_code ?ce b) (set_frame st stk lcs1 i) ?P"
            by (rule sblock_mono [OF ih]) (use again r(3) in auto)
          from step_rjmp [OF size, of "?ce @ ?jez @ b" "[]" st stk lcs1 "i + int (length ?ce + 3 + length b)"]
          have jump: "vm_step ?C cfg (0, set_frame st stk lcs1 i)" unfolding cfg by (simp add: ac_simps)
          from safe_Suc [OF safe_step [OF jump rest [unfolded sblock_def C]]]
          show "safe N ?C cfg (\<lambda>cfg. fst cfg = int (length ?C) \<and> ?P (snd cfg))" unfolding C .
        qed
        from safe_steps [OF 1 safe_step [OF 2 this]] show ?thesis unfolding sblock_def C .
      qed
    qed
  qed (simp add: sblock_def)
qed

theorem elab_sound:
  "elab_stat cap page env s = Some (env', code) \<Longrightarrow>
    4 * (length stk + stat_depth s) \<le> stack_cap (current_frame st) \<Longrightarrow> sound st stk env env' code (sem_stat s)"
  "elab_scope cap page env ss = Some (env', code) \<Longrightarrow>
    4 * (length stk + scope_depth ss) \<le> stack_cap (current_frame st) \<Longrightarrow> sound st stk env env' code (sem_scope ss)"
proof (induction cap page env s and cap page env ss arbitrary: env' code and env' code
    rule: elab_stat_elab_scope.induct)
  case (1 cap page env e)
  then obtain x r chunks where x: "e = Binary_Op TYPE_UNKNWN ASSIGNMENT (Ident TYPE_UNKNWN x) r"
    "elab_assign cap env x r = Some (env', chunks)" "code = concat chunks" using elab_Stat_Expr by blast
  obtain \<Gamma> k n m \<Gamma>' k' n' m' where env: "env = (\<Gamma>, k, n, m)" "env' = (\<Gamma>', k', n', m')" by (metis prod.exhaust)
  show ?case using sound_assign [OF x(2) [unfolded env]] "1.prems"(2) unfolding env x(1,3) by simp
next
  case (2 cap page \<Gamma> k n m e ts fs)
  obtain \<Gamma>t kt nt m1 t \<Gamma>f kf nf m2 f where tf: "elab_scope cap 512 (\<Gamma>, 0, n, m) ts = Some ((\<Gamma>t, kt, nt, m1), t)"
    "(case fs of None \<Rightarrow> Some ((\<Gamma>, 0, n, m1), []) | Some fs \<Rightarrow> elab_scope cap 512 (\<Gamma>, 0, n, m1) fs) =
      Some ((\<Gamma>f, kf, nf, m2), f)"
    "type_of \<Gamma> e = Some TYPE_INT" "length t + 3 < 256" "length f \<le> 65535" "length t + length f + 6 \<le> page"
    "env' = (\<Gamma>, k, n, m2)" "code = concat (code_of \<Gamma> e) @ if_code t f"
    using "2.prems"(1) by (simp split: option.splits if_splits prod.splits)
  have room: "4 * (length stk + expr_depth e) \<le> stack_cap (current_frame st)"
    "4 * (length stk + scope_depth ts) \<le> stack_cap (current_frame st)"
    "4 * (length stk + (case fs of None \<Rightarrow> 0 | Some fs \<Rightarrow> scope_depth fs)) \<le> stack_cap (current_frame st)"
    using "2.prems"(2) by auto
  have "sound st stk (\<Gamma>, 0, n, m1) (\<Gamma>f, kf, nf, m2) f (sem_scope (case fs of None \<Rightarrow> [] | Some fs \<Rightarrow> fs)) \<and>
      env_grows (\<Gamma>, 0, n, m1) (\<Gamma>f, kf, nf, m2)"
  proof (cases fs)
    case None
    have "sound st stk (\<Gamma>, 0, n, m1) (\<Gamma>, 0, n, m1) [] (sem_scope [])"
      by (rule soundI) (use sem_Nil in \<open>fastforce intro: sblock_exec [OF exec_block_Nil]\<close>)
    with None tf(2) show ?thesis by simp
  next
    case (Some ss)
    with tf(2) have ss: "elab_scope cap 512 (\<Gamma>, 0, n, m1) ss = Some ((\<Gamma>f, kf, nf, m2), f)" by simp
    from "2.IH"(2) [OF tf(1) _ _ _ _ Some ss] room(3) elab_grows(2) [OF ss] Some show ?thesis by simp
  qed
  then show ?case
    unfolding tf(7,8) using sound_if [OF "2.IH"(1) [OF tf(1) room(2)] elab_grows(2) [OF tf(1)] _ _ tf(3) room(1) tf(4,5)] by blast
next
  case (3 cap page \<Gamma> k n m e body)
  obtain \<Gamma>b kb nb m1 b where b: "elab_scope cap 512 (\<Gamma>, 0, n, m) body = Some ((\<Gamma>b, kb, nb, m1), b)"
    "type_of \<Gamma> e = Some TYPE_INT" "length (concat (code_of \<Gamma> e)) + length b + 6 < 256"
    "env' = (\<Gamma>, k, n, m1)" "code = while_code (concat (code_of \<Gamma> e)) b" by (rule elab_While [OF "3.prems"(1)])
  have room: "4 * (length stk + expr_depth e) \<le> stack_cap (current_frame st)"
    "4 * (length stk + scope_depth body) \<le> stack_cap (current_frame st)" using "3.prems"(2) by auto
  show ?case unfolding b(4,5)
    by (rule sound_while [OF "3.IH" [OF b(1) room(2)] elab_grows(2) [OF b(1)] b(2) room(1) b(3)])
next
  case (5 cap page env)
  then have env: "env' = env" "code = []" by simp_all
  show ?case unfolding env by (cases env) (auto simp: sound_def intro: sblock_exec [OF exec_block_Nil] sem_Nil)
next
  case (6 cap page env s ss)
  obtain env1 a env2 b where ab: "elab_stat cap page env s = Some (env1, a)" "elab_scope cap page env1 ss = Some (env2, b)"
    "env' = env2" "code = a @ b" using "6.prems"(1) by (simp split: option.splits prod.splits)
  have room: "4 * (length stk + stat_depth s) \<le> stack_cap (current_frame st)"
    "4 * (length stk + scope_depth ss) \<le> stack_cap (current_frame st)" using "6.prems"(2) by auto
  obtain \<Gamma> k n m \<Gamma>1 k1 n1 m1 \<Gamma>' k' n' m' where env: "env = (\<Gamma>, k, n, m)" "env1 = (\<Gamma>1, k1, n1, m1)"
    "env2 = (\<Gamma>', k', n', m')" by (metis prod.exhaust)
  note s1 = "6.IH"(1) [OF ab(1) room(1), unfolded env] and s2 = "6.IH"(2) [OF ab(1) _ ab(2) room(2), unfolded env]
  have m: "m1 \<le> m'" using elab_grows(2) [OF ab(2)] env by (simp add: env_grows_def)
  show ?case unfolding ab(3,4) env
  proof (rule soundI)
    fix N \<rho> lcs i assume h: "holds \<Gamma> n \<rho> lcs" "m' \<le> length lcs"
    then have "m1 \<le> length lcs" using m by simp
    note r1 = soundD [OF s1 h(1) this, of N i]
    show "sblock N (a @ b) (set_frame st stk lcs i) (\<lambda>st'. \<exists>\<rho>' lcs'. sem_scope (s # ss) \<rho> \<rho>' \<and>
         st' = set_frame st stk lcs' (i + int (length (a @ b))) \<and> holds \<Gamma>' n' \<rho>' lcs' \<and> length lcs' = length lcs)"
    proof (rule sblock_append [OF r1], elim exE conjE)
      fix st1 \<rho>1 lcs1 assume r: "sem_stat s \<rho> \<rho>1" "st1 = set_frame st stk lcs1 (i + int (length a))" "holds \<Gamma>1 n1 \<rho>1 lcs1"
        "length lcs1 = length lcs"
      have "m' \<le> length lcs1" using h(2) r(4) by simp
      from soundD [OF s2 [OF refl] r(3) this, of N "i + int (length a)"]
      show "sblock N b st1 (\<lambda>st'. \<exists>\<rho>' lcs'. sem_scope (s # ss) \<rho> \<rho>' \<and>
         st' = set_frame st stk lcs' (i + int (length (a @ b))) \<and> holds \<Gamma>' n' \<rho>' lcs' \<and> length lcs' = length lcs)"
        unfolding r(2) by (rule sblock_mono) (use sem_Cons [OF r(1)] r(4) in \<open>force simp: add.assoc\<close>)
    qed
  qed
qed auto

subsection \<open>The property\<close>

lemma sound_run:
  assumes "sound st (stack (current_frame st)) (\<Gamma>, k, n, m) (\<Gamma>', k', n', m') code R"
    and "holds \<Gamma> n \<rho> (locals (current_frame st))" "m' \<le> length (locals (current_frame st))"
  shows "vm_execute_opcodes run code st = Inl Out_Of_Fuel \<or> vm_execute_opcodes run code st = Inl Div_Trap \<or>
    (\<exists>\<rho>' lcs'. R \<rho> \<rho>' \<and> holds \<Gamma>' n' \<rho>' lcs' \<and>
       vm_execute_opcodes run code st = Inr (set_frame st (stack (current_frame st)) lcs' (int (length code))))"
proof -
  let ?P = "\<lambda>st'. \<exists>\<rho>' lcs'. R \<rho> \<rho>' \<and> st' = set_frame st (stack (current_frame st)) lcs' (int (length code)) \<and>
      holds \<Gamma>' n' \<rho>' lcs' \<and> length lcs' = length (locals (current_frame st))"
  have "sblock (Suc run) code st ?P" using soundD [OF assms, of "Suc run" 0] by (simp add: set_frame_id)
  from safe_run [OF this [unfolded sblock_def]]
  have "vm_run run code 0 st = Inl Out_Of_Fuel \<or> vm_run run code 0 st = Inl Div_Trap \<or>
      (\<exists>cfg. vm_run run code 0 st = Inr cfg \<and> fst cfg = int (length code) \<and> ?P (snd cfg))" by simp
  then show ?thesis by (auto simp: vm_execute_opcodes_def)
qed

lemma holds_typed: "holds \<Gamma> n \<rho> lcs \<Longrightarrow> \<Gamma> x = Some (t, slot) \<Longrightarrow> \<exists>v. \<rho> x = Some v \<and> val_type v = t"
  by (rule holds_slot(2))

text \<open>
  C5. Type soundness of compiled code. A block in the fragment of \<open>elab_scope\<close> compiles; its code,
  started where every variable in scope holds a value of its static type and with room for the
  block's variables and operands, does one of three things. It runs for ever; or it stops in
  the processor's trap for an integer division; or it ends behind its last byte with an
  unchanged operand stack, in a state the source semantics allows, in which every variable in
  scope, the new ones included, holds a value of the type the compiler recorded for it. It never
  reads memory no one wrote, never leaves the operand stack, the variables or the code, and
  never meets an opcode without a handler.
\<close>

theorem compiled_code_type_sound:
  assumes "elab_scope (sc_vars_cap (c_scope c)) (em_page_size em) (scope_env c) ss = Some ((\<Gamma>', k', n', m'), code)"
    and "sc_emitter (c_scope c) = Buffered em" "em_wf em" "5 \<le> em_page_size em"
  shows "\<exists>c'. compile_scope fuel ss c = Inr (0, c') \<and> em_bytes (block_emitter c') = em_bytes em @ code \<and>
     compiler_slots c' = \<Gamma>' \<and>
     (\<forall>st \<rho>. holds (compiler_slots c) (length (sc_vars (c_scope c)) + sc_vars_off (c_scope c)) \<rho> (locals (current_frame st)) \<longrightarrow>
        m' \<le> length (locals (current_frame st)) \<longrightarrow>
        4 * (length (stack (current_frame st)) + scope_depth ss) \<le> stack_cap (current_frame st) \<longrightarrow>
        (\<forall>run. vm_execute_opcodes run code st = Inl Out_Of_Fuel) \<or>
        (\<exists>run. vm_execute_opcodes run code st = Inl Div_Trap) \<or>
        (\<exists>run \<rho>' lcs'. sem_scope ss \<rho> \<rho>' \<and> \<rho>' = machine_env \<Gamma>' lcs' \<and>
           vm_execute_opcodes run code st = Inr (set_frame st (stack (current_frame st)) lcs' (int (length code))) \<and>
           (\<forall>x t slot. \<Gamma>' x = Some (t, slot) \<longrightarrow> (\<exists>v. \<rho>' x = Some v \<and> val_type v = t))))"
proof -
  have "ready c (em_page_size em)" using assms(2,3) by (intro readyI) simp_all
  then obtain c' where c': "compile_scope fuel ss c = Inr (0, c')" "grows c c' (em_page_size em) code"
    "scope_env c' = (\<Gamma>', k', n', m')"
    using elab_compiles(2) [OF assms(1,4), of fuel] by (auto simp: compiles_def)
  have bytes: "em_bytes (block_emitter c') = em_bytes em @ code"
    using c'(2) assms(2) by (simp add: grows_def emitted_def block_emitter_def)
  have run: "(\<forall>run. vm_execute_opcodes run code st = Inl Out_Of_Fuel) \<or>
      (\<exists>run. vm_execute_opcodes run code st = Inl Div_Trap) \<or>
      (\<exists>run \<rho>' lcs'. sem_scope ss \<rho> \<rho>' \<and> \<rho>' = machine_env \<Gamma>' lcs' \<and>
         vm_execute_opcodes run code st = Inr (set_frame st (stack (current_frame st)) lcs' (int (length code))) \<and>
         (\<forall>x t slot. \<Gamma>' x = Some (t, slot) \<longrightarrow> (\<exists>v. \<rho>' x = Some v \<and> val_type v = t)))"
    if h: "holds (compiler_slots c) (length (sc_vars (c_scope c)) + sc_vars_off (c_scope c)) \<rho> (locals (current_frame st))"
      "m' \<le> length (locals (current_frame st))"
      "4 * (length (stack (current_frame st)) + scope_depth ss) \<le> stack_cap (current_frame st)" for st \<rho>
  proof -
    have "sound st (stack (current_frame st)) (scope_env c) (\<Gamma>', k', n', m') code (sem_scope ss)"
      by (rule elab_sound(2) [OF assms(1) h(3)])
    note sr = sound_run [OF this [unfolded scope_env_def] h(1,2)]
    show ?thesis
    proof (cases "\<forall>run. vm_execute_opcodes run code st = Inl Out_Of_Fuel")
      case False
      then obtain run where "vm_execute_opcodes run code st \<noteq> Inl Out_Of_Fuel" by blast
      with sr [of run] consider "vm_execute_opcodes run code st = Inl Div_Trap"
        | \<rho>' lcs' where "sem_scope ss \<rho> \<rho>'" "holds \<Gamma>' n' \<rho>' lcs'"
          "vm_execute_opcodes run code st = Inr (set_frame st (stack (current_frame st)) lcs' (int (length code)))" by blast
      then show ?thesis
      proof cases
        case 2
        have "\<rho>' = machine_env \<Gamma>' lcs'" using 2(2) by (simp add: holds_def)
        with 2 holds_typed [OF 2(2)] show ?thesis by blast
      qed blast
    qed simp
  qed
  have "compiler_slots c' = \<Gamma>'" using c'(3) by (simp add: scope_env_def)
  then show ?thesis using c'(1) bytes run by blast
qed

lemma compiled_code_type_sound_witness:
  "(\<forall>run. vm_execute_opcodes run demo_block_code demo_block_machine = Inl Out_Of_Fuel) \<or>
   (\<exists>run. vm_execute_opcodes run demo_block_code demo_block_machine = Inl Div_Trap) \<or>
   (\<exists>run lcs' v. vm_execute_opcodes run demo_block_code demo_block_machine =
        Inr (set_frame demo_block_machine [] lcs' (int (length demo_block_code))) \<and>
      machine_env ((compiler_slots demo_block_compiler)(''y'' \<mapsto> (TYPE_INT, 2))) lcs' ''y'' = Some v \<and> val_type v = TYPE_INT)"
proof -
  let ?em = "compiler_emitter_buffered_new 64" and ?G = "(compiler_slots demo_block_compiler)(''y'' \<mapsto> (TYPE_INT, 2))"
  have c: "sc_vars_cap (c_scope demo_block_compiler) = 4" "sc_emitter (c_scope demo_block_compiler) = Buffered ?em"
    "length (sc_vars (c_scope demo_block_compiler)) = 2" "sc_vars_off (c_scope demo_block_compiler) = 0"
    "em_page_size ?em = 64" "em_wf ?em" "5 \<le> em_page_size ?em"
    by (simp_all add: demo_block_compiler_def demo_scope_def frame_init_scope_def compiler_emitter_buffered_new_def em_wf_def)
  have m: "stack (current_frame demo_block_machine) = []" "length (locals (current_frame demo_block_machine)) = 3"
    "stack_cap (current_frame demo_block_machine) = 8" "scope_depth demo_block = 2"
    by (simp_all add: demo_block_machine_def new_frame_def demo_block_def demo_loop_def)
  have "elab_scope (sc_vars_cap (c_scope demo_block_compiler)) (em_page_size ?em) (scope_env demo_block_compiler) demo_block =
     Some ((?G, 3, 3, 3), demo_block_code)" using demo_block_elab by (simp add: c)
  from compiled_code_type_sound [OF this c(2,6,7), of 0] have
    "\<forall>st \<rho>. holds (compiler_slots demo_block_compiler) 2 \<rho> (locals (current_frame st)) \<longrightarrow>
        3 \<le> length (locals (current_frame st)) \<longrightarrow>
        4 * (length (stack (current_frame st)) + scope_depth demo_block) \<le> stack_cap (current_frame st) \<longrightarrow>
        (\<forall>run. vm_execute_opcodes run demo_block_code st = Inl Out_Of_Fuel) \<or>
        (\<exists>run. vm_execute_opcodes run demo_block_code st = Inl Div_Trap) \<or>
        (\<exists>run \<rho>' lcs'. sem_scope demo_block \<rho> \<rho>' \<and> \<rho>' = machine_env ?G lcs' \<and>
           vm_execute_opcodes run demo_block_code st =
             Inr (set_frame st (stack (current_frame st)) lcs' (int (length demo_block_code))) \<and>
           (\<forall>x t slot. ?G x = Some (t, slot) \<longrightarrow> (\<exists>v. \<rho>' x = Some v \<and> val_type v = t)))"
    unfolding c(3,4) add_0_right by blast
  from this [rule_format, OF demo_block_holds] m consider
      "\<forall>run. vm_execute_opcodes run demo_block_code demo_block_machine = Inl Out_Of_Fuel"
    | "\<exists>run. vm_execute_opcodes run demo_block_code demo_block_machine = Inl Div_Trap"
    | run lcs' where "vm_execute_opcodes run demo_block_code demo_block_machine =
        Inr (set_frame demo_block_machine [] lcs' (int (length demo_block_code)))"
      "\<forall>x t slot. ?G x = Some (t, slot) \<longrightarrow> (\<exists>v. machine_env ?G lcs' x = Some v \<and> val_type v = t)"
    by (simp del: fun_upd_apply) blast
  then show ?thesis
  proof cases
    case 3
    have "?G ''y'' = Some (TYPE_INT, 2)" by simp
    with 3(2) obtain v where "machine_env ?G lcs' ''y'' = Some v" "val_type v = TYPE_INT" by blast
    with 3(1) show ?thesis by blast
  qed blast+
qed

end
