(* ===== verification/Stat_Stack.thy ===== *)
theory Stat_Stack
  imports Stat_Exec
begin

text \<open>
  The stack accounting of statements: the maximum recorded while a statement is compiled covers
  the words its code needs. The condition of a selection or a loop stays on the account, since
  the jump that pops it is emitted without one; \<open>scope_words\<close> bounds what this adds up to.
\<close>

fun stat_left :: "stat \<Rightarrow> nat" where
  "stat_left (Stat_If e ts fs) = 1"
| "stat_left (Stat_While e body) = 1"
| "stat_left _ = 0"

fun stat_words :: "stat \<Rightarrow> nat" and scope_words :: "stat list \<Rightarrow> nat" where
  "stat_words (Stat_Expr e) = (case e of Binary_Op t oper l r \<Rightarrow> expr_depth r | _ \<Rightarrow> 0)"
| "stat_words (Stat_If e ts fs) =
     max (expr_depth e) (1 + max (scope_words ts) (case fs of None \<Rightarrow> 0 | Some fs \<Rightarrow> scope_words fs))"
| "stat_words (Stat_While e body) = max (expr_depth e) (scope_words body)"
| "stat_words _ = 0"
| "scope_words [] = 0"
| "scope_words (s # ss) = max (stat_words s) (stat_left s + scope_words ss)"

text \<open>
  \<open>covered c c' left d w\<close>: compiling took the running size up by \<open>left\<close> words, and the recorded
  maximum covers \<open>d\<close> more words and at most \<open>w\<close>.
\<close>

definition covered :: "compiler \<Rightarrow> compiler \<Rightarrow> nat \<Rightarrow> nat \<Rightarrow> nat \<Rightarrow> bool" where
  "covered c c' left d w \<longleftrightarrow>
     unat (sc_stack_size (c_scope c')) = unat (sc_stack_size (c_scope c)) + 4 * left \<and>
     max (unat (c_stack_max c)) (4 * d) \<le> unat (c_stack_max c') \<and>
     unat (c_stack_max c') \<le> max (unat (c_stack_max c)) (unat (sc_stack_size (c_scope c)) + 4 * w)"

lemma covered_refl: "covered c c 0 0 w"
  by (simp add: covered_def)

lemma covered_trans:
  assumes "covered c c1 l1 d1 w1" "covered c1 c2 l2 d2 w2"
  shows "covered c c2 (l1 + l2) (max d1 d2) (max w1 (l1 + w2))"
  using assms by (auto simp: covered_def max_def split: if_splits)

lemma covered_same:
  "covered c c' l d w \<Longrightarrow> sc_stack_size (c_scope c2) = sc_stack_size (c_scope c') \<Longrightarrow> c_stack_max c2 = c_stack_max c' \<Longrightarrow>
   covered c c2 l d w"
  by (simp add: covered_def)

text \<open>Expressions: the emissions of \<open>emit_seq\<close> are accounted for one by one.\<close>

lemma emit_seq_account:
  assumes "ready c page" "\<forall>bytes \<in> set chunks. length bytes \<le> page" "emit_seq fuel chunks c = Inr (ret, c')"
  shows "(sc_stack_size (c_scope c'), c_stack_max c') = stack_account chunks (sc_stack_size (c_scope c), c_stack_max c)"
proof -
  obtain em where em: "sc_emitter (c_scope c) = Buffered em" "em_wf em" "em_page_size em = page"
    using assms(1) by (auto simp: ready_def)
  then obtain em' where "emit_seq fuel chunks c = Inr (0, set_emitter (Buffered em') (scope_account chunks c))"
    using emit_seq_buffered [OF em(1,2)] assms(2) by blast
  then have "c' = set_emitter (Buffered em') (scope_account chunks c)" using assms(3) by simp
  then show ?thesis by (simp add: scope_account_def split: prod.split)
qed

lemma covered_cond:
  assumes "type_of (compiler_slots c) e = Some t" "ready c page" "5 \<le> page" "compile_expression fuel e c = Inr (ret, c')"
    and "unat (sc_stack_size (c_scope c)) + 4 * expr_depth e < 2 ^ 64"
  shows "covered c c' 1 (expr_depth e) (expr_depth e)"
proof -
  have small: "\<forall>bytes \<in> set (code_of (compiler_slots c) e). length bytes \<le> page"
    using code_of_length assms(3) by (meson order_trans)
  have "emit_seq fuel (code_of (compiler_slots c) e) c = Inr (ret, c')"
    using assms(4) compile_expression_emits [OF assms(1)] by simp
  note acc = emit_seq_account [OF assms(2) small this]
  obtain m' where "accounts (code_of (compiler_slots c) e) (expr_depth e) (sc_stack_size (c_scope c)) (c_stack_max c) m'"
    using account_expression [OF assms(1,5)] by blast
  then show ?thesis
    using acc assms(5) expr_depth_pos [of e] unat_add_4 [of "sc_stack_size (c_scope c)"]
    by (auto simp: accounts_def covered_def)
qed

lemma elab_assign_shape:
  assumes "elab_assign cap (\<Gamma>, k, n, m) x e = Some (env', chunks)" "type_of \<Gamma> e = Some t"
  shows "\<exists>cast oper slot. chunks = code_of \<Gamma> e @ cast @ [[oper, slot]] \<and> (cast = [] \<or> cast = [[OPCODE_I2F]]) \<and>
    (oper = OPCODE_ISAVE \<or> oper = OPCODE_FSAVE)"
proof -
  have save: "OPCODE_SAVE t = OPCODE_ISAVE \<or> OPCODE_SAVE t = OPCODE_FSAVE"
    using type_of_range [OF assms(2)] by (auto simp: OPCODE_SAVE_def)
  show ?thesis
  proof (cases "\<Gamma> x")
    case None
    with assms have "chunks = code_of \<Gamma> e @ [] @ [[OPCODE_SAVE t, word_of_nat n]]" by (auto split: if_splits)
    with save show ?thesis by blast
  next
    case (Some p)
    obtain u slot where p: "p = (u, slot)" by (cases p)
    have "chunks = code_of \<Gamma> e @ [] @ [[OPCODE_SAVE t, slot]] \<or>
        chunks = code_of \<Gamma> e @ [[OPCODE_I2F]] @ [[OPCODE_FSAVE, slot]]"
      using assms Some p by (auto split: if_splits)
    with save show ?thesis by blast
  qed
qed

lemma covered_assign:
  assumes elab: "elab_assign (sc_vars_cap (c_scope c)) (scope_env c) x e = Some (env', chunks)"
    and rdy: "ready c page" "5 \<le> page" and cs: "compile_statement fuel (assign x e) c = Inr (ret, c')"
    and room: "unat (sc_stack_size (c_scope c)) + 4 * expr_depth e < 2 ^ 64"
  shows "covered c c' 0 (expr_depth e) (expr_depth e)"
proof -
  let ?s = "sc_stack_size (c_scope c)" and ?G = "compiler_slots c"
  have small: "\<forall>bytes \<in> set chunks. length bytes \<le> page"
    using elab_assign_chunks [OF elab] rdy(2) by (meson order_trans)
  obtain c1 where c1: "compile_statement fuel (assign x e) c = emit_seq fuel chunks c1"
    "sc_emitter (c_scope c1) = sc_emitter (c_scope c)" "sc_stack_size (c_scope c1) = ?s" "c_stack_max c1 = c_stack_max c"
    using assign_emits [OF elab] by metis
  have "ready c1 page" using rdy(1) c1(2) by (simp add: ready_def)
  from emit_seq_account [OF this small cs [unfolded c1(1)]]
  have acc: "(sc_stack_size (c_scope c'), c_stack_max c') = stack_account chunks (?s, c_stack_max c)" by (simp add: c1(3,4))
  obtain t where t: "type_of ?G e = Some t" using elab by (auto simp: scope_env_def split: option.splits)
  obtain m' where m': "accounts (code_of ?G e) (expr_depth e) ?s (c_stack_max c) m'"
    using account_expression [OF t room] by blast
  have s4: "unat (?s + 4) = unat ?s + 4" using room expr_depth_pos [of e] unat_add_4 [of ?s] by simp
  have le: "?s + 4 \<le> m'" using m' s4 expr_depth_pos [of e] by (simp add: accounts_def word_le_nat_alt)
  have "?s \<le> ?s + 4" using s4 by (simp add: word_le_nat_alt)
  then have le': "?s \<le> m'" using le by (rule order_trans)
  from elab_assign_shape [OF elab [unfolded scope_env_def] t]
  obtain cast oper slot where chunks: "chunks = code_of ?G e @ cast @ [[oper, slot]]" "cast = [] \<or> cast = [[OPCODE_I2F]]"
    "oper = OPCODE_ISAVE \<or> oper = OPCODE_FSAVE" by blast
  have "stack_account chunks (?s, c_stack_max c) = (?s, m')"
    using m' chunks le le' by (auto simp: accounts_def stack_account_append stack_inc_simps Let_def max_absorb1)
  then show ?thesis using acc m' by (simp add: covered_def accounts_def)
qed

text \<open>Blocks: the account of the enclosing scope is untouched, the maximum is shared.\<close>

lemma enter_leave_account [simp]:
  "sc_stack_size (c_scope (enter_block stk c)) = stk" "c_stack_max (enter_block stk c) = c_stack_max c"
  "c_stack_max (leave_scope b) = c_stack_max b"
  by (simp_all add: enter_block_def enter_scope_def block_scope_def frame_init_scope_def leave_scope_def)

lemma emit_n_account:
  "compiler_emit_n fuel bytes c = Inr (ret, c') \<Longrightarrow>
   sc_stack_size (c_scope c') = sc_stack_size (c_scope c) \<and> c_stack_max c' = c_stack_max c"
  by (auto simp: compiler_emit_n_def split: emitter_kind.splits)

lemma emit_selection_account:
  "emit_selection fuel te fe c = Inr (ret, c') \<Longrightarrow>
   sc_stack_size (c_scope c') = sc_stack_size (c_scope c) \<and> c_stack_max c' = c_stack_max c"
  by (auto simp: emit_selection_def cseq_def Let_def split: if_splits dest: emit_n_account)

lemma emit_loop_account:
  "emit_loop fuel ee be c = Inr (ret, c') \<Longrightarrow>
   sc_stack_size (c_scope c') = sc_stack_size (c_scope c) \<and> c_stack_max c' = c_stack_max c"
  by (auto simp: emit_loop_def cseq_def Let_def split: if_splits dest: emit_n_account)

text \<open>\<open>accounted\<close>: the accounting property of a compile function on the fragment.\<close>

definition accounted :: "nat \<Rightarrow> (compiler \<Rightarrow> (int \<times> compiler) result) \<Rightarrow> nat \<Rightarrow> env \<Rightarrow> nat \<Rightarrow> nat \<Rightarrow> nat \<Rightarrow> bool" where
  "accounted cap cf page env left d w \<longleftrightarrow>
     (\<forall>c ret c'. sc_vars_cap (c_scope c) = cap \<longrightarrow> scope_env c = env \<longrightarrow> ready c page \<longrightarrow> cf c = Inr (ret, c') \<longrightarrow>
        unat (sc_stack_size (c_scope c)) + 4 * w < 2 ^ 64 \<longrightarrow>
        (\<exists>l. covered c c' l d w \<and> l \<le> left))"

lemma accounted_block:
  assumes "accounted cap (compile_scope fuel ss) 512 (\<Gamma>, 0, n, m) left d w"
    and "sc_vars_cap (c_scope c) = cap" "scope_env c = (\<Gamma>, k, n, m)"
    and "compile_scope fuel ss (enter_block stk c) = Inr (ret, b)" "unat stk + 4 * w < 2 ^ 64"
  shows "max (unat (c_stack_max c)) (4 * d) \<le> unat (c_stack_max b) \<and>
     unat (c_stack_max b) \<le> max (unat (c_stack_max c)) (unat stk + 4 * w)"
proof -
  have "compiler_slots c = \<Gamma>" using assms(3) by (simp add: scope_env_def)
  then have env: "scope_env (enter_block stk c) = (\<Gamma>, 0, n, m)" "sc_vars_cap (c_scope (enter_block stk c)) = cap"
    using assms(2,3) by (simp_all add: enter_block_facts(3,4))
  have "unat (sc_stack_size (c_scope (enter_block stk c))) + 4 * w < 2 ^ 64" using assms(5) by simp
  then obtain l where "covered (enter_block stk c) b l d w"
    using assms(1,4) env enter_block_facts(1) unfolding accounted_def by blast
  then show ?thesis by (simp add: covered_def)
qed

text \<open>Selections and loops.\<close>

lemma accounted_if:
  assumes ts: "compiles cap (compile_scope fuel ts) 512 (\<Gamma>, 0, n, m) (\<Gamma>t, kt, nt, m1) t"
      "accounted cap (compile_scope fuel ts) 512 (\<Gamma>, 0, n, m) lt dt wt"
    and fs: "case fs of None \<Rightarrow> f = [] \<and> m2 = m1 \<and> df = 0 \<and> wx = 0
      | Some ss \<Rightarrow> compiles cap (compile_scope fuel ss) 512 (\<Gamma>, 0, n, m1) (\<Gamma>f, kf, nf, m2) f \<and>
          accounted cap (compile_scope fuel ss) 512 (\<Gamma>, 0, n, m1) lf df wx"
    and e: "type_of \<Gamma> e = Some TYPE_INT" "5 \<le> page"
  shows "accounted cap (compile_statement fuel (Stat_If e ts fs)) page (\<Gamma>, k, n, m) 1
    (max (expr_depth e) (max dt df)) (max (expr_depth e) (1 + max wt wx))"
  unfolding accounted_def
proof (intro allI impI)
  fix c ret c' assume c: "sc_vars_cap (c_scope c) = cap" "scope_env c = (\<Gamma>, k, n, m)" "ready c page"
    and run: "compile_statement fuel (Stat_If e ts fs) c = Inr (ret, c')"
    and room: "unat (sc_stack_size (c_scope c)) + 4 * max (expr_depth e) (1 + max wt wx) < 2 ^ 64"
  have G: "compiler_slots c = \<Gamma>" using c(2) by (simp add: scope_env_def)
  obtain c1 where c1: "compile_expression fuel e c = Inr (0, c1)" "grows c c1 page (concat (code_of \<Gamma> e))"
    "scope_env c1 = (\<Gamma>, k, n, m)" using compile_cond [of c e _ page fuel] e G c(2,3) by auto
  have r1: "sc_vars_cap (c_scope c1) = cap" using c1(2) c(1) by (simp add: grows_def)
  have room1: "unat (sc_stack_size (c_scope c)) + 4 * expr_depth e < 2 ^ 64"
    using room by (simp add: max_def split: if_splits)
  have cond: "covered c c1 1 (expr_depth e) (expr_depth e)"
    using covered_cond [OF _ c(3) e(2) c1(1) room1] e(1) G by simp
  let ?s1 = "sc_stack_size (c_scope c1)"
  have s1: "unat ?s1 = unat (sc_stack_size (c_scope c)) + 4" using cond by (simp add: covered_def)
  obtain bt where bt: "compile_scope fuel ts (enter_block ?s1 c1) = Inr (0, bt)" "grows (enter_block ?s1 c1) bt 512 t"
    "scope_env bt = (\<Gamma>t, kt, nt, m1)" using compile_block [OF ts(1) r1 c1(3)] by blast
  note lt = leave_block [OF bt(2)]
  have room2: "unat ?s1 + 4 * wt < 2 ^ 64" "unat ?s1 + 4 * wx < 2 ^ 64"
    using room s1 by (simp_all add: max_def split: if_splits)
  have tmax: "max (unat (c_stack_max c1)) (4 * dt) \<le> unat (c_stack_max bt)"
    "unat (c_stack_max bt) \<le> max (unat (c_stack_max c1)) (unat ?s1 + 4 * wt)"
    using accounted_block [OF ts(2) r1 c1(3) bt(1) room2(1)] by simp_all
  have r2: "sc_vars_cap (c_scope (leave_scope bt)) = cap" "scope_env (leave_scope bt) = (\<Gamma>, k, n, m1)"
    using lt(1,9) r1 c1(3) bt(3) by (simp_all add: scope_env_def)
  have "\<exists>bf. (case fs of None \<Rightarrow> Inr (0, enter_block ?s1 (leave_scope bt))
        | Some stats \<Rightarrow> compile_scope fuel stats (enter_block ?s1 (leave_scope bt))) = Inr (0, bf) \<and>
      grows (enter_block ?s1 (leave_scope bt)) bf 512 f \<and>
      max (unat (c_stack_max bt)) (4 * df) \<le> unat (c_stack_max bf) \<and>
      unat (c_stack_max bf) \<le> max (unat (c_stack_max bt)) (unat ?s1 + 4 * wx)"
  proof (cases fs)
    case None
    with fs grows_refl [OF enter_block_facts(1)] show ?thesis by simp
  next
    case (Some ss)
    with fs have ss: "compiles cap (compile_scope fuel ss) 512 (\<Gamma>, 0, n, m1) (\<Gamma>f, kf, nf, m2) f"
      "accounted cap (compile_scope fuel ss) 512 (\<Gamma>, 0, n, m1) lf df wx" by simp_all
    obtain bf where bf: "compile_scope fuel ss (enter_block ?s1 (leave_scope bt)) = Inr (0, bf)"
      "grows (enter_block ?s1 (leave_scope bt)) bf 512 f" using compile_block [OF ss(1) r2] by blast
    with accounted_block [OF ss(2) r2 bf(1) room2(2)] Some show ?thesis by simp
  qed
  then obtain bf where bf: "(case fs of None \<Rightarrow> Inr (0, enter_block ?s1 (leave_scope bt))
        | Some stats \<Rightarrow> compile_scope fuel stats (enter_block ?s1 (leave_scope bt))) = Inr (0, bf)"
    "grows (enter_block ?s1 (leave_scope bt)) bf 512 f"
    "max (unat (c_stack_max bt)) (4 * df) \<le> unat (c_stack_max bf)"
    "unat (c_stack_max bf) \<le> max (unat (c_stack_max bt)) (unat ?s1 + 4 * wx)" by blast
  have "emit_selection fuel (block_emitter bt) (block_emitter bf) (leave_scope bf) = Inr (ret, c')"
    using run c1(1) bt(1) bf(1) lt(1) by (cases fs) simp_all
  from emit_selection_account [OF this] leave_block(1) [OF bf(2)] lt(1)
  have "sc_stack_size (c_scope c') = ?s1" "c_stack_max c' = c_stack_max bf" by simp_all
  then have "covered c c' 1 (max (expr_depth e) (max dt df)) (max (expr_depth e) (1 + max wt wx))"
    using cond s1 tmax bf(3,4) unfolding covered_def by (simp add: max_def split: if_splits)
  then show "\<exists>l. covered c c' l (max (expr_depth e) (max dt df)) (max (expr_depth e) (1 + max wt wx)) \<and> l \<le> 1" by blast
qed

lemma accounted_while:
  assumes body: "compiles cap (compile_scope fuel body) 512 (\<Gamma>, 0, n, m) (\<Gamma>b, kb, nb, m1) b"
      "accounted cap (compile_scope fuel body) 512 (\<Gamma>, 0, n, m) lb db wb"
    and e: "type_of \<Gamma> e = Some TYPE_INT"
  shows "accounted cap (compile_statement fuel (Stat_While e body)) page (\<Gamma>, k, n, m) 1
    (max (expr_depth e) db) (max (expr_depth e) wb)"
  unfolding accounted_def
proof (intro allI impI)
  fix c ret c' assume c: "sc_vars_cap (c_scope c) = cap" "scope_env c = (\<Gamma>, k, n, m)" "ready c page"
    and run: "compile_statement fuel (Stat_While e body) c = Inr (ret, c')"
    and room: "unat (sc_stack_size (c_scope c)) + 4 * max (expr_depth e) wb < 2 ^ 64"
  let ?c0 = "set_emitter (Buffered (compiler_emitter_buffered_new 256)) c"
  have r0: "ready ?c0 256" by (simp add: ready_def em_wf_def compiler_emitter_buffered_new_def)
  have G: "compiler_slots c = \<Gamma>" using c(2) by (simp add: scope_env_def)
  obtain c1 where c1: "compile_expression fuel e ?c0 = Inr (0, c1)" "grows ?c0 c1 256 (concat (code_of \<Gamma> e))"
    "scope_env c1 = (\<Gamma>, k, n, m)" using compile_cond [of ?c0 e _ 256 fuel] e G c(2) r0 by auto
  have tr: "truncate_vars (length (sc_vars (c_scope c))) c1 = c1"
    using truncate_vars_id [of c1] c1(3) c(2) by (simp add: scope_env_def)
  have r1: "sc_vars_cap (c_scope c1) = cap" using c1(2) c(1) by (simp add: grows_def)
  have cond: "covered ?c0 c1 1 (expr_depth e) (expr_depth e)"
    using covered_cond [OF _ r0 _ c1(1)] e G room by simp
  obtain bb where bb: "compile_scope fuel body (enter_block 0 c1) = Inr (0, bb)" "grows (enter_block 0 c1) bb 512 b"
    using compile_block [OF body(1) r1 c1(3)] by blast
  have bmax: "max (unat (c_stack_max c1)) (4 * db) \<le> unat (c_stack_max bb)"
    "unat (c_stack_max bb) \<le> max (unat (c_stack_max c1)) (4 * wb)"
    using accounted_block [OF body(2) r1 c1(3) bb(1)] room by simp_all
  have "emit_loop fuel (block_emitter (leave_scope bb)) (block_emitter bb)
      (set_emitter (sc_emitter (c_scope c)) (leave_scope bb)) = Inr (ret, c')"
    using run c1(1) bb(1) tr by simp
  from emit_loop_account [OF this] leave_block(1) [OF bb(2)]
  have "sc_stack_size (c_scope c') = sc_stack_size (c_scope c1)" "c_stack_max c' = c_stack_max bb" by simp_all
  then have "covered c c' 1 (max (expr_depth e) db) (max (expr_depth e) wb)"
    using cond bmax unfolding covered_def by (simp add: max_def split: if_splits)
  then show "\<exists>l. covered c c' l (max (expr_depth e) db) (max (expr_depth e) wb) \<and> l \<le> 1" by blast
qed

lemma accounted_Cons:
  assumes s: "compiles cap (compile_statement fuel s) page env env1 a" "accounted cap (compile_statement fuel s) page env l1 d1 w1"
    and ss: "accounted cap (compile_scope fuel ss) page env1 l2 d2 w2"
  shows "accounted cap (compile_scope fuel (s # ss)) page env (l1 + l2) (max d1 d2) (max w1 (l1 + w2))"
  unfolding accounted_def
proof (intro allI impI)
  fix c ret c' assume c: "sc_vars_cap (c_scope c) = cap" "scope_env c = env" "ready c page"
    and run: "compile_scope fuel (s # ss) c = Inr (ret, c')"
    and room: "unat (sc_stack_size (c_scope c)) + 4 * max w1 (l1 + w2) < 2 ^ 64"
  obtain c1 where c1: "compile_statement fuel s c = Inr (0, c1)" "grows c c1 page a" "scope_env c1 = env1"
    using s(1) c by (auto simp: compiles_def)
  have r1: "sc_vars_cap (c_scope c1) = cap" "ready c1 page" using c1(2) c(1) by (simp_all add: grows_def)
  have "unat (sc_stack_size (c_scope c)) + 4 * w1 < 2 ^ 64" using room by (simp add: max_def split: if_splits)
  then obtain l where l: "covered c c1 l d1 w1" "l \<le> l1" using s(2) c c1(1) unfolding accounted_def by blast
  have rest: "compile_scope fuel ss c1 = Inr (ret, c')" using run c1(1) by simp
  have "unat (sc_stack_size (c_scope c1)) + 4 * w2 < 2 ^ 64"
    using l room by (simp add: covered_def max_def split: if_splits)
  then obtain l' where l': "covered c1 c' l' d2 w2" "l' \<le> l2" using ss r1 c1(3) rest unfolding accounted_def by blast
  have "covered c c' (l + l') (max d1 d2) (max w1 (l + w2))" by (rule covered_trans [OF l(1) l'(1)])
  then have "covered c c' (l + l') (max d1 d2) (max w1 (l1 + w2))"
    using l(2) by (auto simp: covered_def max_def split: if_splits)
  then show "\<exists>l. covered c c' l (max d1 d2) (max w1 (l1 + w2)) \<and> l \<le> l1 + l2" using l(2) l'(2) add_mono by blast
qed

theorem elab_accounted:
  "elab_stat cap page env s = Some (env', code) \<Longrightarrow> 5 \<le> page \<Longrightarrow>
    accounted cap (compile_statement fuel s) page env (stat_left s) (stat_depth s) (stat_words s)"
  "elab_scope cap page env ss = Some (env', code) \<Longrightarrow> 5 \<le> page \<Longrightarrow>
    accounted cap (compile_scope fuel ss) page env (sum_list (map stat_left ss)) (scope_depth ss) (scope_words ss)"
proof (induction cap page env s and cap page env ss arbitrary: env' code and env' code
    rule: elab_stat_elab_scope.induct)
  case (1 cap page env e)
  then obtain x r chunks where x: "e = Binary_Op TYPE_UNKNWN ASSIGNMENT (Ident TYPE_UNKNWN x) r"
    "elab_assign cap env x r = Some (env', chunks)" using elab_Stat_Expr by blast
  show ?case unfolding accounted_def x(1)
  proof (intro allI impI)
    fix c ret c' assume c: "sc_vars_cap (c_scope c) = cap" "scope_env c = env" "ready c page"
      "compile_statement fuel (assign x r) c = Inr (ret, c')"
      "unat (sc_stack_size (c_scope c)) + 4 * stat_words (assign x r) < 2 ^ 64"
    have "covered c c' 0 (expr_depth r) (expr_depth r)"
      using covered_assign [OF _ c(3) "1.prems"(2) c(4)] x(2) c(1,2,5) by (simp del: compile_statement.simps)
    then show "\<exists>l. covered c c' l (stat_depth (assign x r)) (stat_words (assign x r)) \<and> l \<le> stat_left (assign x r)"
      by (intro exI [of _ 0]) simp
  qed
next
  case (2 cap page \<Gamma> k n m e ts fs)
  have five: "5 \<le> (512::nat)" by simp
  obtain \<Gamma>t kt nt m1 t \<Gamma>f kf nf m2 f where tf: "elab_scope cap 512 (\<Gamma>, 0, n, m) ts = Some ((\<Gamma>t, kt, nt, m1), t)"
    "(case fs of None \<Rightarrow> Some ((\<Gamma>, 0, n, m1), []) | Some fs \<Rightarrow> elab_scope cap 512 (\<Gamma>, 0, n, m1) fs) =
      Some ((\<Gamma>f, kf, nf, m2), f)" "type_of \<Gamma> e = Some TYPE_INT"
    using "2.prems"(1) by (simp split: option.splits if_splits prod.splits)
  let ?df = "case fs of None \<Rightarrow> 0 | Some fs \<Rightarrow> scope_depth fs" and ?wf = "case fs of None \<Rightarrow> 0 | Some fs \<Rightarrow> scope_words fs"
    and ?lf = "case fs of None \<Rightarrow> 0 | Some fs \<Rightarrow> sum_list (map stat_left fs)"
  have fs: "case fs of None \<Rightarrow> f = [] \<and> m2 = m1 \<and> ?df = 0 \<and> ?wf = 0
      | Some ss \<Rightarrow> compiles cap (compile_scope fuel ss) 512 (\<Gamma>, 0, n, m1) (\<Gamma>f, kf, nf, m2) f \<and>
          accounted cap (compile_scope fuel ss) 512 (\<Gamma>, 0, n, m1) ?lf ?df ?wf"
  proof (cases fs)
    case None with tf(2) show ?thesis by simp
  next
    case (Some ss)
    with tf(2) have ss: "elab_scope cap 512 (\<Gamma>, 0, n, m1) ss = Some ((\<Gamma>f, kf, nf, m2), f)" by simp
    from "2.IH"(2) [OF tf(1) _ _ _ _ Some ss five] elab_compiles(2) [OF ss five] Some show ?thesis by simp
  qed
  from accounted_if [OF elab_compiles(2) [OF tf(1) five] "2.IH"(1) [OF tf(1) five] fs tf(3) "2.prems"(2)]
  show ?case by (simp only: stat_left.simps stat_depth.simps stat_words.simps)
next
  case (3 cap page \<Gamma> k n m e body)
  have five: "5 \<le> (512::nat)" by simp
  obtain \<Gamma>b kb nb m1 b where b: "elab_scope cap 512 (\<Gamma>, 0, n, m) body = Some ((\<Gamma>b, kb, nb, m1), b)"
    "type_of \<Gamma> e = Some TYPE_INT" using "3.prems"(1) by (simp split: option.splits if_splits prod.splits)
  from accounted_while [OF elab_compiles(2) [OF b(1) five] "3.IH" [OF b(1) five] b(2)]
  show ?case by (simp only: stat_left.simps stat_depth.simps stat_words.simps)
next
  case (6 cap page env s ss)
  obtain env1 a env2 b where ab: "elab_stat cap page env s = Some (env1, a)" "elab_scope cap page env1 ss = Some (env2, b)"
    using "6.prems"(1) by (simp split: option.splits prod.splits)
  from accounted_Cons [OF elab_compiles(1) [OF ab(1) "6.prems"(2)] "6.IH"(1) [OF ab(1) "6.prems"(2)]
      "6.IH"(2) [OF ab(1) _ ab(2) "6.prems"(2)]]
  show ?case by (simp only: list.map sum_list.Cons scope_depth.simps scope_words.simps)
qed (auto simp: accounted_def intro: covered_refl)

end
