(* ===== verification/Func_Correct.thy ===== *)
theory Func_Correct
  imports Stat_Stack VM_Claims
begin

text \<open>
  Compiled functions: the constant pool is left alone by everything a body can contain, the
  parameters get the first slots, the slots of a body fit in a byte, and the signature the
  compiler builds is read back by the virtual machine.
\<close>

subsection \<open>The constant pool is left alone\<close>

definition const_pool :: "compiler \<Rightarrow> (string, nat) hashmap \<times> nat" where
  "const_pool c = (c_const_pool_map c, c_const_pool_map_size c)"

definition keeps :: "(string, nat) hashmap \<times> nat \<Rightarrow> (int \<times> compiler) result \<Rightarrow> bool" where
  "keeps P m \<longleftrightarrow> (\<forall>ret c. m = Inr (ret, c) \<longrightarrow> const_pool c = P)"

named_theorems pool_kept \<open>operations that leave the constant pool alone\<close>

lemma keeps_Inl [pool_kept]: "keeps P (Inl err)"
  by (simp add: keeps_def)

lemma keeps_Inr [pool_kept]: "const_pool c = P \<Longrightarrow> keeps P (Inr (ret, c))"
  by (simp add: keeps_def)

lemma keeps_sbind [pool_kept]: "(\<And>a. m = Inr a \<Longrightarrow> keeps P (f a)) \<Longrightarrow> keeps P (sbind m f)"
  by (cases m) (simp_all add: keeps_def)

lemma keeps_cbind [pool_kept]:
  "keeps P m \<Longrightarrow> (\<And>c. m = Inr (0, c) \<Longrightarrow> const_pool c = P \<Longrightarrow> keeps P (f c)) \<Longrightarrow> keeps P (cbind m f)"
  by (cases m) (auto simp: keeps_def cbind_def split: if_splits)

lemma keeps_cseq [pool_kept]:
  "keeps P m \<Longrightarrow> (\<And>ret c. m = Inr (ret, c) \<Longrightarrow> const_pool c = P \<Longrightarrow> keeps P (f c)) \<Longrightarrow> keeps P (cseq m f)"
  by (cases m) (auto simp: keeps_def cseq_def)

lemma const_pool_simps [simp]:
  "const_pool (frame_increment_stack_size d c) = const_pool c" "const_pool (enter_block stk c) = const_pool c"
  "const_pool (leave_scope c) = const_pool c" "const_pool (set_emitter em c) = const_pool c"
  "const_pool (truncate_vars n c) = const_pool c"
  by (simp_all add: const_pool_def frame_increment_stack_size_def Let_def enter_block_def enter_scope_def
      leave_scope_def set_emitter_def truncate_vars_def)

lemma keeps_emit_n [pool_kept]: "const_pool c = P \<Longrightarrow> keeps P (compiler_emit_n fuel data c)"
  by (auto simp: keeps_def compiler_emit_n_def const_pool_def split: emitter_kind.splits)

lemma keeps_emits [pool_kept]:
  "const_pool c = P \<Longrightarrow> keeps P (emit_opcode fuel opcode c)"
  "const_pool c = P \<Longrightarrow> keeps P (compiler_emit_1 fuel opcode byte1 c)"
  "const_pool c = P \<Longrightarrow> keeps P (compiler_emit_2 fuel opcode byte1 byte2 c)"
  "const_pool c = P \<Longrightarrow> keeps P (compile_literal_int fuel n c)"
  "const_pool c = P \<Longrightarrow> keeps P (compile_literal_float fuel x c)"
  "const_pool c = P \<Longrightarrow> keeps P (compile_ident fuel name c)"
  by (auto simp: emit_opcode_def compiler_emit_0_def compiler_emit_1_def compiler_emit_2_def Let_def
      compile_literal_int_def compile_literal_float_def compile_ident_def intro!: pool_kept split: option.split)

lemma const_pool_target:
  "assignment_target left t c = Inr (var, cast, vt, c') \<Longrightarrow> const_pool c' = const_pool c"
  by (auto simp: assignment_target_def frame_define_var_def Let_def const_pool_def
      split: expr.splits option.splits if_splits)

lemma keeps_expression:
  "const_pool c = P \<Longrightarrow> keeps P (compile_expression fuel e c)"
  "const_pool c = P \<Longrightarrow> keeps P (compile_call_args fuel e c)"
proof (induction fuel e c and fuel e c rule: compile_expression_compile_call_args.induct)
  case (6 fuel t oper left right c)
  show ?case
  proof (cases "oper = ASSIGNMENT")
    case True
    then show ?thesis
      using "6.prems" "6.IH"(1)
      by (auto simp: Let_def const_pool_target simp del: ast_node_trace_data_type.simps intro!: pool_kept)
  next
    case False
    show ?thesis
    proof (cases "oper = FUNCTION_CALL")
      case True
      then show ?thesis
        using "6.prems" "6.IH"(2) False
        by (auto simp: Let_def simp del: compile_call_args.simps intro!: pool_kept split: expr.split)
    next
      case nf: False
      show ?thesis
        using "6.prems" "6.IH"(3,4) False nf
        by (auto simp: Let_def simp del: ast_node_trace_data_type.simps compile_call_args.simps
            intro!: pool_kept split: expr.split)
    qed
  qed
next
  case (12 fuel current_arg c)
  then show ?case
    unfolding compile_call_args.simps [of fuel current_arg]
    by (auto simp del: compile_call_args.simps intro!: pool_kept split: expr.split)
qed (auto simp: Let_def intro!: pool_kept)

lemma keeps_statement:
  "const_pool c = P \<Longrightarrow> keeps P (compile_statement fuel s c)"
  "const_pool c = P \<Longrightarrow> keeps P (compile_scope fuel ss c)"
proof (induction fuel s c and fuel ss c rule: compile_statement_compile_scope.induct)
  case (2 fuel e true_scope false_scope c)
  then show ?case
    by (auto simp: emit_selection_def Let_def simp del: compile_expression.simps
        intro!: pool_kept keeps_expression split: option.split)
next
  case (3 fuel e loop_scope c)
  then show ?case
    by (auto simp: emit_loop_def Let_def simp del: compile_expression.simps intro!: pool_kept keeps_expression)
qed (auto simp del: compile_expression.simps intro!: pool_kept keeps_expression)

lemma const_pool_register_frame:
  assumes "const_pool_register_value value c = Inr (index, c1)" "const_pool c' = const_pool c"
  obtains m n where "const_pool_register_value value c' = Inr (index, c'\<lparr>c_const_pool_map := m, c_const_pool_map_size := n\<rparr>)"
  using assms by (auto simp: const_pool_register_value_def const_pool_def split: option.splits nat.splits prod.splits)

subsection \<open>Parameters\<close>

text \<open>The slots of the parameters, from slot \<open>n\<close> on, and the store a call starts with.\<close>

definition arg_type :: "string \<Rightarrow> static_type" where
  "arg_type type_name = (if type_name = ''float'' then TYPE_FLOAT else TYPE_INT)"

definition arg_val :: "string \<Rightarrow> i32 \<Rightarrow> val" where
  "arg_val type_name w = (if type_name = ''float'' then Float_Val w else Int_Val w)"

fun arg_slots :: "nat \<Rightarrow> slots \<Rightarrow> (string \<times> string) list \<Rightarrow> slots" where
  "arg_slots n \<Gamma> [] = \<Gamma>"
| "arg_slots n \<Gamma> ((x, ty) # args) = arg_slots (Suc n) (\<Gamma>(x \<mapsto> (arg_type ty, word_of_nat n))) args"

fun arg_store :: "store \<Rightarrow> (string \<times> string) list \<Rightarrow> i32 list \<Rightarrow> store" where
  "arg_store \<rho> ((x, ty) # args) (w # ws) = arg_store (\<rho>(x \<mapsto> arg_val ty w)) args ws"
| "arg_store \<rho> _ _ = \<rho>"

definition args_ok :: "(string \<times> string) list \<Rightarrow> bool" where
  "args_ok args \<longleftrightarrow> distinct (map fst args) \<and> (\<forall>(x, ty) \<in> set args. ty = ''int'' \<or> ty = ''float'')"

lemma args_ok_Cons:
  "args_ok ((x, ty) # args) \<longleftrightarrow> x \<notin> fst ` set args \<and> (ty = ''int'' \<or> ty = ''float'') \<and> args_ok args"
  by (auto simp: args_ok_def)

lemma define_args_slots:
  assumes "args_ok args" "\<forall>x \<in> fst ` set args. compiler_slots c x = None"
    and "scope_env c = (\<Gamma>, n, n, n)" "n + length args \<le> sc_vars_cap (c_scope c)"
  shows "\<exists>vars m. define_args args c = Inr (c\<lparr>c_scope := (c_scope c)\<lparr>sc_vars := vars\<rparr>, c_vars_max := m\<rparr>) \<and>
    scope_env (c\<lparr>c_scope := (c_scope c)\<lparr>sc_vars := vars\<rparr>, c_vars_max := m\<rparr>) =
      (arg_slots n \<Gamma> args, n + length args, n + length args, n + length args)"
  using assms
proof (induction args arbitrary: c \<Gamma> n)
  case Nil
  then show ?case by (intro exI [of _ "sc_vars (c_scope c)"] exI [of _ "c_vars_max c"]) simp
next
  case (Cons p args)
  obtain x ty where p: "p = (x, ty)" by (cases p)
  have ok: "x \<notin> fst ` set args" "ty = ''int'' \<or> ty = ''float''" "args_ok args"
    using Cons.prems(1) unfolding p args_ok_Cons by simp_all
  have ty: "static_type_by_name ty = Inr (arg_type ty)"
    using ok(2) by (auto simp: static_type_by_name_def arg_type_def)
  have env: "length (sc_vars (c_scope c)) = n" "sc_vars_off (c_scope c) = 0" "c_vars_max c = n" "compiler_slots c = \<Gamma>"
    using Cons.prems(3) by (auto simp: scope_env_def)
  let ?var = "\<lparr>var_static_type = arg_type ty, var_name = x, var_index = word_of_nat n\<rparr>"
  let ?c = "c\<lparr>c_scope := (c_scope c)\<lparr>sc_vars := sc_vars (c_scope c) @ [?var]\<rparr>, c_vars_max := Suc n\<rparr>"
  have def: "frame_define_var (arg_type ty) x c = Inr (?var, ?c)"
    using env Cons.prems(4) by (simp add: frame_define_var_def Let_def)
  have "compiler_slots c x = None" using Cons.prems(2) p by simp
  from slots_define [OF this def] have slots: "compiler_slots ?c = \<Gamma>(x \<mapsto> (arg_type ty, word_of_nat n))" using env by simp
  have "\<forall>y \<in> fst ` set args. compiler_slots ?c y = None"
    using Cons.prems(2) ok(1) env(4) unfolding slots p by auto
  moreover have "scope_env ?c = (\<Gamma>(x \<mapsto> (arg_type ty, word_of_nat n)), Suc n, Suc n, Suc n)"
    using slots env by (simp add: scope_env_def)
  moreover have "Suc n + length args \<le> sc_vars_cap (c_scope ?c)" using Cons.prems(4) by simp
  ultimately obtain vars m where
    "define_args args ?c = Inr (?c\<lparr>c_scope := (c_scope ?c)\<lparr>sc_vars := vars\<rparr>, c_vars_max := m\<rparr>)"
    "scope_env (?c\<lparr>c_scope := (c_scope ?c)\<lparr>sc_vars := vars\<rparr>, c_vars_max := m\<rparr>) =
      (arg_slots (Suc n) (\<Gamma>(x \<mapsto> (arg_type ty, word_of_nat n))) args,
       Suc n + length args, Suc n + length args, Suc n + length args)"
    using Cons.IH [OF ok(3)] by blast
  then show ?case
    by (intro exI [of _ vars] exI [of _ m]) (simp add: p ty def)
qed

lemma holds_args:
  assumes "args_ok args" "holds \<Gamma> n \<rho> lcs" "\<forall>x \<in> fst ` set args. \<Gamma> x = None"
    and "length ws = length args" "n + length args \<le> 256" "n + length args \<le> length lcs"
    and "\<forall>i < length args. lcs ! (n + i) = Some (ws ! i)"
  shows "holds (arg_slots n \<Gamma> args) (n + length args) (arg_store \<rho> args ws) lcs"
  using assms
proof (induction args arbitrary: \<Gamma> n \<rho> ws)
  case (Cons p args)
  obtain x ty where p: "p = (x, ty)" by (cases p)
  obtain w ws' where ws: "ws = w # ws'" "length ws' = length args" using Cons.prems(4) by (cases ws) auto
  have ok: "x \<notin> fst ` set args" "ty = ''int'' \<or> ty = ''float''" "args_ok args"
    using Cons.prems(1) unfolding p args_ok_Cons by simp_all
  let ?G = "\<Gamma>(x \<mapsto> (arg_type ty, word_of_nat n))"
  have n: "n < 256" "n < length lcs" "unat (word_of_nat n :: byte) = n" using Cons.prems(5,6) by (simp_all add: unat_of_nat)
  have w: "lcs ! n = Some w" using Cons.prems(7) ws(1) by fastforce
  have h: "slots_ok \<Gamma> n" "\<rho> = machine_env \<Gamma> lcs" "dom \<rho> = dom \<Gamma>" using Cons.prems(2) unfolding holds_def by blast+
  have "slots_ok ?G (Suc n)" by (rule slots_ok_new [OF h(1) n(1)]) (simp add: arg_type_def)
  moreover have "\<rho>(x \<mapsto> arg_val ty w) = machine_env ?G lcs"
    by (rule ext) (use n w h(2) in \<open>simp add: machine_env_def arg_type_def arg_val_def\<close>)
  moreover have "dom (\<rho>(x \<mapsto> arg_val ty w)) = dom ?G" using h(3) by simp
  ultimately have "holds ?G (Suc n) (\<rho>(x \<mapsto> arg_val ty w)) lcs" by (simp add: holds_def)
  moreover have "\<forall>y \<in> fst ` set args. ?G y = None" using Cons.prems(3) ok(1) p by auto
  moreover have "Suc n + length args \<le> 256" "Suc n + length args \<le> length lcs" using Cons.prems(5,6) by simp_all
  moreover have "\<forall>i < length args. lcs ! (Suc n + i) = Some (ws' ! i)"
    using Cons.prems(7) ws(1) by auto
  ultimately have "holds (arg_slots (Suc n) ?G args) (Suc n + length args) (arg_store (\<rho>(x \<mapsto> arg_val ty w)) args ws') lcs"
    by (rule Cons.IH [OF ok(3) _ _ ws(2)])
  then show ?case by (simp add: p ws(1))
qed simp

subsection \<open>The slots of a body\<close>

lemma elab_vars_bound:
  "elab_stat cap page env s = Some (env', code) \<Longrightarrow> snd (snd (snd env')) \<le> max (snd (snd (snd env))) 256"
  "elab_scope cap page env ss = Some (env', code) \<Longrightarrow> snd (snd (snd env')) \<le> max (snd (snd (snd env))) 256"
proof (induction cap page env s and cap page env ss arbitrary: env' code and env' code
    rule: elab_stat_elab_scope.induct)
  case (1 cap page env e)
  then obtain x r chunks where x: "elab_assign cap env x r = Some (env', chunks)" using elab_Stat_Expr by blast
  obtain \<Gamma> k n m where env: "env = (\<Gamma>, k, n, m)" by (cases env)
  from x show ?case unfolding env by (auto split: option.splits if_splits)
next
  case (2 cap page \<Gamma> k n m e ts fs)
  obtain \<Gamma>t kt nt m1 t \<Gamma>f kf nf m2 f where tf: "elab_scope cap 512 (\<Gamma>, 0, n, m) ts = Some ((\<Gamma>t, kt, nt, m1), t)"
    "(case fs of None \<Rightarrow> Some ((\<Gamma>, 0, n, m1), []) | Some fs \<Rightarrow> elab_scope cap 512 (\<Gamma>, 0, n, m1) fs) =
      Some ((\<Gamma>f, kf, nf, m2), f)" "env' = (\<Gamma>, k, n, m2)"
    using "2.prems"(1) by (simp split: option.splits if_splits prod.splits)
  have m1: "m1 \<le> max m 256" using "2.IH"(1) [OF tf(1)] by simp
  have "m2 \<le> max m1 256"
  proof (cases fs)
    case None with tf(2) show ?thesis by simp
  next
    case (Some ss)
    with tf(2) have "elab_scope cap 512 (\<Gamma>, 0, n, m1) ss = Some ((\<Gamma>f, kf, nf, m2), f)" by simp
    from "2.IH"(2) [OF tf(1) _ _ _ _ Some this] show ?thesis by simp
  qed
  with m1 tf(3) show ?case by simp
next
  case (3 cap page \<Gamma> k n m e body)
  then obtain \<Gamma>b kb nb m1 b where b: "elab_scope cap 512 (\<Gamma>, 0, n, m) body = Some ((\<Gamma>b, kb, nb, m1), b)"
    "env' = (\<Gamma>, k, n, m1)"
    by (simp split: option.splits if_splits prod.splits)
  from "3.IH" [OF b(1)] show ?case using b(2) by simp
next
  case (6 cap page env s ss)
  then show ?case by (force split: option.splits prod.splits)
qed auto

subsection \<open>Signatures\<close>

lemma signature_of_args_ok:
  assumes "args_ok args"
  shows "\<exists>sig. signature_of_args args = Inr sig \<and> length sig = length args \<and> set sig \<subseteq> {CHR ''I'', CHR ''F''}"
  using assms
proof (induction args)
  case (Cons p args)
  obtain x ty where p: "p = (x, ty)" by (cases p)
  with Cons.prems have "args_ok args" "ty = ''int'' \<or> ty = ''float''" by (simp_all add: args_ok_Cons)
  with Cons.IH show ?case by (auto simp: p type_signature_by_name_def)
qed simp

lemma signature_args_count:
  "set sig \<subseteq> {CHR ''I'', CHR ''F''} \<Longrightarrow> n + 4 * length sig < 65536 \<Longrightarrow>
   signature_args whole (sig @ CHR '')'' # rest) n = Inr (n + 4 * length sig)"
  by (induction sig arbitrary: n) auto

lemma signature_arg_size_ok:
  assumes "CHR ''('' \<notin> set name" "set sig \<subseteq> {CHR ''I'', CHR ''F''}" "length sig < 16384"
  shows "signature_arg_size (name @ ''('' @ sig @ '')'' @ ret) = Inr (4 * length sig)"
proof -
  have "dropWhile (\<lambda>c. c \<noteq> CHR ''('') (name @ CHR ''('' # sig @ CHR '')'' # ret) = CHR ''('' # sig @ CHR '')'' # ret"
    using assms(1) by (induction name) auto
  with signature_args_count [OF assms(2), of 0] assms(3) show ?thesis by (simp add: signature_arg_size_def)
qed

end
