(* ===== verification/Func_Claims.thy ===== *)
theory Func_Claims
  imports Func_Correct
begin

text \<open>
  The correctness of compiled functions: what the compiler registers for a definition, and what
  a call of it does.
\<close>

subsection \<open>From the definition to the handle\<close>

text \<open>The bytes registered for a body that needs \<open>m\<close> variables and a stack of \<open>s\<close> bytes.\<close>

definition func_image :: "nat \<Rightarrow> nat \<Rightarrow> byte list \<Rightarrow> byte list" where
  "func_image m s code = be16_bytes m @ be16_bytes s @ code"

lemma func_image_handle:
  assumes "m < 65536" "s < 65536"
  shows "func_handle i args (func_image m s code) =
    \<lparr>signature_index = i, arg_size = args, vars_size = 4 * m, stack_size = s, bytecode_data = func_image m s code\<rparr>"
    "drop 4 (func_image m s code) = code" "4 \<le> length (func_image m s code)"
  using assms by (simp_all add: func_handle_def func_image_def be16_bytes_def be16_val_bytes)

lemma define_func_facts:
  assumes "compiler_define_func node c = Inr (fd, c1)" "df_args node = Some args" "args_ok args"
    and "CHR ''('' \<notin> set (df_name node)" "c_string (df_name node)" "length args \<le> 128"
  shows "fd_args fd = args" "signature_arg_size (fd_signature fd) = Inr (4 * length args)" "c_string (fd_signature fd)"
    "length (fd_signature fd) + 3 \<le> GLOBAL_CONST_POOL_INITIAL_SIZE" "c_scope c1 = c_scope c" "c_parents c1 = c_parents c"
    "c_vm c1 = c_vm c" "const_pool c1 = const_pool c"
proof -
  obtain sig where sig: "signature_of_args args = Inr sig" "length sig = length args" "set sig \<subseteq> {CHR ''I'', CHR ''F''}"
    using signature_of_args_ok [OF assms(3)] by blast
  obtain ret_type ret_sig m where d: "df_ret_type node = Some ret_type" "type_signature_by_name ret_type = Inr ret_sig"
    "fd = \<lparr>fd_name = df_name node, fd_args = args, fd_ret_type = ret_type,
      fd_signature = df_name node @ ''('' @ sig @ '')'' @ ret_sig\<rparr>"
    "length (fd_signature fd) + 1 \<le> 1536" "c1 = c\<lparr>c_func_map := m\<rparr>"
    using assms(1,2) sig(1) by (auto simp: compiler_define_func_def Let_def split: if_splits option.splits)
  show "fd_args fd = args" "c_scope c1 = c_scope c" "c_parents c1 = c_parents c" "c_vm c1 = c_vm c"
    "const_pool c1 = const_pool c" "length (fd_signature fd) + 3 \<le> GLOBAL_CONST_POOL_INITIAL_SIZE"
    using d(3-5) by (simp_all add: const_pool_def)
  have "length sig < 16384" using sig(2) assms(6) by simp
  from signature_arg_size_ok [OF assms(4) sig(3) this] show "signature_arg_size (fd_signature fd) = Inr (4 * length args)"
    using d(3) sig(2) by simp
  have "set ret_sig \<subseteq> {CHR ''I'', CHR ''F'', CHR ''V''}"
    using d(2) by (auto simp: type_signature_by_name_def split: if_splits)
  then show "c_string (fd_signature fd)" using d(3) sig(3) assms(5) by (auto simp: c_string_def)
qed

lemma compile_body:
  assumes "args_ok args" "length args \<le> 128"
    and "elab_scope 128 256 (arg_slots 0 Map.empty args, length args, length args, length args) body = Some ((\<Gamma>', k', n', m'), code)"
    and "scope_words body < 16384"
  obtains f1 f2 where
    "define_args args (c\<lparr>c_scope := function_scope, c_parents := [], c_stack_max := 0, c_vars_max := 0\<rparr>) = Inr f1"
    "compile_scope fuel body f1 = Inr (0, f2)" "scope_sink f2 = Inr code" "c_vars_max f2 = m'"
    "4 * scope_depth body \<le> unat (c_stack_max f2)" "unat (c_stack_max f2) < 65536" "c_vm f2 = c_vm c"
    "const_pool f2 = const_pool c"
proof -
  let ?f = "c\<lparr>c_scope := function_scope, c_parents := [], c_stack_max := 0, c_vars_max := 0\<rparr>"
  have five: "5 \<le> (256::nat)" by simp
  have scope: "sc_vars function_scope = []" "sc_vars_cap function_scope = 128" "sc_vars_off function_scope = 0"
    "sc_stack_size function_scope = 0" "sc_emitter function_scope = Buffered (compiler_emitter_buffered_new 256)"
    by (simp_all add: function_scope_def frame_init_scope_def)
  have slots: "compiler_slots ?f = Map.empty" by (rule ext) (simp add: compiler_slots_def c_chain_def scope)
  have env: "scope_env ?f = (Map.empty, 0, 0, 0)" using slots by (simp add: scope_env_def scope)
  have fits: "0 + length args \<le> sc_vars_cap (c_scope ?f)" "\<forall>x \<in> fst ` set args. compiler_slots ?f x = None"
    using assms(2) slots by (simp_all add: scope)
  obtain f1 where f1: "define_args args ?f = Inr f1" "scope_env f1 = (arg_slots 0 Map.empty args, length args, length args, length args)"
    "sc_vars_cap (c_scope f1) = 128" "sc_stack_size (c_scope f1) = 0" "c_stack_max f1 = 0"
    "sc_emitter (c_scope f1) = Buffered (compiler_emitter_buffered_new 256)" "c_vm f1 = c_vm c" "const_pool f1 = const_pool c"
    using define_args_slots [OF assms(1) fits(2) env fits(1)] by (auto simp: scope const_pool_def)
  have r1: "ready f1 256" "emitted f1 = []"
    using f1(6) by (simp_all add: ready_def emitted_def block_emitter_def em_wf_def em_bytes_def compiler_emitter_buffered_new_def)
  obtain f2 where f2: "compile_scope fuel body f1 = Inr (0, f2)" "grows f1 f2 256 code" "scope_env f2 = (\<Gamma>', k', n', m')"
    using elab_compiles(2) [OF assms(3) five, of fuel] f1(2,3) r1(1) unfolding compiles_def by blast
  have "unat (sc_stack_size (c_scope f1)) + 4 * scope_words body < 2 ^ 64" using assms(4) f1(4) by simp
  with elab_accounted(2) [OF assms(3) five, of fuel] f1(2,3) r1(1) f2(1) obtain l where
    acc: "covered f1 f2 l (scope_depth body) (scope_words body)" unfolding accounted_def by blast
  obtain em where em: "sc_emitter (c_scope f2) = Buffered em" "em_wf em" using f2(2) by (auto simp: grows_def ready_def)
  have "em_bytes em = code" using f2(2) r1(2) em(1) by (simp add: grows_def emitted_def block_emitter_def)
  then have "scope_sink f2 = Inr code" using compiler_emitter_sink_wf [OF em(2)] em(1) by (simp add: scope_sink_def)
  moreover have "c_vars_max f2 = m'" "c_vm f2 = c_vm c" using f2(2,3) f1(7) by (simp_all add: scope_env_def grows_def)
  moreover have "4 * scope_depth body \<le> unat (c_stack_max f2)" "unat (c_stack_max f2) < 65536"
    using acc f1(4,5) assms(4) by (simp_all add: covered_def)
  moreover have "const_pool f2 = const_pool c"
    using keeps_statement(2) [OF f1(8), of fuel body] f2(1) by (simp add: keeps_def)
  ultimately show ?thesis using that f1(1) f2(1) by blast
qed

text \<open>A handle whose call runs \<open>code\<close>.\<close>

definition handle_for :: "nat \<Rightarrow> nat \<Rightarrow> nat \<Rightarrow> byte list \<Rightarrow> vm_func \<Rightarrow> bool" where
  "handle_for k m d code func \<longleftrightarrow> arg_size func = 4 * k \<and> vars_size func = 4 * m \<and> 4 * d \<le> stack_size func \<and>
     drop 4 (bytecode_data func) = code"

lemma compile_func_registers:
  assumes "compiler_define_func node c = Inr (fd, c1)" "df_args node = Some args" "args_ok args" "length args \<le> 128"
    and "CHR ''('' \<notin> set (df_name node)" "c_string (df_name node)"
    and "c_parents c = []" "\<not> sc_is_function_scope (c_scope c)"
    and "registry_wf (c_vm c)" "length (const_index (c_vm c)) < GLOBAL_CONST_POOL_INITIAL_CAPACITY"
      "length (funcs (c_vm c)) < GLOBAL_FUNCTIONS_COUNT_INCREMENT"
    and "const_pool_register_value (fd_signature fd) c = Inr (index, c2)"
    and "elab_scope 128 256 (arg_slots 0 Map.empty args, length args, length args, length args) (df_body node) =
      Some ((\<Gamma>', k', n', m'), code)" "scope_words (df_body node) < 16384"
  obtains c' func where "compile_func fuel node c = Inr (0, c')" "handle_for (length args) m' (scope_depth (df_body node)) code func"
    "registry_wf (c_vm c')" "\<forall>data h. jmp_offset data = Inr h \<longrightarrow> h \<le> length (const_index (c_vm c)) \<longrightarrow> call_lookup (c_vm c') data = Inr func"
proof -
  note d = define_func_facts [OF assms(1-3,5,6,4)]
  obtain f1 f2 where f: "define_args args (c1\<lparr>c_scope := function_scope, c_parents := [], c_stack_max := 0, c_vars_max := 0\<rparr>) = Inr f1"
    "compile_scope fuel (df_body node) f1 = Inr (0, f2)" "scope_sink f2 = Inr code" "c_vars_max f2 = m'"
    "4 * scope_depth (df_body node) \<le> unat (c_stack_max f2)" "unat (c_stack_max f2) < 65536" "c_vm f2 = c_vm c1"
    "const_pool f2 = const_pool c1" by (rule compile_body [OF assms(3,4,13,14), of c1 fuel])
  have m: "m' < 65536" using elab_vars_bound(2) [OF assms(13)] assms(4) by simp
  let ?s = "unat (c_stack_max f2)" and ?i = "length (const_index (c_vm c))"
  let ?f3 = "f2\<lparr>c_scope := c_scope c1, c_parents := c_parents c1, c_stack_max := c_stack_max c1, c_vars_max := c_vars_max c1\<rparr>"
  note im = func_image_handle [OF m f(6)]
  have "const_pool ?f3 = const_pool c" using f(8) d(8) by (simp add: const_pool_def)
  then obtain p n where p: "const_pool_register_value (fd_signature fd) ?f3 =
      Inr (index, ?f3\<lparr>c_const_pool_map := p, c_const_pool_map_size := n\<rparr>)"
    by (rule const_pool_register_frame [OF assms(12)])
  obtain st1 st2 where st: "vm_register_constant (fd_signature fd) (c_vm c) = Inr (?i, st1)"
    "vm_register_function ?i (func_image m' ?s code) st1 = Inr (func_handle ?i (4 * length args) (func_image m' ?s code), st2)"
    "registry_wf st2" "\<forall>data h. jmp_offset data = Inr h \<longrightarrow> h \<le> ?i \<longrightarrow>
       call_lookup st2 data = Inr (func_handle ?i (4 * length args) (func_image m' ?s code))"
    using register_both [OF assms(9) d(3,4) assms(10,11) d(2) im(3)] by metis
  have "compile_func fuel node c =
      Inr (0, ?f3\<lparr>c_const_pool_map := p, c_const_pool_map_size := n, c_vm := st2\<rparr>)"
    using assms(1,7,8) d(1,5-7) f(1-4,7) p st(1,2) by (simp add: compile_func_def Let_def func_image_def)
  moreover have "handle_for (length args) m' (scope_depth (df_body node)) code
      (func_handle ?i (4 * length args) (func_image m' ?s code))"
    using f(5) unfolding handle_for_def im(1) by (simp add: im(2))
  ultimately show ?thesis using that st(3,4) by simp
qed

subsection \<open>A call\<close>

lemma call_runs:
  assumes "handle_for k m d code func" "call_lookup st data = Inr func"
    and "elab_scope cap page (arg_slots 0 Map.empty args, length args, length args, length args) body = Some ((\<Gamma>', k', n', m), code)"
    and "args_ok args" "length args = k" "k \<le> 128" "scope_depth body = d"
    and "k \<le> length (stack (current_frame st))" "length (callers st) + 1 < CALL_STACK_MAX_SIZE"
    and "sem_scope body (arg_store Map.empty args (rev (take k (stack (current_frame st))))) \<rho>'"
  shows "\<exists>run st1 st2. call_enter func st = Inr st1 \<and>
     vm_execute_opcodes run (drop 4 (bytecode_data func)) st1 = Inr st2 \<and> holds \<Gamma>' n' \<rho>' (locals (current_frame st2)) \<and>
     vm_execute_opcode_call (vm_execute_opcodes run) st data = Inr (3, st)"
proof -
  let ?ws = "rev (take k (stack (current_frame st)))" and ?G = "arg_slots 0 Map.empty args"
  let ?lcs = "map Some ?ws @ replicate (m - k) None"
  have len: "length ?ws = k" using assms(8) by simp
  have km: "k \<le> m" using elab_grows(2) [OF assms(3)] assms(5) by (simp add: env_grows_def)
  let ?st1 = "st\<lparr>current_frame := new_frame (stack_size func) ?lcs, callers := current_frame st # callers st\<rparr>"
  have enter: "call_enter func st = Inr ?st1"
    using assms(1,8,9) km by (simp add: call_enter_def call_args_def handle_for_def Let_def)
  have "holds Map.empty 0 Map.empty ?lcs" by (simp add: holds_def slots_ok_def machine_env_def fun_eq_iff)
  then have h: "holds ?G (length args) (arg_store Map.empty args ?ws) ?lcs"
    using holds_args [OF assms(4), of Map.empty 0 Map.empty ?lcs ?ws] assms(5,6) len by (simp add: nth_append)
  have frame: "stack (current_frame ?st1) = []" "locals (current_frame ?st1) = ?lcs"
    "stack_cap (current_frame ?st1) = stack_size func" by (simp_all add: new_frame_def)
  have "4 * (length [] + scope_depth body) \<le> stack_cap (current_frame ?st1)"
    using assms(1,7) frame(3) by (simp add: handle_for_def)
  from simulatesE [OF sem_simulates(2) [OF assms(10,3) this] h, of 0] obtain lcs' where
    l: "exec_block code (set_frame ?st1 [] ?lcs 0) (set_frame ?st1 [] lcs' (0 + int (length code)))" "holds \<Gamma>' n' \<rho>' lcs'"
    using km len by auto
  let ?st2 = "set_frame ?st1 [] lcs' (int (length code))"
  have "set_frame ?st1 [] ?lcs 0 = ?st1" using set_frame_id [of ?st1] frame by simp
  then obtain run where run: "vm_execute_opcodes run code ?st1 = Inr ?st2" using exec_block_run l(1) by fastforce
  have "call_leave ?st2 = Inr st" by (simp add: call_leave_def set_frame_def)
  then have "vm_execute_opcode_call (vm_execute_opcodes run) st data = Inr (3, st)"
    using assms(1,2) enter run by (simp add: vm_execute_opcode_call_def handle_for_def)
  then show ?thesis using enter run l(2) assms(1) by (intro exI [of _ run] exI [of _ ?st1] exI [of _ ?st2]) (simp add: handle_for_def)
qed

subsection \<open>An instance\<close>

lemma probe_key_new: "index < 128 \<Longrightarrow> probe_key deref (replicate 128 None) key n index = None"
  by (induction n arbitrary: index) simp_all

lemma hashmap_get_new:
  fixes deref :: "'a \<Rightarrow> string"
  shows "hashmap_get deref (hashmap_new :: ('a, 'b) hashmap) key = (-3, None)"
proof -
  have "home (hashmap_new :: ('a, 'b) hashmap) key < 128" by (simp add: home_def hashmap_new_def)
  then have "probe_key deref (replicate 128 (None :: ('a \<times> 'b) option)) key 8 (home (hashmap_new :: ('a, 'b) hashmap) key) = None"
    by (rule probe_key_new)
  then show ?thesis
    by (simp add: hashmap_get_def hashmap_new_def)
qed

lemma hashmap_put_new:
  fixes deref :: "'a \<Rightarrow> string" and v :: 'b
  shows "\<exists>m. hashmap_put 33 lim deref hashmap_new key v = Some (0, m)"
proof -
  have home: "home (hashmap_new :: ('a, 'b) hashmap) (deref key) < 128" by (simp add: home_def hashmap_new_def)
  then have "probe_index deref (replicate 128 None) (deref key) (Suc n) (home (hashmap_new :: ('a, 'b) hashmap) (deref key)) =
      Some (home (hashmap_new :: ('a, 'b) hashmap) (deref key))" for n by simp
  from this [of 7] have "hashmap_index deref (hashmap_new :: ('a, 'b) hashmap) (deref key) =
      Some (home (hashmap_new :: ('a, 'b) hashmap) (deref key))"
    by (simp add: hashmap_index_def hashmap_new_def load_exceeded_128)
  then have "hashmap_put (Suc 32) lim deref hashmap_new key v =
      Some (0, hm_write hashmap_new (home (hashmap_new :: ('a, 'b) hashmap) (deref key)) key v)"
    unfolding hashmap_put.simps by simp
  moreover have "(33 :: nat) = Suc 32" by simp
  ultimately show ?thesis by metis
qed

text \<open>The function \<open>int f(int a) { b = a + 1 }\<close>, and a caller with the argument 41 on its stack.\<close>

definition demo_func :: decl_func where
  "demo_func = \<lparr>df_name = ''f'', df_ret_type = Some ''int'', df_args = Some [(''a'', ''int'')],
     df_body = [assign ''b'' (Binary_Op 0 ADDITION (Ident 0 ''a'') (Literal_Int 1))]\<rparr>"

definition demo_caller :: "compiler \<Rightarrow> vm_state" where
  "demo_caller c = (c_vm c)\<lparr>current_frame := \<lparr>frame_pc = 0, stack = [41], stack_cap = 16, locals = []\<rparr>, callers := []\<rparr>"

definition demo_func_slots :: slots where
  "demo_func_slots = [''a'' \<mapsto> (TYPE_INT, 0), ''b'' \<mapsto> (TYPE_INT, 1)]"

lemma demo_func_elab:
  "elab_scope 128 256 (arg_slots 0 Map.empty [(''a'', ''int'')], 1, 1, 1) (df_body demo_func) =
     Some ((demo_func_slots, 2, 2, 2), [0x32, 0, 0x36, 0, 0, 0, 1, 0x42, 0x33, 1])"
  by (simp add: demo_func_def demo_func_slots_def arg_type_def result_type_def int_operator_to_opcode_def binary_opcode_def
      be32_bytes_def OPCODE_SAVE_def OPCODE_LOAD_def promote_def)

lemma demo_func_sem:
  "sem_scope (df_body demo_func) (arg_store Map.empty [(''a'', ''int'')] [41]) [''a'' \<mapsto> Int_Val 41, ''b'' \<mapsto> Int_Val 42]"
proof -
  have "sem_stat (assign ''b'' (Binary_Op 0 ADDITION (Ident 0 ''a'') (Literal_Int 1))) [''a'' \<mapsto> Int_Val 41]
      ([''a'' \<mapsto> Int_Val 41](''b'' \<mapsto> Int_Val 42))"
    by (rule sem_assign_new) (simp_all add: binary_value_def)
  from sem_Cons [OF this sem_Nil] show ?thesis by (simp add: demo_func_def arg_val_def)
qed

lemma demo_define:
  "\<exists>fd c1. compiler_define_func demo_func (compiler_init True) = Inr (fd, c1) \<and> fd_signature fd = ''f(I)I''"
proof -
  let ?fd = "\<lparr>fd_name = ''f'', fd_args = [(''a'', ''int'')], fd_ret_type = ''int'', fd_signature = ''f(I)I''\<rparr>"
  obtain m where "hashmap_put 33 map_limit (\<lambda>s. s) hashmap_new ''f'' ?fd = Some (0, m)"
    using hashmap_put_new [of map_limit "\<lambda>s. s" "''f''" ?fd] by blast
  then show ?thesis
    by (simp add: compiler_define_func_def demo_func_def compiler_init_def hashmap_get_new type_signature_by_name_def)
qed

lemma demo_pool: "\<exists>r. const_pool_register_value s (compiler_init True) = Inr r"
proof -
  obtain m where "hashmap_put 33 map_limit (\<lambda>s. s) (hashmap_new :: (string, nat) hashmap) s 0 = Some (0, m)"
    using hashmap_put_new [of map_limit "\<lambda>s. s" s "0 :: nat"] by blast
  then show ?thesis by (simp add: const_pool_register_value_def compiler_init_def hashmap_get_new)
qed

subsection \<open>The property\<close>

text \<open>
  C4. Compiler correctness for functions. A definition in the root scope with parameters of type
  int and float and a body in the fragment of \<open>elab_scope\<close> compiles without a panic, and every
  constant index the compiler has given out names the handle it registers. A call of that handle
  with enough arguments on the caller's stack and less than 128 frames runs the body in a frame
  of its own, on the stack and the variables the compiler counted for it, from the store that
  maps the parameters to the arguments, the last argument on top; the body ends with local
  variables that hold the store the source semantics gives, and the caller continues behind the
  instruction with its frame and all tables unchanged.
\<close>

theorem compile_func_correct:
  assumes "compiler_define_func node c = Inr (fd, c1)" "df_args node = Some args" "args_ok args" "length args \<le> 128"
    and "CHR ''('' \<notin> set (df_name node)" "c_string (df_name node)"
    and "c_parents c = []" "\<not> sc_is_function_scope (c_scope c)"
    and "registry_wf (c_vm c)" "length (const_index (c_vm c)) < GLOBAL_CONST_POOL_INITIAL_CAPACITY"
      "length (funcs (c_vm c)) < GLOBAL_FUNCTIONS_COUNT_INCREMENT"
    and "const_pool_register_value (fd_signature fd) c = Inr r"
    and "elab_scope 128 256 (arg_slots 0 Map.empty args, length args, length args, length args) (df_body node) =
      Some ((\<Gamma>', k', n', m'), code)" "scope_words (df_body node) < 16384"
  shows "\<exists>c' func. compile_func fuel node c = Inr (0, c') \<and>
     (\<forall>data h. jmp_offset data = Inr h \<longrightarrow> h \<le> length (const_index (c_vm c)) \<longrightarrow> call_lookup (c_vm c') data = Inr func) \<and>
     (\<forall>st data \<rho>'. call_lookup st data = Inr func \<longrightarrow> length args \<le> length (stack (current_frame st)) \<longrightarrow>
        length (callers st) + 1 < CALL_STACK_MAX_SIZE \<longrightarrow>
        sem_scope (df_body node) (arg_store Map.empty args (rev (take (length args) (stack (current_frame st))))) \<rho>' \<longrightarrow>
        (\<exists>run st1 st2. call_enter func st = Inr st1 \<and>
           vm_execute_opcodes run (drop 4 (bytecode_data func)) st1 = Inr st2 \<and> holds \<Gamma>' n' \<rho>' (locals (current_frame st2)) \<and>
           vm_execute_opcode_call (vm_execute_opcodes run) st data = Inr (3, st)))"
proof -
  obtain index c2 where r: "const_pool_register_value (fd_signature fd) c = Inr (index, c2)"
    using assms(12) by (cases r) simp
  obtain c' func where "compile_func fuel node c = Inr (0, c')" "handle_for (length args) m' (scope_depth (df_body node)) code func"
    "\<forall>data h. jmp_offset data = Inr h \<longrightarrow> h \<le> length (const_index (c_vm c)) \<longrightarrow> call_lookup (c_vm c') data = Inr func"
    by (rule compile_func_registers [OF assms(1-11) r assms(13,14)])
  then show ?thesis using call_runs [OF _ _ assms(13,3) refl assms(4) refl] by blast
qed

lemma compile_func_correct_witness:
  "\<exists>c' func run st1 st2. compile_func 0 demo_func (compiler_init True) = Inr (0, c') \<and>
     call_enter func (demo_caller c') = Inr st1 \<and>
     vm_execute_opcodes run (drop 4 (bytecode_data func)) st1 = Inr st2 \<and>
     machine_env demo_func_slots (locals (current_frame st2)) ''b'' = Some (Int_Val 42) \<and>
     vm_execute_opcode_call (vm_execute_opcodes run) (demo_caller c') [0, 0] = Inr (3, demo_caller c')"
proof -
  obtain fd c1 where fd: "compiler_define_func demo_func (compiler_init True) = Inr (fd, c1)" using demo_define by blast
  obtain r where r: "const_pool_register_value (fd_signature fd) (compiler_init True) = Inr r" using demo_pool by blast
  let ?args = "[(''a'', ''int'')]"
  have facts: "df_args demo_func = Some ?args" "args_ok ?args" "length ?args \<le> 128" "CHR ''('' \<notin> set (df_name demo_func)"
    "c_string (df_name demo_func)" "c_parents (compiler_init True) = []" "\<not> sc_is_function_scope (c_scope (compiler_init True))"
    "registry_wf (c_vm (compiler_init True))"
    "length (const_index (c_vm (compiler_init True))) < 64" "length (funcs (c_vm (compiler_init True))) < 64"
    "scope_words (df_body demo_func) < 16384"
    by (simp_all add: demo_func_def args_ok_def c_string_def compiler_init_def compiler_get_root_frame_def registry_wf_init)
      (simp_all add: vm_static_init_def)
  have elab: "elab_scope 128 256 (arg_slots 0 Map.empty ?args, length ?args, length ?args, length ?args) (df_body demo_func) =
      Some ((demo_func_slots, 2, 2, 2), [0x32, 0, 0x36, 0, 0, 0, 1, 0x42, 0x33, 1])" using demo_func_elab by simp
  obtain c' func where c': "compile_func 0 demo_func (compiler_init True) = Inr (0, c')"
    "\<forall>data h. jmp_offset data = Inr h \<longrightarrow> h \<le> length (const_index (c_vm (compiler_init True))) \<longrightarrow> call_lookup (c_vm c') data = Inr func"
    "\<forall>st data \<rho>'. call_lookup st data = Inr func \<longrightarrow> length ?args \<le> length (stack (current_frame st)) \<longrightarrow>
        length (callers st) + 1 < 128 \<longrightarrow>
        sem_scope (df_body demo_func) (arg_store Map.empty ?args (rev (take (length ?args) (stack (current_frame st))))) \<rho>' \<longrightarrow>
        (\<exists>run st1 st2. call_enter func st = Inr st1 \<and>
           vm_execute_opcodes run (drop 4 (bytecode_data func)) st1 = Inr st2 \<and> holds demo_func_slots 2 \<rho>' (locals (current_frame st2)) \<and>
           vm_execute_opcode_call (vm_execute_opcodes run) st data = Inr (3, st))"
    using compile_func_correct [OF fd facts(1-10) r elab facts(11), of 0] by blast
  have "jmp_offset [0, 0] = Inr 0" by (simp add: jmp_offset_def be16_val_def)
  then have "call_lookup (c_vm c') [0, 0] = Inr func" using c'(2) by blast
  moreover have "call_lookup (demo_caller c') [0, 0] = call_lookup (c_vm c') [0, 0]"
    by (simp add: call_lookup_def demo_caller_def Let_def cong: if_cong option.case_cong)
  ultimately have look: "call_lookup (demo_caller c') [0, 0] = Inr func" by simp
  have st: "stack (current_frame (demo_caller c')) = [41]" "callers (demo_caller c') = []" by (simp_all add: demo_caller_def)
  obtain run st1 st2 where run: "call_enter func (demo_caller c') = Inr st1"
    "vm_execute_opcodes run (drop 4 (bytecode_data func)) st1 = Inr st2"
    "holds demo_func_slots 2 [''a'' \<mapsto> Int_Val 41, ''b'' \<mapsto> Int_Val 42] (locals (current_frame st2))"
    "vm_execute_opcode_call (vm_execute_opcodes run) (demo_caller c') [0, 0] = Inr (3, demo_caller c')"
    using c'(3) [rule_format, OF look, of "[''a'' \<mapsto> Int_Val 41, ''b'' \<mapsto> Int_Val 42]"] st demo_func_sem by auto
  have "machine_env demo_func_slots (locals (current_frame st2)) ''b'' = Some (Int_Val 42)"
    using run(3) unfolding holds_def by (metis fun_upd_same)
  with run c'(1) show ?thesis by blast
qed

end
