(* ===== verification/Node.thy ===== *)
theory Node
  imports Ast
begin

text \<open>
  The heap nodes the parser actions of \<open>parser.c\<close> build: the node types of \<open>parser.h\<close> with their
  type bytes, the casts \<open>NODE_UPCAST\<close> and \<open>NODE_UPCAST_EXPR\<close>, and the tree the compiler reads.
  A pointer is a \<open>node option\<close>; \<open>None\<close> is NULL. \<open>N_Freed\<close> is a pointer to a node that was
  freed. Linked lists (the statements of a list, the choices of a switch, the arguments of a
  function) are lists.
\<close>

datatype node =
    N_Group "node option"
  | N_Scope "node option"
  | N_Ident string
  | N_Literal_Bool bool
  | N_Literal_Int i32
  | N_Literal_Float i32
  | N_Literal_Char char
  | N_Literal_String string
  | N_Unary_Op operator "node option"
  | N_Binary_Op operator "node option" "node option"
  | N_Ternary_Op operator "node option" "node option" "node option"
  | N_Special_Cast static_type byte "node option"
  | N_Stat_List "node list"
  | N_Stat_Expr "node option"
  | N_Stat_Ret "node option"
  | N_Stat_If "node option" "node option" "node option"
  | N_Stat_Switch "node option" "node list"
  | N_Stat_Switch_Choice "node option" "node option"
  | N_Stat_While "node option" "node option"
  | N_Decl_Var string string
  | N_Decl_Func string "node option" "string option" "node option"
  | N_Func_Arg_List "node list"
  | N_Freed

subsection \<open>Node types and casts\<close>

abbreviation (input) AST_NODE_STAT_MASK :: byte where "AST_NODE_STAT_MASK \<equiv> 0x80"
abbreviation (input) AST_NODE_TYPE_STAT_EXPR :: byte where "AST_NODE_TYPE_STAT_EXPR \<equiv> 0x81"
abbreviation (input) AST_NODE_TYPE_STAT_RET :: byte where "AST_NODE_TYPE_STAT_RET \<equiv> 0x82"
abbreviation (input) AST_NODE_TYPE_STAT_IF :: byte where "AST_NODE_TYPE_STAT_IF \<equiv> 0x83"
abbreviation (input) AST_NODE_TYPE_STAT_SWITCH :: byte where "AST_NODE_TYPE_STAT_SWITCH \<equiv> 0x84"
abbreviation (input) AST_NODE_TYPE_STAT_SWITCH_CASE :: byte where "AST_NODE_TYPE_STAT_SWITCH_CASE \<equiv> 0x85"
abbreviation (input) AST_NODE_TYPE_STAT_SWITCH_OTHER :: byte where "AST_NODE_TYPE_STAT_SWITCH_OTHER \<equiv> 0x86"
abbreviation (input) AST_NODE_TYPE_STAT_WHILE :: byte where "AST_NODE_TYPE_STAT_WHILE \<equiv> 0x87"
abbreviation (input) AST_NODE_TYPE_STAT_LIST :: byte where "AST_NODE_TYPE_STAT_LIST \<equiv> 0x8f"
abbreviation (input) AST_NODE_TYPE_DECL_VAR :: byte where "AST_NODE_TYPE_DECL_VAR \<equiv> 0x02"
abbreviation (input) AST_NODE_TYPE_SCOPE :: byte where "AST_NODE_TYPE_SCOPE \<equiv> 0x03"
abbreviation (input) AST_NODE_TYPE_DECL_FUNC :: byte where "AST_NODE_TYPE_DECL_FUNC \<equiv> 0x04"
abbreviation (input) AST_NODE_TYPE_FUNC_ARG_LIST :: byte where "AST_NODE_TYPE_FUNC_ARG_LIST \<equiv> 0x05"
abbreviation (input) AST_NODE_EXPR_MASK :: byte where "AST_NODE_EXPR_MASK \<equiv> 0x40"
abbreviation (input) AST_NODE_TYPE_IDENT :: byte where "AST_NODE_TYPE_IDENT \<equiv> 0x41"
abbreviation (input) AST_NODE_TYPE_GROUP :: byte where "AST_NODE_TYPE_GROUP \<equiv> 0x42"
abbreviation (input) AST_NODE_TYPE_LITERAL_BOOL :: byte where "AST_NODE_TYPE_LITERAL_BOOL \<equiv> 0x43"
abbreviation (input) AST_NODE_TYPE_LITERAL_INT :: byte where "AST_NODE_TYPE_LITERAL_INT \<equiv> 0x44"
abbreviation (input) AST_NODE_TYPE_LITERAL_FLOAT :: byte where "AST_NODE_TYPE_LITERAL_FLOAT \<equiv> 0x45"
abbreviation (input) AST_NODE_TYPE_LITERAL_CHAR :: byte where "AST_NODE_TYPE_LITERAL_CHAR \<equiv> 0x46"
abbreviation (input) AST_NODE_TYPE_LITERAL_STRING :: byte where "AST_NODE_TYPE_LITERAL_STRING \<equiv> 0x47"
abbreviation (input) AST_NODE_TYPE_UNARY_OP :: byte where "AST_NODE_TYPE_UNARY_OP \<equiv> 0x48"
abbreviation (input) AST_NODE_TYPE_BINARY_OP :: byte where "AST_NODE_TYPE_BINARY_OP \<equiv> 0x49"
abbreviation (input) AST_NODE_TYPE_TERNARY_OP :: byte where "AST_NODE_TYPE_TERNARY_OP \<equiv> 0x4a"
abbreviation (input) AST_NODE_TYPE_SPECIAL_CAST :: byte where "AST_NODE_TYPE_SPECIAL_CAST \<equiv> 0x4b"

text \<open>The byte \<open>type\<close> of a node; a freed node has none that could be read.\<close>

fun node_type :: "node \<Rightarrow> byte" where
  "node_type (N_Group e) = AST_NODE_TYPE_GROUP"
| "node_type (N_Scope s) = AST_NODE_TYPE_SCOPE"
| "node_type (N_Ident v) = AST_NODE_TYPE_IDENT"
| "node_type (N_Literal_Bool b) = AST_NODE_TYPE_LITERAL_BOOL"
| "node_type (N_Literal_Int n) = AST_NODE_TYPE_LITERAL_INT"
| "node_type (N_Literal_Float x) = AST_NODE_TYPE_LITERAL_FLOAT"
| "node_type (N_Literal_Char c) = AST_NODE_TYPE_LITERAL_CHAR"
| "node_type (N_Literal_String s) = AST_NODE_TYPE_LITERAL_STRING"
| "node_type (N_Unary_Op op e) = AST_NODE_TYPE_UNARY_OP"
| "node_type (N_Binary_Op op l r) = AST_NODE_TYPE_BINARY_OP"
| "node_type (N_Ternary_Op op a b c) = AST_NODE_TYPE_TERNARY_OP"
| "node_type (N_Special_Cast t opcode e) = AST_NODE_TYPE_SPECIAL_CAST"
| "node_type (N_Stat_List ss) = AST_NODE_TYPE_STAT_LIST"
| "node_type (N_Stat_Expr e) = AST_NODE_TYPE_STAT_EXPR"
| "node_type (N_Stat_Ret e) = AST_NODE_TYPE_STAT_RET"
| "node_type (N_Stat_If e t f) = AST_NODE_TYPE_STAT_IF"
| "node_type (N_Stat_Switch e cs) = AST_NODE_TYPE_STAT_SWITCH"
| "node_type (N_Stat_Switch_Choice e s) =
     (if e = None then AST_NODE_TYPE_STAT_SWITCH_OTHER else AST_NODE_TYPE_STAT_SWITCH_CASE)"
| "node_type (N_Stat_While e s) = AST_NODE_TYPE_STAT_WHILE"
| "node_type (N_Decl_Var name t) = AST_NODE_TYPE_DECL_VAR"
| "node_type (N_Decl_Func name args ret body) = AST_NODE_TYPE_DECL_FUNC"
| "node_type (N_Func_Arg_List vs) = AST_NODE_TYPE_FUNC_ARG_LIST"
| "node_type N_Freed = 0"

text \<open>Both casts read the type byte through the pointer.\<close>

definition read_node :: "node option \<Rightarrow> node result" where
  "read_node p =
     (case p of None \<Rightarrow> Inl Null_Deref | Some n \<Rightarrow> if n = N_Freed then Inl Use_After_Free else Inr n)"

definition NODE_UPCAST :: "node option \<Rightarrow> byte \<Rightarrow> node option result" where
  "NODE_UPCAST p type_id =
     sbind (read_node p) (\<lambda>n. Inr (if node_type n = type_id then Some n else None))"

definition NODE_UPCAST_EXPR :: "node option \<Rightarrow> node option result" where
  "NODE_UPCAST_EXPR p =
     sbind (read_node p) (\<lambda>n.
       Inr (if drop_bit 6 (node_type n AND AST_NODE_EXPR_MASK) = 1 then Some n else None))"

subsection \<open>The tree the compiler reads\<close>

text \<open>
  \<open>node_expr\<close> and \<open>node_stats\<close> follow the pointers the compiler follows; a NULL or a freed node
  on the way is \<open>None\<close>.
\<close>

fun node_expr :: "node \<Rightarrow> expr option" where
  "node_expr (N_Group e) = map_option (Group TYPE_UNKNWN) (Option.bind e node_expr)"
| "node_expr (N_Ident v) = Some (Ident TYPE_UNKNWN v)"
| "node_expr (N_Literal_Bool b) = Some (Literal_Bool b)"
| "node_expr (N_Literal_Int n) = Some (Literal_Int n)"
| "node_expr (N_Literal_Float x) = Some (Literal_Float x)"
| "node_expr (N_Literal_Char c) = Some (Literal_Char c)"
| "node_expr (N_Literal_String s) = Some (Literal_String s)"
| "node_expr (N_Unary_Op op e) = map_option (Unary_Op TYPE_UNKNWN op) (Option.bind e node_expr)"
| "node_expr (N_Binary_Op op l r) =
     Option.bind (Option.bind l node_expr) (\<lambda>l. Option.bind (Option.bind r node_expr) (\<lambda>r.
       Some (Binary_Op TYPE_UNKNWN op l r)))"
| "node_expr (N_Ternary_Op op a b c) =
     Option.bind (Option.bind a node_expr) (\<lambda>a. Option.bind (Option.bind b node_expr) (\<lambda>b.
       Option.bind (Option.bind c node_expr) (\<lambda>c. Some (Ternary_Op TYPE_UNKNWN op a b c))))"
| "node_expr (N_Special_Cast t opcode e) = map_option (Special_Cast t opcode) (Option.bind e node_expr)"
| "node_expr _ = None"

fun list_nodes :: "node \<Rightarrow> node list option" where
  "list_nodes (N_Stat_List ss) = Some ss"
| "list_nodes _ = None"

fun scope_nodes :: "node \<Rightarrow> node list option" where
  "scope_nodes (N_Scope stats) = Option.bind stats list_nodes"
| "scope_nodes _ = None"

lemma list_nodes_size: "list_nodes n = Some ss \<Longrightarrow> size_list size ss < size n"
  by (cases n) simp_all

lemma scope_nodes_size: "scope_nodes n = Some ss \<Longrightarrow> size_list size ss < size n"
  by (cases n) (auto simp: Option.bind_eq_Some_conv dest: list_nodes_size)

function (sequential) node_stat :: "node \<Rightarrow> stat option" and node_stats :: "node list \<Rightarrow> stat list option" where
  "node_stat (N_Stat_Expr e) = map_option Stat_Expr (Option.bind e node_expr)"
| "node_stat (N_Stat_Ret e) = map_option Stat_Ret (Option.bind e node_expr)"
| "node_stat (N_Stat_If e t f) =
     Option.bind (Option.bind e node_expr) (\<lambda>e.
       Option.bind (Option.bind (Option.bind t scope_nodes) node_stats) (\<lambda>ts.
         (case f of
            None \<Rightarrow> Some (Stat_If e ts None)
          | Some f \<Rightarrow> map_option (\<lambda>fs. Stat_If e ts (Some fs)) (Option.bind (scope_nodes f) node_stats))))"
| "node_stat (N_Stat_While e s) =
     Option.bind (Option.bind e node_expr) (\<lambda>e.
       map_option (Stat_While e) (Option.bind (Option.bind s scope_nodes) node_stats))"
| "node_stat (N_Stat_Switch e cs) = Some Stat_Other"
| "node_stat (N_Scope s) = Some Stat_Other"
| "node_stat (N_Decl_Func name args ret body) = Some Stat_Other"
| "node_stat _ = None"
| "node_stats [] = Some []"
| "node_stats (n # ns) = Option.bind (node_stat n) (\<lambda>s. map_option ((#) s) (node_stats ns))"
  by pat_completeness auto

termination
  by (relation "measure (\<lambda>x. case x of Inl n \<Rightarrow> size n | Inr ns \<Rightarrow> size_list size ns)")
     (auto simp: Option.bind_eq_Some_conv dest!: scope_nodes_size)

text \<open>\<open>NODE_UPCAST_EXPR\<close> lets exactly the expression nodes through.\<close>

lemma upcast_expr:
  "NODE_UPCAST_EXPR (Some n) = Inr (Some n) \<longleftrightarrow>
     (\<exists>e. n = N_Group e) \<or> (\<exists>v. n = N_Ident v) \<or> (\<exists>b. n = N_Literal_Bool b) \<or> (\<exists>i. n = N_Literal_Int i) \<or>
     (\<exists>x. n = N_Literal_Float x) \<or> (\<exists>c. n = N_Literal_Char c) \<or> (\<exists>s. n = N_Literal_String s) \<or>
     (\<exists>op e. n = N_Unary_Op op e) \<or> (\<exists>op l r. n = N_Binary_Op op l r) \<or>
     (\<exists>op a b c. n = N_Ternary_Op op a b c) \<or> (\<exists>t opcode e. n = N_Special_Cast t opcode e)"
  by (cases n) (simp_all add: NODE_UPCAST_EXPR_def read_node_def)

lemma node_expr_upcast: "node_expr n = Some e \<Longrightarrow> NODE_UPCAST_EXPR (Some n) = Inr (Some n)"
  unfolding upcast_expr by (cases n) auto

end
