(* ===== verification/Node_String.thy ===== *)
theory Node_String
  imports Node Float32
begin

text \<open>
  The printed form of nodes (the \<open>ast_node_*_to_string\<close> functions of \<open>parser.c\<close>, compiled in
  debug builds). Every function prints into a block it allocates by its own size rule. The model
  returns the string and the number of bytes written behind the ends of such blocks; a NULL or a
  freed node on the way is a fault. \<open>%d\<close> and \<open>%f\<close> print as the C library does: \<open>%f\<close> gives the
  exact binary value rounded to six decimals.
\<close>

subsection \<open>Formatted output\<close>

definition digit_char :: "nat \<Rightarrow> char" where
  "digit_char d = char_of (48 + d)"

fun show_nat :: "nat \<Rightarrow> string" where
  "show_nat n = (if n < 10 then [digit_char n] else show_nat (n div 10) @ [digit_char (n mod 10)])"

declare show_nat.simps [simp del]

definition show_int :: "int \<Rightarrow> string" where
  "show_int i = (if i < 0 then ''-'' @ show_nat (nat (- i)) else show_nat (nat i))"

text \<open>\<open>n\<close> in at least \<open>w\<close> digits.\<close>

definition show_padded :: "nat \<Rightarrow> nat \<Rightarrow> string" where
  "show_padded w n = replicate (w - length (show_nat n)) (CHR ''0'') @ show_nat n"

definition show_f32 :: "i32 \<Rightarrow> string" where
  "show_f32 x =
     (if f32_sign x then ''-'' else '''') @
     (if f32_is_nan x then ''nan''
      else if f32_is_inf x then ''inf''
      else let n = round_even (f32_units x * 10 ^ 6) (2 ^ 149)
           in show_nat (n div 10 ^ 6) @ ''.'' @ show_padded 6 (n mod 10 ^ 6))"

definition show_operator :: "operator \<Rightarrow> string" where
  "show_operator op = show_int (sint (operator_code op))"

text \<open>A \<open>sprintf\<close> of \<open>s\<close> into a block of \<open>size\<close> bytes, after \<open>k\<close> bytes were written out of bounds already.\<close>

definition sprintf :: "nat \<Rightarrow> string \<Rightarrow> nat \<Rightarrow> (string \<times> nat) result" where
  "sprintf block_size s k = Inr (s, k + (length s + 1 - block_size))"

definition deref :: "node option \<Rightarrow> (node \<Rightarrow> 'a result) \<Rightarrow> 'a result" where
  "deref p f = (case p of None \<Rightarrow> Inl Null_Deref | Some n \<Rightarrow> f n)"

lemma deref_cong [fundef_cong]:
  "p = p' \<Longrightarrow> (\<And>n. p' = Some n \<Longrightarrow> f n = g n) \<Longrightarrow> deref p f = deref p' g"
  by (cases p') (simp_all add: deref_def)

lemma deref_Some [simp]: "deref (Some n) f = f n" and deref_None [simp]: "deref None f = Inl Null_Deref"
  by (simp_all add: deref_def)

lemma deref_eq_Inr [simp]: "deref p f = Inr r \<longleftrightarrow> (\<exists>n. p = Some n \<and> f n = Inr r)"
  by (cases p) simp_all

subsection \<open>Nodes\<close>

fun arg_list :: "node \<Rightarrow> node list result" where
  "arg_list (N_Func_Arg_List vs) = Inr vs"
| "arg_list _ = Inl Bad_Node"

definition arg_nodes :: "node option \<Rightarrow> node list result" where
  "arg_nodes args = (case args of None \<Rightarrow> Inr [] | Some a \<Rightarrow> arg_list a)"

lemma arg_list_size: "arg_list n = Inr vs \<Longrightarrow> size_list size vs < size n"
  by (cases n) simp_all

lemma arg_nodes_size: "arg_nodes args = Inr vs \<Longrightarrow> size_list size vs \<le> size_option size args"
  by (cases args) (auto simp: arg_nodes_def dest: arg_list_size)

text \<open>
  One function per node type, on the printed forms of the children. The numbers of bytes out of
  bounds add up.
\<close>

definition newline :: char where
  "newline = char_of (10 :: nat)"

definition ast_node_group_to_string :: "(string \<times> nat) result \<Rightarrow> (string \<times> nat) result" where
  "ast_node_group_to_string expr =
     sbind expr (\<lambda>(s, k). sprintf (length s + 8) (''( '' @ s @ '' )'') k)"

definition ast_node_ident_to_string :: "string \<Rightarrow> (string \<times> nat) result" where
  "ast_node_ident_to_string v = sprintf (length v + 8) (''(ident='' @ v @ '')'') 0"

definition ast_node_unary_op_to_string :: "operator \<Rightarrow> (string \<times> nat) result \<Rightarrow> (string \<times> nat) result" where
  "ast_node_unary_op_to_string op operand =
     sbind operand (\<lambda>(s, k). sprintf (length s + 16) (''('' @ show_operator op @ '' '' @ s @ '')'') k)"

definition ast_node_binary_op_to_string ::
  "operator \<Rightarrow> (string \<times> nat) result \<Rightarrow> (string \<times> nat) result \<Rightarrow> (string \<times> nat) result" where
  "ast_node_binary_op_to_string op left right =
     sbind left (\<lambda>(s1, k1). sbind right (\<lambda>(s2, k2).
       sprintf (length s1 + length s2 + 16)
         (''('' @ s1 @ '' '' @ show_operator op @ '' '' @ s2 @ '')'') (k1 + k2)))"

definition ast_node_ternary_op_to_string ::
  "operator \<Rightarrow> (string \<times> nat) result \<Rightarrow> (string \<times> nat) result \<Rightarrow> (string \<times> nat) result \<Rightarrow>
   (string \<times> nat) result" where
  "ast_node_ternary_op_to_string op op1 op2 op3 =
     sbind op1 (\<lambda>(s1, k1). sbind op2 (\<lambda>(s2, k2). sbind op3 (\<lambda>(s3, k3).
       sprintf (length s1 + length s2 + length s3 + 16)
         (''('' @ s1 @ '' '' @ show_operator op @ '' '' @ s2 @ '' '' @ s3 @ '')'') (k1 + k2 + k3))))"

definition ast_node_scope_to_string :: "(string \<times> nat) result option \<Rightarrow> (string \<times> nat) result" where
  "ast_node_scope_to_string stats =
     (case stats of
        None \<Rightarrow> Inr (''{empty}'', 0)
      | Some r \<Rightarrow> sbind r (\<lambda>(s, k). sprintf (length s + 8) (''{'' @ s @ ''}'') k))"

fun ast_node_literal_to_string :: "node \<Rightarrow> (string \<times> nat) result" where
  "ast_node_literal_to_string (N_Literal_Bool b) =
     sprintf 16 (''L(B)='' @ (if b then ''true'' else ''false'')) 0"
| "ast_node_literal_to_string (N_Literal_Int n) = sprintf 24 (''L(I)='' @ show_int (sint n)) 0"
| "ast_node_literal_to_string (N_Literal_Float x) = sprintf 32 (''L(F)='' @ show_f32 x) 0"
| "ast_node_literal_to_string (N_Literal_Char c) = sprintf 16 (''L(C)='' @ [c]) 0"
| "ast_node_literal_to_string (N_Literal_String s) = sprintf (8 + length s) (''L(S)='' @ s) 0"
| "ast_node_literal_to_string n = compiler_panic ''unexpected literal type''"

definition ast_node_stat_expr_to_string :: "(string \<times> nat) result \<Rightarrow> (string \<times> nat) result" where
  "ast_node_stat_expr_to_string expr =
     sbind expr (\<lambda>(s, k). sprintf (length s + 8) (''('' @ s @ '' ;)'') k)"

definition ast_node_stat_ret_to_string :: "(string \<times> nat) result \<Rightarrow> (string \<times> nat) result" where
  "ast_node_stat_ret_to_string expr =
     sbind expr (\<lambda>(s, k). sprintf (length s + 8) (''(ret '' @ s @ '' ;)'') k)"

definition ast_node_stat_if_to_string ::
  "(string \<times> nat) result \<Rightarrow> (string \<times> nat) result \<Rightarrow> (string \<times> nat) result option \<Rightarrow>
   (string \<times> nat) result" where
  "ast_node_stat_if_to_string expr true_scope false_scope =
     sbind expr (\<lambda>(s1, k1). sbind true_scope (\<lambda>(s2, k2).
       sbind (case false_scope of None \<Rightarrow> Inr (''{none}'', 0) | Some r \<Rightarrow> r) (\<lambda>(s3, k3).
         sprintf (length s1 + length s2 + length s3 + 32)
           (''(if '' @ s1 @ ''  '' @ [newline] @ ''  then '' @ s2 @ [newline] @ ''  else '' @ s3 @ '')'')
           (k1 + k2 + k3))))"

definition ast_node_stat_switch_to_string ::
  "(string \<times> nat) result \<Rightarrow> (string list \<times> nat) result \<Rightarrow> (string \<times> nat) result" where
  "ast_node_stat_switch_to_string expr choices =
     sbind expr (\<lambda>(s, k1). sbind choices (\<lambda>(choices_str, k2).
       let choices_buffer = concat (map (\<lambda>c. c @ [newline]) choices_str)
       in sprintf (length choices_buffer + length s + 16)
            (''( '' @ s @ '' switch to '' @ choices_buffer @ '')'') (k1 + k2)))"

definition ast_node_stat_switch_choice_to_string ::
  "(string \<times> nat) result option \<Rightarrow> (string \<times> nat) result \<Rightarrow> (string \<times> nat) result" where
  "ast_node_stat_switch_choice_to_string expr scope =
     sbind (case expr of None \<Rightarrow> Inr (''other'', 0) | Some r \<Rightarrow> r) (\<lambda>(s1, k1). sbind scope (\<lambda>(s2, k2).
       sprintf (length s1 + length s2 + 16) (''case '' @ s1 @ '' -> '' @ s2) (k1 + k2)))"

definition ast_node_stat_while_to_string ::
  "(string \<times> nat) result \<Rightarrow> (string \<times> nat) result \<Rightarrow> (string \<times> nat) result" where
  "ast_node_stat_while_to_string expr loop_scope =
     sbind expr (\<lambda>(s1, k1). sbind loop_scope (\<lambda>(s2, k2).
       sprintf (length s2 + length s1 + 16) (''(while '' @ s1 @ '' do '' @ s2 @ '')'') (k1 + k2)))"

definition ast_node_decl_var_to_string :: "string \<Rightarrow> string \<Rightarrow> (string \<times> nat) result" where
  "ast_node_decl_var_to_string name type_name =
     sprintf (length name + length type_name + 16) (name @ '' of type '' @ type_name) 0"

definition ast_node_decl_func_to_string ::
  "string \<Rightarrow> (string list \<times> nat) result \<Rightarrow> string option \<Rightarrow> (string \<times> nat) result \<Rightarrow> (string \<times> nat) result" where
  "ast_node_decl_func_to_string name args ret_type body =
     sbind args (\<lambda>(args_strs, k1). sbind body (\<lambda>(s, k2).
       let args_str = concat (map (\<lambda>a. a @ '','') args_strs);
           ret_len = (case ret_type of None \<Rightarrow> 0 | Some t \<Rightarrow> length t)
       in sprintf (length name + length args_str + ret_len + length s + 16)
            (''(func '' @ name @ '' ('' @ args_str @ '') '' @
             (case ret_type of None \<Rightarrow> ''(null)'' | Some t \<Rightarrow> t) @ '' '' @ s @ '')'') (k1 + k2)))"

definition ast_node_special_cast_to_string :: "(string \<times> nat) result" where
  "ast_node_special_cast_to_string = sprintf 16 ''(cast operand)'' 0"

lemmas to_string_defs =
  ast_node_group_to_string_def ast_node_ident_to_string_def ast_node_unary_op_to_string_def
  ast_node_binary_op_to_string_def ast_node_ternary_op_to_string_def ast_node_scope_to_string_def
  ast_node_stat_expr_to_string_def ast_node_stat_ret_to_string_def ast_node_stat_if_to_string_def
  ast_node_stat_switch_to_string_def ast_node_stat_switch_choice_to_string_def
  ast_node_stat_while_to_string_def ast_node_decl_var_to_string_def ast_node_decl_func_to_string_def
  ast_node_special_cast_to_string_def

text \<open>The function behind the pointer \<open>str\<close> of a node.\<close>

function (sequential) ast_node_to_string :: "node \<Rightarrow> (string \<times> nat) result"
  and ast_nodes_to_string :: "node list \<Rightarrow> (string list \<times> nat) result" where
  "ast_node_to_string (N_Group e) = ast_node_group_to_string (deref e ast_node_to_string)"
| "ast_node_to_string (N_Ident v) = ast_node_ident_to_string v"
| "ast_node_to_string (N_Unary_Op op e) = ast_node_unary_op_to_string op (deref e ast_node_to_string)"
| "ast_node_to_string (N_Binary_Op op l r) =
     ast_node_binary_op_to_string op (deref l ast_node_to_string) (deref r ast_node_to_string)"
| "ast_node_to_string (N_Ternary_Op op a b c) =
     ast_node_ternary_op_to_string op
       (deref a ast_node_to_string) (deref b ast_node_to_string) (deref c ast_node_to_string)"
| "ast_node_to_string (N_Scope stats) = ast_node_scope_to_string (map_option ast_node_to_string stats)"
| "ast_node_to_string (N_Literal_Bool b) = ast_node_literal_to_string (N_Literal_Bool b)"
| "ast_node_to_string (N_Literal_Int n) = ast_node_literal_to_string (N_Literal_Int n)"
| "ast_node_to_string (N_Literal_Float x) = ast_node_literal_to_string (N_Literal_Float x)"
| "ast_node_to_string (N_Literal_Char c) = ast_node_literal_to_string (N_Literal_Char c)"
| "ast_node_to_string (N_Literal_String s) = ast_node_literal_to_string (N_Literal_String s)"
| "ast_node_to_string (N_Stat_List ss) = Inr (''statements'', 0)"
| "ast_node_to_string (N_Stat_Expr e) = ast_node_stat_expr_to_string (deref e ast_node_to_string)"
| "ast_node_to_string (N_Stat_Ret e) = ast_node_stat_ret_to_string (deref e ast_node_to_string)"
| "ast_node_to_string (N_Stat_If e t f) =
     ast_node_stat_if_to_string (deref e ast_node_to_string) (deref t ast_node_to_string)
       (map_option ast_node_to_string f)"
| "ast_node_to_string (N_Stat_Switch e cs) =
     ast_node_stat_switch_to_string (deref e ast_node_to_string) (ast_nodes_to_string cs)"
| "ast_node_to_string (N_Stat_Switch_Choice e scope) =
     ast_node_stat_switch_choice_to_string (map_option ast_node_to_string e) (deref scope ast_node_to_string)"
| "ast_node_to_string (N_Stat_While e scope) =
     ast_node_stat_while_to_string (deref e ast_node_to_string) (deref scope ast_node_to_string)"
| "ast_node_to_string (N_Decl_Var name type_name) = ast_node_decl_var_to_string name type_name"
| "ast_node_to_string (N_Decl_Func name args ret_type body) =
     ast_node_decl_func_to_string name (sbind (arg_nodes args) ast_nodes_to_string) ret_type
       (deref body ast_node_to_string)"
| "ast_node_to_string (N_Func_Arg_List vs) = Inr (''delegate to decl func'', 0)"
| "ast_node_to_string (N_Special_Cast t opcode e) = ast_node_special_cast_to_string"
| "ast_node_to_string N_Freed = Inl Use_After_Free"
| "ast_nodes_to_string [] = Inr ([], 0)"
| "ast_nodes_to_string (n # ns) =
     sbind (ast_node_to_string n) (\<lambda>(s, k1). sbind (ast_nodes_to_string ns) (\<lambda>(ss, k2). Inr (s # ss, k1 + k2)))"
  by pat_completeness auto

termination
  by (relation "measure (\<lambda>x. case x of Inl n \<Rightarrow> size n | Inr ns \<Rightarrow> size_list size ns)")
     (auto dest!: arg_nodes_size)

subsection \<open>What printing does to the tree\<close>

text \<open>
  \<open>ast_node_ternary_op_to_string\<close> calls \<open>free\<close> on the nodes of its three operands instead of their
  strings: after a tree was printed, every ternary operator that was reached has freed operands.
\<close>

function (sequential) after_print :: "node \<Rightarrow> node" where
  "after_print (N_Group e) = N_Group (map_option after_print e)"
| "after_print (N_Unary_Op op e) = N_Unary_Op op (map_option after_print e)"
| "after_print (N_Binary_Op op l r) = N_Binary_Op op (map_option after_print l) (map_option after_print r)"
| "after_print (N_Ternary_Op op a b c) = N_Ternary_Op op (Some N_Freed) (Some N_Freed) (Some N_Freed)"
| "after_print (N_Stat_Expr e) = N_Stat_Expr (map_option after_print e)"
| "after_print (N_Stat_Ret e) = N_Stat_Ret (map_option after_print e)"
| "after_print (N_Stat_If e t f) =
     N_Stat_If (map_option after_print e) (map_option after_print t) (map_option after_print f)"
| "after_print (N_Stat_Switch e cs) = N_Stat_Switch (map_option after_print e) (map after_print cs)"
| "after_print (N_Stat_Switch_Choice e s) = N_Stat_Switch_Choice (map_option after_print e) (map_option after_print s)"
| "after_print (N_Stat_While e s) = N_Stat_While (map_option after_print e) (map_option after_print s)"
| "after_print (N_Decl_Func name args ret body) = N_Decl_Func name args ret (map_option after_print body)"
| "after_print (N_Scope stats) = N_Scope (map_option after_print stats)"
| "after_print n = n"
  by pat_completeness auto

termination
  by (relation "measure size") (auto simp: less_Suc_eq_le trans_le_add1 trans_le_add2 size_list_estimation')

end
