(* ===== verification/Lexer.thy ===== *)
theory Lexer
  imports Float32 Node_String
begin

text \<open>
  The lexer actions of \<open>lexer.c\<close>: the state that decides when a statement is compiled, and the
  values of the tokens. The scanner generated from \<open>lexer.l\<close> calls one handler per token.
\<close>

subsection \<open>State\<close>

text \<open>The four one-bit flags and the two counters of \<open>psh_lexer_state_t\<close>.\<close>

record lexer_state =
  is_interactive :: bool
  is_inside_func :: bool
  is_inside_member_func :: bool
  is_inside_class :: bool
  is_inside_selection_stat :: int
  is_inside_iteration_stat :: int

definition lexer_init :: lexer_state where
  "lexer_init =
     \<lparr>is_interactive = False, is_inside_func = False, is_inside_member_func = False,
      is_inside_class = False, is_inside_selection_stat = 0, is_inside_iteration_stat = 0\<rparr>"

subsection \<open>Tokens\<close>

text \<open>The token numbers of \<open>y.tab.h\<close> with the member of \<open>yylval\<close> the handler fills in.\<close>

datatype token =
    Tok_Class
  | Tok_Func
  | Tok_If
  | Tok_Switch
  | Tok_While
  | Tok_Bool bool
  | Tok_Int i32
  | Tok_Float i32
  | Tok_Char char
  | Tok_String string
  | Tok_Ident string
  | Tok_End

fun token_number :: "token \<Rightarrow> nat" where
  "token_number Tok_If = 271"
| "token_number Tok_While = 275"
| "token_number Tok_Switch = 277"
| "token_number Tok_Class = 280"
| "token_number Tok_Func = 281"
| "token_number (Tok_Ident s) = 282"
| "token_number (Tok_Bool b) = 283"
| "token_number (Tok_Int n) = 284"
| "token_number (Tok_Float x) = 285"
| "token_number (Tok_Char c) = 286"
| "token_number (Tok_String s) = 287"
| "token_number Tok_End = 0"

subsection \<open>Keywords\<close>

text \<open>\<open>yyerror\<close> only prints its message; the handlers return the messages beside the token.\<close>

definition lexer_handle_keyword_class :: "lexer_state \<Rightarrow> token \<times> lexer_state" where
  "lexer_handle_keyword_class st = (Tok_Class, st\<lparr>is_inside_class := True\<rparr>)"

definition lexer_handle_keyword_func :: "lexer_state \<Rightarrow> string list \<times> token \<times> lexer_state" where
  "lexer_handle_keyword_func st =
     (if is_inside_class st
      then (if is_inside_member_func st then [''enclosed member functions are not permitted''] else [],
            Tok_Func, st\<lparr>is_inside_member_func := True\<rparr>)
      else (if is_inside_func st then [''enclosed functions are not permitted''] else [],
            Tok_Func, st\<lparr>is_inside_func := True\<rparr>))"

definition lexer_handle_keyword_if :: "lexer_state \<Rightarrow> token \<times> lexer_state" where
  "lexer_handle_keyword_if st =
     (Tok_If, st\<lparr>is_inside_selection_stat := is_inside_selection_stat st + 1\<rparr>)"

definition lexer_handle_keyword_switch :: "lexer_state \<Rightarrow> token \<times> lexer_state" where
  "lexer_handle_keyword_switch st =
     (Tok_Switch, st\<lparr>is_inside_selection_stat := is_inside_selection_stat st + 1\<rparr>)"

definition lexer_handle_keyword_while :: "lexer_state \<Rightarrow> token \<times> lexer_state" where
  "lexer_handle_keyword_while st =
     (Tok_While, st\<lparr>is_inside_iteration_stat := is_inside_iteration_stat st + 1\<rparr>)"

subsection \<open>Literals\<close>

definition lexer_handle_bool :: "string \<Rightarrow> token" where
  "lexer_handle_bool text_value = Tok_Bool (text_value = ''true'')"

text \<open>
  \<open>strtol\<close> in base 10 on a text of digits: the value, or \<open>LONG_MAX\<close> when it does not fit in a
  \<open>long\<close> of 64 bits. The cast to \<open>int\<close> keeps the low 32 bits.
\<close>

definition digit_value :: "char \<Rightarrow> nat" where
  "digit_value c = of_char c - 48"

definition is_digit :: "char \<Rightarrow> bool" where
  "is_digit c = (48 \<le> (of_char c :: nat) \<and> (of_char c :: nat) \<le> 57)"

definition digits_value :: "string \<Rightarrow> nat" where
  "digits_value s = foldl (\<lambda>n c. 10 * n + digit_value c) 0 s"

definition strtol :: "string \<Rightarrow> int" where
  "strtol s = min (int (digits_value (takeWhile is_digit s))) (2 ^ 63 - 1)"

definition lexer_handle_int :: "string \<Rightarrow> token" where
  "lexer_handle_int text_value = Tok_Int (word_of_int (strtol text_value))"

text \<open>
  \<open>strtod\<close> on digits with a fraction gives the nearest \<open>double\<close>, ties to even: here in units of
  \<open>2 ^ -1074\<close>, of which a \<open>double\<close> keeps the leading 53 bits. The cast to \<open>float\<close> rounds a second
  time; a value beyond the largest \<open>double\<close> is infinite as a \<open>float\<close> as well.
\<close>

definition f64_units :: "nat \<Rightarrow> nat \<Rightarrow> nat" where
  "f64_units p q =
     (let k = bit_length (p * 2 ^ 1074 div q) - 53
      in round_even (p * 2 ^ 1074) (q * 2 ^ k) * 2 ^ k)"

definition strtod :: "string \<Rightarrow> nat" where
  "strtod s =
     (let whole = takeWhile is_digit s;
          fraction = (case dropWhile is_digit s of
                        [] \<Rightarrow> []
                      | c # r \<Rightarrow> if c = CHR ''.'' then takeWhile is_digit r else [])
      in f64_units (digits_value (whole @ fraction)) (10 ^ length fraction))"

definition lexer_handle_float :: "string \<Rightarrow> token" where
  "lexer_handle_float text_value = Tok_Float (f32_round False (strtod text_value) (2 ^ 925))"

definition lexer_handle_char :: "string \<Rightarrow> token result" where
  "lexer_handle_char text_value =
     (if length text_value < 2 then Inl Buffer_Overflow else Inr (Tok_Char (text_value ! 1)))"

text \<open>The quotes are cut off: \<open>length - 2\<close> bytes from the second on.\<close>

definition lexer_handle_string :: "string \<Rightarrow> token result" where
  "lexer_handle_string text_value =
     (if length text_value < 2 then Inl Buffer_Overflow
      else Inr (Tok_String (take (length text_value - 2) (drop 1 text_value))))"

definition lexer_handle_identifier :: "string \<Rightarrow> token" where
  "lexer_handle_identifier identifier_value = Tok_Ident identifier_value"

text \<open>An unknown character ends the input.\<close>

definition lexer_unknown_token :: "string \<Rightarrow> token" where
  "lexer_unknown_token value = Tok_End"

definition lexer_handle_eof :: token where
  "lexer_handle_eof = Tok_End"

end
