(* ===== verification/Node_Print.thy ===== *)
theory Node_Print
  imports Node_String
begin

text \<open>How far the printed forms of nodes fit the blocks allocated for them.\<close>

subsection \<open>Numbers\<close>

lemma length_show_nat: "n < 10 ^ k \<Longrightarrow> 0 < k \<Longrightarrow> length (show_nat n) \<le> k"
proof (induction n arbitrary: k rule: show_nat.induct)
  case (1 n)
  show ?case
  proof (cases "n < 10")
    case True
    with 1 show ?thesis by (simp add: show_nat.simps [of n])
  next
    case False
    have "k \<noteq> 1" using 1(2) False by auto
    then obtain j where j: "k = Suc j" "0 < j" using 1(3) by (cases k) auto
    then have "n div 10 < 10 ^ j" using 1(2) by (simp add: less_mult_imp_div_less)
    with 1(1) [OF False _ j(2)] j False show ?thesis by (simp add: show_nat.simps [of n])
  qed
qed

lemma length_show_i32: "length (show_int (sint (w :: i32))) \<le> 11"
proof -
  have "- (2 ^ 31) \<le> sint w" "sint w < 2 ^ 31" using sint_ge [of w] sint_lt [of w] by simp_all
  then have "nat (- sint w) < 10 ^ 10" "nat (sint w) < 10 ^ 10" by simp_all
  then have "length (show_nat (nat (- sint w))) \<le> 10" "length (show_nat (nat (sint w))) \<le> 10"
    using length_show_nat [of _ 10] by simp_all
  then show ?thesis by (simp add: show_int_def)
qed

lemma length_show_operator: "length (show_operator op) \<le> 11"
  by (simp add: show_operator_def length_show_i32)

lemma show_nat_step: "10 \<le> n \<Longrightarrow> show_nat n = show_nat (n div 10) @ [digit_char (n mod 10)]"
  and show_nat_digit: "n < 10 \<Longrightarrow> show_nat n = [digit_char n]"
  by (simp_all add: show_nat.simps [of n])

lemma show_ternary: "length (show_operator TERNARY_CONDITIONAL) = 11"
proof -
  have "sint (operator_code TERNARY_CONDITIONAL) = - 2016149477"
    by (simp add: OP_PRECED_def)
  then show ?thesis by (simp add: show_operator_def show_int_def show_nat_step show_nat_digit)
qed


subsection \<open>Overruns\<close>

text \<open>
  The bytes the printed form of a tree writes behind its blocks: one for every identifier and
  every \<open>return\<close>, one for every ternary operator (its number has eleven characters), three for a
  function without a return type (\<open>(null)\<close> is printed but not measured), and whatever a float
  literal prints beyond 26 characters.
\<close>

function (sequential) node_overrun :: "node \<Rightarrow> nat" and nodes_overrun :: "node list \<Rightarrow> nat" where
  "node_overrun (N_Group e) = (case e of None \<Rightarrow> 0 | Some e \<Rightarrow> node_overrun e)"
| "node_overrun (N_Ident v) = 1"
| "node_overrun (N_Unary_Op op e) = (case e of None \<Rightarrow> 0 | Some e \<Rightarrow> node_overrun e)"
| "node_overrun (N_Binary_Op op l r) =
     (case l of None \<Rightarrow> 0 | Some l \<Rightarrow> node_overrun l) + (case r of None \<Rightarrow> 0 | Some r \<Rightarrow> node_overrun r)"
| "node_overrun (N_Ternary_Op op a b c) =
     (case a of None \<Rightarrow> 0 | Some a \<Rightarrow> node_overrun a) + (case b of None \<Rightarrow> 0 | Some b \<Rightarrow> node_overrun b) +
     (case c of None \<Rightarrow> 0 | Some c \<Rightarrow> node_overrun c) + (length (show_operator op) - 10)"
| "node_overrun (N_Scope stats) = (case stats of None \<Rightarrow> 0 | Some l \<Rightarrow> node_overrun l)"
| "node_overrun (N_Literal_Float x) = length (show_f32 x) - 26"
| "node_overrun (N_Stat_Expr e) = (case e of None \<Rightarrow> 0 | Some e \<Rightarrow> node_overrun e)"
| "node_overrun (N_Stat_Ret e) = (case e of None \<Rightarrow> 0 | Some e \<Rightarrow> node_overrun e) + 1"
| "node_overrun (N_Stat_If e t f) =
     (case e of None \<Rightarrow> 0 | Some e \<Rightarrow> node_overrun e) + (case t of None \<Rightarrow> 0 | Some t \<Rightarrow> node_overrun t) +
     (case f of None \<Rightarrow> 0 | Some f \<Rightarrow> node_overrun f)"
| "node_overrun (N_Stat_Switch e cs) = (case e of None \<Rightarrow> 0 | Some e \<Rightarrow> node_overrun e) + nodes_overrun cs"
| "node_overrun (N_Stat_Switch_Choice e s) =
     (case e of None \<Rightarrow> 0 | Some e \<Rightarrow> node_overrun e) + (case s of None \<Rightarrow> 0 | Some s \<Rightarrow> node_overrun s)"
| "node_overrun (N_Stat_While e s) =
     (case e of None \<Rightarrow> 0 | Some e \<Rightarrow> node_overrun e) + (case s of None \<Rightarrow> 0 | Some s \<Rightarrow> node_overrun s)"
| "node_overrun (N_Decl_Func name args ret body) =
     (case arg_nodes args of Inl err \<Rightarrow> 0 | Inr vs \<Rightarrow> nodes_overrun vs) +
     (case body of None \<Rightarrow> 0 | Some b \<Rightarrow> node_overrun b) + (if ret = None then 3 else 0)"
| "node_overrun _ = 0"
| "nodes_overrun [] = 0"
| "nodes_overrun (n # ns) = node_overrun n + nodes_overrun ns"
  by pat_completeness auto

termination
  by (relation "measure (\<lambda>x. case x of Inl n \<Rightarrow> size n | Inr ns \<Rightarrow> size_list size ns)")
     (auto dest: arg_nodes_size)

lemma print_overrun:
  "ast_node_to_string n = Inr (s, k) \<Longrightarrow> k = node_overrun n"
  "ast_nodes_to_string ns = Inr (ss, k) \<Longrightarrow> k = nodes_overrun ns"
proof (induction n and ns arbitrary: s k and ss k rule: ast_node_to_string_ast_nodes_to_string.induct)
  case (3 op e)
  then show ?case using length_show_operator [of op] by (auto simp: sprintf_def to_string_defs)
next
  case (4 op l r)
  then show ?case using length_show_operator [of op] by (auto simp: sprintf_def to_string_defs)
next
  case (5 op a b c)
  then show ?case using length_show_operator [of op] by (auto simp: sprintf_def to_string_defs)
next
  case (8 n)
  then show ?case using length_show_i32 [of n] by (auto simp: sprintf_def to_string_defs)
next
  case (20 name args ret body)
  then show ?case by (auto simp: sprintf_def to_string_defs newline_def Let_def split: option.splits)
qed (auto simp: sprintf_def to_string_defs newline_def Let_def split: option.splits)

end
