(* ===== verification/Lexer_Claims.thy ===== *)
theory Lexer_Claims
  imports Lexer Node_Print
begin

text \<open>The values of literals: what the lexer reads is what was written, as far as the types allow.\<close>

subsection \<open>Digits\<close>

lemma digit_char_value: "d < 10 \<Longrightarrow> digit_value (digit_char d) = d" "d < 10 \<Longrightarrow> is_digit (digit_char d)"
  by (simp_all add: digit_value_def digit_char_def is_digit_def)

lemma digits_value_snoc: "digits_value (s @ [c]) = 10 * digits_value s + digit_value c"
  by (simp add: digits_value_def)

lemma show_nat_digits: "digits_value (show_nat n) = n \<and> (\<forall>c \<in> set (show_nat n). is_digit c)"
proof (induction n rule: show_nat.induct)
  case (1 n)
  show ?case
  proof (cases "n < 10")
    case True
    then show ?thesis
      by (simp add: show_nat_digit digits_value_def digit_char_value)
  next
    case False
    then show ?thesis
      using 1 by (simp add: show_nat_step digits_value_snoc digit_char_value)
  qed
qed

lemma show_nat_value: "digits_value (show_nat n) = n"
  and show_nat_is_digit: "c \<in> set (show_nat n) \<Longrightarrow> is_digit c"
  using show_nat_digits by blast+

lemma takeWhile_digits:
  "takeWhile is_digit (show_nat n) = show_nat n"
  "\<not> is_digit c \<Longrightarrow> takeWhile is_digit (show_nat n @ c # r) = show_nat n"
  "\<not> is_digit c \<Longrightarrow> dropWhile is_digit (show_nat n @ c # r) = c # r"
  using show_nat_is_digit by (auto simp: takeWhile_append2 dropWhile_append2)

subsection \<open>Rounding an integral value\<close>

lemma round_even_scale: "0 < c \<Longrightarrow> round_even (p * c) (q * c) = round_even p q"
proof -
  assume c: "0 < c"
  have r: "p * c mod (q * c) = p mod q * c" by (simp add: mult_mod_left)
  show ?thesis
    using c unfolding round_even_def Let_def r by (simp add: mult.assoc [symmetric])
qed

lemma f32_round_scale: "0 < c \<Longrightarrow> f32_round s (p * c) (q * c) = f32_round s p q"
  using round_even_scale [of c p "q * 2 ^ (bit_length (p div q) - 24)"]
  by (simp add: f32_round_def Let_def mult_ac)

lemma f64_units_int:
  assumes "n < 2 ^ 53" "0 < q"
  shows "f64_units (n * q) q = n * 2 ^ 1074"
proof (cases "n = 0")
  case True
  then show ?thesis using assms(2) by (simp add: f64_units_def round_even_def)
next
  case False
  let ?N = "n * 2 ^ 1074 :: nat"
  let ?k = "bit_length ?N - 53"
  have d: "n * q * 2 ^ 1074 div q = ?N" using assms(2) by (simp add: mult_ac)
  have bl: "bit_length ?N = bit_length n + 1074" using bit_length_mult_pow [of n 1074] False by simp
  have "bit_length n \<le> 53"
  proof (rule ccontr)
    assume "\<not> bit_length n \<le> 53"
    then have "(2::nat) ^ 53 \<le> 2 ^ (bit_length n - 1)" by (intro power_increasing) auto
    with bit_length_bounds [of n] False assms(1) show False by simp
  qed
  then have k: "?k \<le> 1074" using bl by simp
  have two: "(2::nat) ^ 1074 = 2 ^ (1074 - ?k) * 2 ^ ?k" using k by (metis le_add_diff_inverse2 power_add)
  then have N: "?N = n * 2 ^ (1074 - ?k) * 2 ^ ?k" by (metis mult.assoc)
  from two have e: "n * q * 2 ^ 1074 = n * 2 ^ (1074 - ?k) * (q * 2 ^ ?k)"
    by (metis (no_types, lifting) mult.assoc mult.commute)
  have "round_even (n * q * 2 ^ 1074) (q * 2 ^ ?k) = n * 2 ^ (1074 - ?k)"
    unfolding e by (rule round_even_exact) (use assms(2) in simp)
  then have "f64_units (n * q) q = n * 2 ^ (1074 - ?k) * 2 ^ ?k"
    unfolding f64_units_def d Let_def by simp
  then show ?thesis by (rule trans [OF _ N [symmetric]])
qed

subsection \<open>Properties\<close>

lemma int_digits_value:
  "lexer_handle_int (show_nat n) = Tok_Int (if n < 2 ^ 63 then word_of_nat n else - 1)"
proof (cases "n < 2 ^ 63")
  case True
  then have "strtol (show_nat n) = int n"
    by (simp add: strtol_def takeWhile_digits show_nat_value)
  then show ?thesis using True by (simp add: lexer_handle_int_def)
next
  case False
  then have "strtol (show_nat n) = 2 ^ 63 - 1"
    by (simp add: strtol_def takeWhile_digits show_nat_value)
  moreover have "(word_of_int (2 ^ 63 - 1) :: i32) = - 1"
    by (rule word_uint_eq_iff [THEN iffD2]) (simp add: unsigned_minus_1_eq_mask mask_eq_exp_minus_1)
  ultimately show ?thesis using False by (simp add: lexer_handle_int_def)
qed

text \<open>
  C21. Integer literals. The handler reads the digits of a number back as that number modulo
  \<open>2 ^ 32\<close>, so a literal from \<open>2 ^ 31\<close> on is a wrong, possibly negative value without a message;
  from \<open>2 ^ 63\<close> on every literal is -1.
\<close>

theorem int_literal_value:
  "lexer_handle_int (show_nat n) = Tok_Int (if n < 2 ^ 63 then word_of_nat n else - 1)"
  by (rule int_digits_value)

text \<open>
  C20. Float literals. An integral float literal below \<open>2 ^ 53\<close> has the value the compiler's
  cast gives the integer, although it is rounded twice on the way.
\<close>

theorem float_literal_value:
  assumes "n < 2 ^ 53"
  shows "lexer_handle_float (show_nat n @ ''.0'') = Tok_Float (f32_of_int (int n))"
proof -
  have dot: "\<not> is_digit (CHR ''.'')" "is_digit (CHR ''0'')" by (simp_all add: is_digit_def)
  have "strtod (show_nat n @ ''.0'') = f64_units (digits_value (show_nat n @ ''0'')) 10"
    by (simp add: strtod_def takeWhile_digits dot)
  also have "\<dots> = f64_units (n * 10) 10"
    by (simp add: digits_value_snoc show_nat_value digit_value_def mult.commute)
  also have "\<dots> = n * 2 ^ 1074" by (rule f64_units_int) (use assms in simp_all)
  finally have "lexer_handle_float (show_nat n @ ''.0'') = Tok_Float (f32_round False (n * 2 ^ 149 * 2 ^ 925) (1 * 2 ^ 925))"
    by (simp add: lexer_handle_float_def mult.assoc flip: power_add)
  also have "\<dots> = Tok_Float (f32_round False (n * 2 ^ 149) 1)"
    by (subst f32_round_scale) simp_all
  also have "\<dots> = Tok_Float (f32_of_int (int n))"
  proof -
    have "nat \<bar>int n * 2 ^ 149\<bar> = n * 2 ^ 149" by (simp add: nat_mult_distrib abs_mult nat_power_eq)
    then show ?thesis by (simp add: f32_of_int_def f32_round_int_def mult_less_0_iff)
  qed
  finally show ?thesis .
qed

lemma float_literal_value_witness: "lexer_handle_float (show_nat 3 @ ''.0'') = Tok_Float (f32_of_int 3)"
  using float_literal_value [of 3] by simp

end
