(* ===== verification/Scanner.thy ===== *)
theory Scanner
  imports Lexer Lexer_Claims
begin

text \<open>
  The scanner rules of \<open>lexer.l\<close>. Flex takes the rule with the longest match, the earlier rule
  when two match equally far. \<open>yylex\<close> reads one token, \<open>lex_all\<close> reads to the end of the text.
  The parser's actions change the lexer state between two tokens; the tokens do not depend on it.
\<close>

subsection \<open>Patterns\<close>

datatype pattern =
    P_Lit string
  | P_Digits
  | P_Decimal
  | P_Quoted_Char
  | P_Quoted
  | P_Name
  | P_Comment
  | P_Newline
  | P_Blanks
  | P_Any

definition dquote :: char where "dquote = CHR 0x22"
definition squote :: char where "squote = CHR 0x27"

definition is_blank :: "char \<Rightarrow> bool" where
  "is_blank c = (c = CHR '' '' \<or> c = CHR 0x09)"

definition is_letter :: "char \<Rightarrow> bool" where
  "is_letter c = ((65 \<le> (of_char c :: nat) \<and> (of_char c :: nat) \<le> 90) \<or>
                  (97 \<le> (of_char c :: nat) \<and> (of_char c :: nat) \<le> 122))"

definition name_start :: "char \<Rightarrow> bool" where
  "name_start c = (c = CHR ''_'' \<or> is_letter c)"

definition name_char :: "char \<Rightarrow> bool" where
  "name_char c = (name_start c \<or> is_digit c)"

text \<open>The length of the longest match at the front of the text, 0 for none.\<close>

fun match_len :: "pattern \<Rightarrow> string \<Rightarrow> nat" where
  "match_len (P_Lit k) s = (if take (length k) s = k then length k else 0)"
| "match_len P_Digits s = length (takeWhile is_digit s)"
| "match_len P_Decimal s =
     (case dropWhile is_digit s of
        [] \<Rightarrow> 0
      | c # r \<Rightarrow>
          if c = CHR ''.'' \<and> takeWhile is_digit s \<noteq> [] \<and> takeWhile is_digit r \<noteq> []
          then length (takeWhile is_digit s) + 1 + length (takeWhile is_digit r) else 0)"
| "match_len P_Quoted_Char s =
     (case s of
        a # c # b # r \<Rightarrow> if a = squote \<and> b = squote \<and> (is_letter c \<or> is_digit c) then 3 else 0
      | _ \<Rightarrow> 0)"
| "match_len P_Quoted s =
     (case s of
        [] \<Rightarrow> 0
      | a # r \<Rightarrow>
          if a = dquote \<and> dquote \<in> set r then length (takeWhile (\<lambda>c. c \<noteq> dquote) r) + 2 else 0)"
| "match_len P_Name s =
     (case s of [] \<Rightarrow> 0 | a # r \<Rightarrow> if name_start a then 1 + length (takeWhile name_char r) else 0)"
| "match_len P_Comment s =
     (if take 2 s = ''//'' \<and> newline \<in> set (drop 2 s)
      then 2 + length (takeWhile (\<lambda>c. c \<noteq> newline) (drop 2 s)) + 1 else 0)"
| "match_len P_Newline s = (if take 1 s = [newline] then 1 else 0)"
| "match_len P_Blanks s = length (takeWhile is_blank s)"
| "match_len P_Any s = (case s of [] \<Rightarrow> 0 | c # r \<Rightarrow> if c \<noteq> newline then 1 else 0)"

subsection \<open>Actions and rules\<close>

text \<open>
  What an action returns: a token with a value, a token number of \<open>y.tab.h\<close>, or the character
  itself. The action gets the matched text; \<open>None\<close> reads on.
\<close>

datatype symbol = Value token | Const nat | Character char

type_synonym action = "string \<Rightarrow> lexer_state \<Rightarrow> (string list \<times> symbol option \<times> lexer_state) result"

definition returns :: "nat \<Rightarrow> action" where
  "returns k = (\<lambda>yytext st. Inr ([], Some (Const k), st))"

definition handles :: "(lexer_state \<Rightarrow> token \<times> lexer_state) \<Rightarrow> action" where
  "handles h = (\<lambda>yytext st. Inr ([], Some (Value (fst (h st))), snd (h st)))"

definition handles_func :: action where
  "handles_func =
     (\<lambda>yytext st. case lexer_handle_keyword_func st of (errors, t, st) \<Rightarrow> Inr (errors, Some (Value t), st))"

definition reads :: "(string \<Rightarrow> token) \<Rightarrow> action" where
  "reads f = (\<lambda>yytext st. Inr ([], Some (Value (f yytext)), st))"

definition reads_checked :: "(string \<Rightarrow> token result) \<Rightarrow> action" where
  "reads_checked f = (\<lambda>yytext st. sbind (f yytext) (\<lambda>t. Inr ([], Some (Value t), st)))"

definition returns_char :: action where
  "returns_char = (\<lambda>yytext st. Inr ([], Some (Character (hd yytext)), st))"

definition skips :: action where
  "skips = (\<lambda>yytext st. Inr ([], None, st))"

text \<open>
  The rules in their order; \<open>true|false\<close> is two of them. \<open>use_newline_as_flush\<close> is 1 and never
  written, so a line break is a token.
\<close>

definition keyword_rules :: "(pattern \<times> action) list" where
  "keyword_rules =
     [(P_Lit ''def'', returns 269), (P_Lit ''return'', returns 270),
      (P_Lit ''if'', handles lexer_handle_keyword_if), (P_Lit ''elif'', returns 272),
      (P_Lit ''else'', returns 273), (P_Lit ''for'', returns 274),
      (P_Lit ''while'', handles lexer_handle_keyword_while), (P_Lit ''do'', returns 276),
      (P_Lit ''switch'', handles lexer_handle_keyword_switch), (P_Lit ''case'', returns 278),
      (P_Lit ''other'', returns 279), (P_Lit ''class'', handles lexer_handle_keyword_class),
      (P_Lit ''func'', handles_func),
      (P_Lit ''true'', reads lexer_handle_bool), (P_Lit ''false'', reads lexer_handle_bool)]"

definition literal_rules :: "(pattern \<times> action) list" where
  "literal_rules =
     [(P_Digits, reads lexer_handle_int), (P_Decimal, reads lexer_handle_float),
      (P_Quoted_Char, reads_checked lexer_handle_char), (P_Quoted, reads_checked lexer_handle_string)]"

definition sign_rules :: "(pattern \<times> action) list" where
  "sign_rules =
     [(P_Lit ''=='', returns 263), (P_Lit ''!='', returns 264), (P_Lit ''>='', returns 265),
      (P_Lit ''<'', returns 266), (P_Lit ''>'', returns 267), (P_Lit ''<='', returns 268),
      (P_Lit ''('', returns 259), (P_Lit '')'', returns 260), (P_Lit ''{'', returns 261), (P_Lit ''}'', returns 262)]"

definition rules :: "(pattern \<times> action) list" where
  "rules =
     keyword_rules @ literal_rules @ [(P_Name, reads lexer_handle_identifier)] @ sign_rules @
     [(P_Comment, skips), (P_Newline, returns_char), (P_Blanks, skips), (P_Any, returns_char)]"

fun longest :: "(pattern \<times> action) list \<Rightarrow> string \<Rightarrow> nat \<times> action" where
  "longest [] s = (0, skips)"
| "longest ((p, act) # rs) s =
     (let n = match_len p s in if fst (longest rs s) \<le> n then (n, act) else longest rs s)"

lemma longest_ge: "(p, act) \<in> set rs \<Longrightarrow> match_len p s \<le> fst (longest rs s)"
  by (induction rs) (fastforce simp: Let_def)+

text \<open>Every character is matched, so the scanner always advances.\<close>

lemma longest_pos: "s \<noteq> [] \<Longrightarrow> 0 < fst (longest rules s)"
proof -
  assume s: "s \<noteq> []"
  then have "0 < match_len P_Any s \<or> 0 < match_len P_Newline s" by (cases s) auto
  moreover have "(P_Any, returns_char) \<in> set rules" "(P_Newline, returns_char) \<in> set rules"
    by (simp_all add: rules_def)
  ultimately show ?thesis by (meson le_zero_eq longest_ge not_gr_zero order.strict_trans2)
qed

function yylex :: "lexer_state \<Rightarrow> string \<Rightarrow> (string list \<times> symbol \<times> lexer_state \<times> string) result" where
  "yylex st yytext =
     (if yytext = [] then Inr ([], Value lexer_handle_eof, st, [])
      else let n = fst (longest rules yytext) in
        sbind (snd (longest rules yytext) (take n yytext) st) (\<lambda>(errors, ret, st').
          case ret of
            Some tok \<Rightarrow> Inr (errors, tok, st', drop n yytext)
          | None \<Rightarrow> yylex st' (drop n yytext)))"
  by auto

termination
  by (relation "measure (\<lambda>(st, yytext). length yytext)") (use longest_pos in auto)

declare yylex.simps [simp del]

text \<open>One call consumes at least a character, unless the text has ended.\<close>

lemma yylex_consumes: "yylex st s = Inr (errors, tok, st', rest) \<Longrightarrow> s \<noteq> [] \<Longrightarrow> length rest < length s"
proof (induction st s arbitrary: errors tok st' rest rule: yylex.induct)
  case (1 st s)
  have n: "0 < fst (longest rules s)" using longest_pos "1.prems"(2) by simp
  show ?case
  proof (cases "snd (longest rules s) (take (fst (longest rules s)) s) st")
    case (Inr r)
    obtain es ret st1 where r: "r = (es, ret, st1)" by (cases r)
    show ?thesis
    proof (cases ret)
      case None
      show ?thesis
      proof (cases "drop (fst (longest rules s)) s = []")
        case True
        then show ?thesis
          using 1 Inr r None by (subst (asm) yylex.simps) (auto simp: Let_def yylex.simps)
      next
        case False
        have "length rest < length (drop (fst (longest rules s)) s)"
          using "1.IH" [OF _ refl Inr, of es "(ret, st1)" ret st1 errors tok st' rest] "1.prems" False Inr r None
          by (subst (asm) yylex.simps) (auto simp: Let_def)
        then show ?thesis by simp
      qed
    qed (use 1 Inr r n in \<open>subst (asm) yylex.simps, auto simp: Let_def\<close>)
  qed (use 1 in \<open>subst (asm) yylex.simps, auto simp: Let_def\<close>)
qed

text \<open>The tokens of a text: what the parser gets to see, up to the first end token.\<close>

function lex_all :: "lexer_state \<Rightarrow> string \<Rightarrow> (string list \<times> symbol list \<times> lexer_state) result" where
  "lex_all st yytext =
     sbind (yylex st yytext) (\<lambda>(errors, tok, st', rest).
       if yytext = [] \<or> tok = Value Tok_End then Inr (errors, [tok], st')
       else sbind (lex_all st' rest) (\<lambda>(errors', toks, st'). Inr (errors @ errors', tok # toks, st')))"
  by auto

termination
  by (relation "measure (\<lambda>(st, yytext). length yytext)") (use yylex_consumes in auto)

declare lex_all.simps [simp del]

end
