(* ===== verification/Scanner_Claims.thy ===== *)
theory Scanner_Claims
  imports Scanner
begin

text \<open>
  The scanner against a description of the tokens: what each token looks like and what it stands
  for. Texts made of such tokens, separated by blanks, are read back token by token.
\<close>

subsection \<open>Tokens and their texts\<close>

datatype lexeme =
    L_Word string
  | L_Name string
  | L_Bool bool
  | L_Int nat
  | L_Decimal nat string
  | L_Char char
  | L_String string
  | L_Sign string
  | L_Newline

definition keyword_table :: "(string \<times> symbol) list" where
  "keyword_table =
     [(''def'', Const 269), (''return'', Const 270), (''if'', Value Tok_If), (''elif'', Const 272),
      (''else'', Const 273), (''for'', Const 274), (''while'', Value Tok_While), (''do'', Const 276),
      (''switch'', Value Tok_Switch), (''case'', Const 278), (''other'', Const 279),
      (''class'', Value Tok_Class), (''func'', Value Tok_Func)]"

definition sign_table :: "(string \<times> symbol) list" where
  "sign_table =
     [(''=='', Const 263), (''!='', Const 264), (''>='', Const 265), (''<'', Const 266),
      (''>'', Const 267), (''<='', Const 268), (''('', Const 259), ('')'', Const 260),
      (''{'', Const 261), (''}'', Const 262), (''+'', Character (CHR ''+'')), (''-'', Character (CHR ''-'')),
      (''*'', Character (CHR ''*'')), (''/'', Character (CHR ''/'')), (''='', Character (CHR ''='')),
      (''!'', Character (CHR ''!'')), ('','', Character (CHR '','')), ('';'', Character (CHR '';'')),
      (''?'', Character (CHR ''?'')), ('':'', Character (CHR '':''))]"

fun text_of :: "lexeme \<Rightarrow> string" where
  "text_of (L_Word w) = w"
| "text_of (L_Name w) = w"
| "text_of (L_Bool b) = (if b then ''true'' else ''false'')"
| "text_of (L_Int n) = show_nat n"
| "text_of (L_Decimal n f) = show_nat n @ ''.'' @ f"
| "text_of (L_Char c) = [squote, c, squote]"
| "text_of (L_String s) = dquote # s @ [dquote]"
| "text_of (L_Sign w) = w"
| "text_of L_Newline = [newline]"

fun symbol_of :: "lexeme \<Rightarrow> symbol" where
  "symbol_of (L_Word w) = the (map_of keyword_table w)"
| "symbol_of (L_Name w) = Value (Tok_Ident w)"
| "symbol_of (L_Bool b) = Value (Tok_Bool b)"
| "symbol_of (L_Int n) = Value (Tok_Int (if n < 2 ^ 63 then word_of_nat n else - 1))"
| "symbol_of (L_Decimal n f) = Value (lexer_handle_float (show_nat n @ ''.'' @ f))"
| "symbol_of (L_Char c) = Value (Tok_Char c)"
| "symbol_of (L_String s) = Value (Tok_String s)"
| "symbol_of (L_Sign w) = the (map_of sign_table w)"
| "symbol_of L_Newline = Character newline"

fun proper :: "lexeme \<Rightarrow> bool" where
  "proper (L_Word w) = (w \<in> set (map fst keyword_table))"
| "proper (L_Name w) =
     (w \<noteq> [] \<and> name_start (hd w) \<and> list_all name_char w \<and> w \<notin> set (map fst keyword_table) \<and>
      w \<noteq> ''true'' \<and> w \<noteq> ''false'')"
| "proper (L_Decimal n f) = (f \<noteq> [] \<and> list_all is_digit f)"
| "proper (L_Char c) = (is_letter c \<or> is_digit c)"
| "proper (L_String s) = (dquote \<notin> set s)"
| "proper (L_Sign w) = (w \<in> set (map fst sign_table))"
| "proper _ = True"

subsection \<open>The rule that matches a token\<close>

text \<open>All rules of a list match less than \<open>n\<close> characters.\<close>

definition below :: "nat \<Rightarrow> string \<Rightarrow> (pattern \<times> action) list \<Rightarrow> bool" where
  "below n s rs \<longleftrightarrow> (\<forall>q \<in> set rs. match_len (fst q) s < n)"

lemma below_simps [simp]:
  "below n s []" "below n s ((p, act) # rs) \<longleftrightarrow> match_len p s < n \<and> below n s rs"
  "below n s (rs @ rs') \<longleftrightarrow> below n s rs \<and> below n s rs'"
  by (auto simp: below_def)

lemma below_mono: "below m s rs \<Longrightarrow> m \<le> n \<Longrightarrow> below n s rs"
  by (auto simp: below_def)

lemma longest_rule:
  assumes "rs = rs1 @ (p, act) # rs2" "match_len p s = n" "below n s rs1" "below (Suc n) s rs2"
  shows "longest rs s = (n, act)"
  using assms
proof (induction rs1 arbitrary: rs)
  case Nil
  have "fst (longest rs2 s) \<le> n" using Nil.prems(4) by (induction rs2) (auto simp: Let_def)
  with Nil.prems(1,2) show ?case by (simp add: Let_def)
next
  case (Cons r rs1)
  have "longest (rs1 @ (p, act) # rs2) s = (n, act)" using Cons by (cases r) simp
  with Cons.prems show ?case by (cases r) (auto simp: Let_def)
qed

lemma newline_char: "newline = CHR 0x0A"
  by code_simp

lemmas char_classes = is_digit_def is_letter_def name_start_def name_char_def is_blank_def dquote_def squote_def newline_char

lemma blank_chars:
  assumes "is_blank c"
  shows "\<not> is_digit c" "\<not> name_char c" "\<not> name_start c" "c \<noteq> newline" "c \<noteq> dquote" "c \<noteq> squote" "c \<noteq> CHR ''.''"
  using assms by (auto simp: char_classes)

lemma takeWhile_stop: "list_all P w \<Longrightarrow> \<not> P c \<Longrightarrow> takeWhile P (w @ c # r) = w \<and> dropWhile P (w @ c # r) = c # r"
  by (induction w) auto

abbreviation (input) name_rule :: "pattern \<times> action" where
  "name_rule \<equiv> (P_Name, reads lexer_handle_identifier)"

abbreviation (input) rest_rules :: "(pattern \<times> action) list" where
  "rest_rules \<equiv> [(P_Comment, skips), (P_Newline, returns_char), (P_Blanks, skips), (P_Any, returns_char)]"

text \<open>The fixed texts of the rules.\<close>

lemma keyword_rules_lits:
  "\<forall>q \<in> set keyword_rules. \<exists>k ks. fst q = P_Lit (k # ks) \<and> list_all name_char (k # ks) \<and>
     k # ks \<in> set (map fst keyword_table) \<union> {''true'', ''false''}"
  by (simp add: keyword_rules_def keyword_table_def char_classes)

lemma sign_rules_lits:
  "\<forall>q \<in> set sign_rules. \<exists>k ks. fst q = P_Lit (k # ks) \<and> list_all (\<lambda>c. \<not> is_blank c) (k # ks) \<and>
     \<not> name_char k \<and> k \<notin> {dquote, squote, newline}"
  by (simp add: sign_rules_def char_classes)

text \<open>A fixed text that starts with another character does not match.\<close>

lemma keywords_other: "\<not> name_char d \<or> is_digit d \<Longrightarrow> below 1 (d # s) keyword_rules"
proof -
  assume d: "\<not> name_char d \<or> is_digit d"
  have "\<forall>q \<in> set keyword_rules. \<exists>k ks. fst q = P_Lit (k # ks) \<and> name_char k \<and> \<not> is_digit k"
    by (simp add: keyword_rules_def char_classes)
  with d show ?thesis by (fastforce simp: below_def)
qed

lemma signs_other: "name_char d \<or> d \<in> {dquote, squote, newline} \<or> is_blank d \<Longrightarrow> below 1 (d # s) sign_rules"
  using sign_rules_lits by (fastforce simp: below_def)

text \<open>A fixed text that matches a token and what follows is the token or shorter.\<close>

lemma lit_shorter:
  assumes "list_all P k" "\<not> P c" "k \<noteq> w" "w \<noteq> []"
  shows "match_len (P_Lit k) (w @ c # r) < length w"
proof (rule ccontr)
  assume "\<not> match_len (P_Lit k) (w @ c # r) < length w"
  then have t: "take (length k) (w @ c # r) = k" "\<not> length k < length w" using assms(4) by (auto split: if_splits)
  then have k: "k = w @ take (length k - length w) (c # r)" by simp
  show False
  proof (cases "length k - length w")
    case 0
    then show False using k assms(3) by simp
  next
    case (Suc m)
    then have "c \<in> set k" using k by (metis in_set_conv_decomp take_Suc_Cons)
    then show False using assms(1,2) by (auto simp: list_all_iff)
  qed
qed

lemma keywords_shorter:
  assumes "set rs \<subseteq> set keyword_rules" "P_Lit w \<notin> fst ` set rs" "\<not> name_char c" "w \<noteq> []"
  shows "below (length w) (w @ c # r) rs"
  unfolding below_def
proof
  fix q
  assume q: "q \<in> set rs"
  obtain k where k: "fst q = P_Lit k" "list_all name_char k" using keyword_rules_lits assms(1) q by blast
  then have "k \<noteq> w" using q assms(2) by (metis imageI)
  with lit_shorter [OF k(2) assms(3)] k(1) assms(4) show "match_len (fst q) (w @ c # r) < length w" by metis
qed

lemma signs_shorter:
  assumes "set rs \<subseteq> set sign_rules" "P_Lit w \<notin> fst ` set rs" "is_blank c" "w \<noteq> []"
  shows "below (length w) (w @ c # r) rs"
  unfolding below_def
proof
  fix q
  assume q: "q \<in> set rs"
  obtain k where k: "fst q = P_Lit k" "list_all (\<lambda>c. \<not> is_blank c) k" using sign_rules_lits assms(1) q by blast
  then have "k \<noteq> w" using q assms(2) by (metis imageI)
  moreover have "\<not> \<not> is_blank c" using assms(3) by simp
  ultimately show "match_len (fst q) (w @ c # r) < length w" using lit_shorter [OF k(2)] k(1) assms(4) by metis
qed

lemma split_rule:
  assumes "distinct (map fst rs)" "(p, act) \<in> set rs"
  obtains rs1 rs2 where "rs = rs1 @ (p, act) # rs2" "p \<notin> fst ` set rs1" "p \<notin> fst ` set rs2"
    "set rs1 \<subseteq> set rs" "set rs2 \<subseteq> set rs"
proof -
  obtain rs1 rs2 where "rs = rs1 @ (p, act) # rs2" using assms(2) by (metis split_list)
  with that assms(1) show thesis by auto
qed

subsection \<open>The rule that matches each token\<close>

lemma show_nat_nonempty: "show_nat n \<noteq> []"
  by (subst show_nat.simps) simp

lemma show_nat_all_digits: "list_all is_digit (show_nat n)"
  using show_nat_digits [of n] by (simp add: list_all_iff)

lemma digits_start:
  assumes "list_all is_digit w" "w \<noteq> []"
  obtains a v where "w = a # v" "is_digit a" "\<not> name_start a" "name_char a" "a \<notin> {dquote, squote, newline, CHR ''/''}"
    "\<not> is_blank a"
proof -
  obtain a v where w: "w = a # v" using assms(2) by (cases w) auto
  then have "is_digit a" using assms(1) by simp
  then show thesis by (intro that [OF w]) (auto simp: char_classes)
qed

lemma longest_int:
  assumes "is_blank c"
  shows "longest rules (show_nat n @ c # r) = (length (show_nat n), reads lexer_handle_int)"
proof -
  note tw = takeWhile_stop [OF show_nat_all_digits blank_chars(1) [OF assms], of n r]
  obtain a w where a: "show_nat n = a # w" "is_digit a" "\<not> name_start a" "name_char a"
      "a \<notin> {dquote, squote, newline, CHR ''/''}" "\<not> is_blank a"
    by (rule digits_start [OF show_nat_all_digits show_nat_nonempty])
  have "below 1 (show_nat n @ c # r) keyword_rules" "below 1 (show_nat n @ c # r) sign_rules"
    using keywords_other [of a "w @ c # r"] signs_other [of a "w @ c # r"] a by auto
  then have "below (length (show_nat n)) (show_nat n @ c # r) keyword_rules"
      "below (Suc (length (show_nat n))) (show_nat n @ c # r) sign_rules"
    using a(1) by (auto elim: below_mono)
  then show ?thesis
    using tw a(2-) a(1) blank_chars [OF assms]
    by (intro longest_rule [where ?rs1.0 = keyword_rules and ?rs2.0 = "tl literal_rules @ [name_rule] @ sign_rules @ rest_rules"])
      (auto simp: rules_def literal_rules_def split: list.split)
qed

lemma longest_decimal:
  assumes "is_blank c" "f \<noteq> []" "list_all is_digit f"
  shows "longest rules (show_nat n @ ''.'' @ f @ c # r) = (length (show_nat n) + 1 + length f, reads lexer_handle_float)"
proof -
  let ?s = "show_nat n @ ''.'' @ f @ c # r" and ?n = "length (show_nat n) + 1 + length f"
  have dot: "\<not> is_digit (CHR ''.'')" by (simp add: char_classes)
  note tw = takeWhile_stop [OF show_nat_all_digits dot, of n "f @ c # r"]
    takeWhile_stop [OF assms(3) blank_chars(1) [OF assms(1)], of r]
  obtain a w where a: "show_nat n = a # w" "is_digit a" "\<not> name_start a" "name_char a"
      "a \<notin> {dquote, squote, newline, CHR ''/''}" "\<not> is_blank a"
    by (rule digits_start [OF show_nat_all_digits show_nat_nonempty])
  have "below 1 ?s keyword_rules" "below 1 ?s sign_rules"
    using keywords_other [of a "w @ ''.'' @ f @ c # r"] signs_other [of a "w @ ''.'' @ f @ c # r"] a by auto
  then have "below ?n ?s keyword_rules" "below (Suc ?n) ?s sign_rules" by (auto elim: below_mono)
  then show ?thesis
    using tw a(2-) a(1) blank_chars [OF assms(1)] assms(2)
    by (intro longest_rule [where ?rs1.0 = "keyword_rules @ [(P_Digits, reads lexer_handle_int)]" and
          ?rs2.0 = "tl (tl literal_rules) @ [name_rule] @ sign_rules @ rest_rules"])
      (auto simp: rules_def literal_rules_def split: list.split)
qed

lemma longest_char:
  assumes "is_letter a \<or> is_digit a"
  shows "longest rules (squote # a # squote # r) = (3, reads_checked lexer_handle_char)"
proof -
  have q: "\<not> name_char squote" "\<not> is_digit squote" "\<not> name_start squote" "squote \<notin> {newline, dquote, CHR ''/''}" "\<not> is_blank squote"
    by (simp_all add: char_classes)
  then have "below 3 (squote # a # squote # r) keyword_rules" "below 4 (squote # a # squote # r) sign_rules"
    by (auto intro: below_mono [OF keywords_other] below_mono [OF signs_other])
  then show ?thesis
    using assms q
    by (intro longest_rule [where ?rs1.0 = "keyword_rules @ take 2 literal_rules" and ?rs2.0 = "drop 3 literal_rules @ name_rule # sign_rules @ rest_rules"])
      (auto simp: rules_def literal_rules_def split: list.split)
qed

lemma longest_string:
  assumes "dquote \<notin> set s"
  shows "longest rules (dquote # s @ dquote # r) = (length s + 2, reads_checked lexer_handle_string)"
proof -
  have q: "\<not> name_char dquote" "\<not> is_digit dquote" "\<not> name_start dquote" "dquote \<notin> {newline, squote, CHR ''/''}" "\<not> is_blank dquote"
    by (simp_all add: char_classes)
  then have "below (length s + 2) (dquote # s @ dquote # r) keyword_rules" "below (length s + 3) (dquote # s @ dquote # r) sign_rules"
    by (auto intro: below_mono [OF keywords_other] below_mono [OF signs_other])
  moreover have "takeWhile (\<lambda>c. c \<noteq> dquote) (s @ dquote # r) = s"
    using assms by (induction s) auto
  ultimately show ?thesis
    using q
    by (intro longest_rule [where ?rs1.0 = "keyword_rules @ take 3 literal_rules" and ?rs2.0 = "name_rule # sign_rules @ rest_rules"])
      (auto simp: rules_def literal_rules_def numeral_3_eq_3 split: list.split)
qed

text \<open>The rules behind the keywords on a text that starts with a name.\<close>

lemma name_rules:
  assumes "w \<noteq> []" "name_start (hd w)" "list_all name_char w" "\<not> name_char c"
  shows "below 1 (w @ c # r) literal_rules" "match_len P_Name (w @ c # r) = length w"
    "below (Suc (length w)) (w @ c # r) (sign_rules @ rest_rules)"
proof -
  obtain a v where a: "w = a # v" "name_start a" using assms(1,2) by (cases w) auto
  then have n: "\<not> is_digit a" "a \<notin> {dquote, squote, newline, CHR ''/''}" "\<not> is_blank a" "name_char a"
    by (auto simp: char_classes)
  have "takeWhile name_char (v @ c # r) = v" using takeWhile_stop [of name_char v c r] assms(3,4) a by simp
  then show "match_len P_Name (w @ c # r) = length w" using a by simp
  show "below 1 (w @ c # r) literal_rules"
    using a n by (auto simp: literal_rules_def split: list.split)
  have "below (Suc (length w)) (w @ c # r) sign_rules"
    using signs_other [of a "v @ c # r"] a n by (auto elim: below_mono)
  then show "below (Suc (length w)) (w @ c # r) (sign_rules @ rest_rules)" using a n by auto
qed

lemma longest_name:
  assumes "w \<noteq> []" "name_start (hd w)" "list_all name_char w" "\<not> name_char c"
    and "w \<notin> set (map fst keyword_table)" "w \<noteq> ''true''" "w \<noteq> ''false''"
  shows "longest rules (w @ c # r) = (length w, reads lexer_handle_identifier)"
proof (rule longest_rule [where ?rs1.0 = "keyword_rules @ literal_rules" and ?rs2.0 = "sign_rules @ rest_rules"])
  have "P_Lit w \<notin> fst ` set keyword_rules" using keyword_rules_lits assms(5-7) by fastforce
  then show "below (length w) (w @ c # r) (keyword_rules @ literal_rules)"
    using keywords_shorter [OF order_refl _ assms(4,1)] below_mono [OF name_rules(1) [OF assms(1-4)], of "length w" r] assms(1)
    by (simp add: Suc_le_eq)
qed (use name_rules [OF assms(1-4)] in \<open>simp_all add: rules_def del: match_len.simps\<close>)

lemma longest_word:
  assumes "(P_Lit w, act) \<in> set keyword_rules" "\<not> name_char c"
  shows "longest rules (w @ c # r) = (length w, act)"
proof -
  have w: "w \<noteq> []" "name_start (hd w)" "list_all name_char w"
    using assms(1) by (auto simp: keyword_rules_def char_classes)
  have "distinct (map fst keyword_rules)" by (simp add: keyword_rules_def)
  then obtain rs1 rs2 where rs: "keyword_rules = rs1 @ (P_Lit w, act) # rs2" "P_Lit w \<notin> fst ` set rs1" "P_Lit w \<notin> fst ` set rs2"
      "set rs1 \<subseteq> set keyword_rules" "set rs2 \<subseteq> set keyword_rules"
    using split_rule assms(1) by metis
  have "below (Suc (length w)) (w @ c # r) (rs2 @ literal_rules @ name_rule # sign_rules @ rest_rules)"
    using below_mono [OF keywords_shorter [OF rs(5,3) assms(2) w(1)], of "Suc (length w)" r]
      below_mono [OF name_rules(1) [OF w assms(2)], of "Suc (length w)" r] name_rules(2,3) [OF w assms(2), of r]
    by (simp del: match_len.simps)
  then show ?thesis
    using keywords_shorter [OF rs(4,2) assms(2) w(1)]
    by (intro longest_rule [where ?rs1.0 = rs1]) (auto simp: rules_def rs(1))
qed

text \<open>Signs: every rule but the fixed texts and \<open>.\<close> needs another first character.\<close>

lemma sign_start:
  assumes "a \<notin> {CHR ''.'', newline, dquote, squote}" "\<not> name_start a" "\<not> is_digit a" "\<not> is_blank a" "take 2 (a # s) \<noteq> ''//''"
  shows "below 1 (a # s) (keyword_rules @ literal_rules @ [name_rule])" "below 2 (a # s) rest_rules"
    "below 1 (a # s) [(P_Comment, skips), (P_Newline, returns_char), (P_Blanks, skips)]" "match_len P_Any (a # s) = 1"
proof -
  have "below 1 (a # s) keyword_rules" using keywords_other [of a s] assms by (auto simp: name_char_def)
  then show "below 1 (a # s) (keyword_rules @ literal_rules @ [name_rule])"
    using assms by (auto simp: literal_rules_def split: list.split)
qed (use assms in auto)

lemma sign_table_chars:
  "\<forall>w \<in> set (map fst sign_table). w \<noteq> [] \<and> list_all (\<lambda>c. c \<notin> {CHR ''.'', newline, dquote, squote} \<and> \<not> name_start c \<and>
     \<not> is_digit c \<and> \<not> is_blank c) w \<and> take 2 w \<noteq> ''//'' \<and> (P_Lit w \<notin> fst ` set sign_rules \<longrightarrow> length w = 1)"
  by (simp add: sign_table_def sign_rules_def char_classes)

lemma longest_sign:
  assumes "w \<in> set (map fst sign_table)" "is_blank c"
  shows "longest rules (w @ c # r) =
    (length w, if P_Lit w \<in> fst ` set sign_rules then the (map_of sign_rules (P_Lit w)) else returns_char)"
proof -
  have table: "w \<noteq> []" "list_all (\<lambda>c. c \<notin> {CHR ''.'', newline, dquote, squote} \<and> \<not> name_start c \<and> \<not> is_digit c \<and> \<not> is_blank c) w"
      "take 2 w \<noteq> ''//''" "P_Lit w \<notin> fst ` set sign_rules \<Longrightarrow> length w = 1"
    using sign_table_chars assms(1) by blast+
  obtain a v where w: "w = a # v" using table(1) by (cases w) auto
  have "take 2 (a # v @ c # r) \<noteq> ''//''"
    using w table(3) assms(2) by (cases v) (auto simp: is_blank_def)
  then have st: "a \<notin> {CHR ''.'', newline, dquote, squote}" "\<not> name_start a" "\<not> is_digit a" "\<not> is_blank a"
      "take 2 (a # v @ c # r) \<noteq> ''//''"
    using table(2) w by auto
  have start: "below (length w) (w @ c # r) (keyword_rules @ literal_rules @ [name_rule])" "below (Suc (length w)) (w @ c # r) rest_rules"
    using below_mono [OF sign_start(1) [OF st], of "length w"] below_mono [OF sign_start(2) [OF st], of "Suc (length w)"] w by simp_all
  show ?thesis
  proof (cases "P_Lit w \<in> fst ` set sign_rules")
    case True
    have d: "distinct (map fst sign_rules)" by (simp add: sign_rules_def)
    obtain act where act: "(P_Lit w, act) \<in> set sign_rules" using True by auto
    then obtain rs1 rs2 where rs: "sign_rules = rs1 @ (P_Lit w, act) # rs2" "P_Lit w \<notin> fst ` set rs1" "P_Lit w \<notin> fst ` set rs2"
        "set rs1 \<subseteq> set sign_rules" "set rs2 \<subseteq> set sign_rules"
      using split_rule d by metis
    have "below (length w) (w @ c # r) rs1" "below (Suc (length w)) (w @ c # r) rs2"
      using signs_shorter [OF rs(4,2) assms(2) table(1)] below_mono [OF signs_shorter [OF rs(5,3) assms(2) table(1)]] by simp_all
    then have "longest rules (w @ c # r) = (length w, act)"
      using start by (intro longest_rule [where ?rs1.0 = "keyword_rules @ literal_rules @ [name_rule] @ rs1" and ?rs2.0 = "rs2 @ rest_rules"])
        (auto simp: rules_def rs(1) simp del: match_len.simps, simp)
    then show ?thesis using True d act by simp
  next
    case False
    have "below 1 (w @ c # r) sign_rules"
      using signs_shorter [OF order_refl False assms(2) table(1), of r] table(4) [OF False] by simp
    with False show ?thesis
      using start(1) sign_start(3,4) [OF st] table(4) [OF False] w
      by (intro longest_rule [where ?rs1.0 = "keyword_rules @ literal_rules @ [name_rule] @
            sign_rules @ [(P_Comment, skips), (P_Newline, returns_char), (P_Blanks, skips)]" and ?rs2.0 = "[]"])
        (simp_all add: rules_def del: match_len.simps)
  qed
qed

subsection \<open>One token\<close>

text \<open>The action of a token gives its symbol and counts the keywords.\<close>

definition state_after :: "lexeme \<Rightarrow> lexer_state \<Rightarrow> lexer_state" where
  "state_after l st =
     (if l = L_Word ''if'' then snd (lexer_handle_keyword_if st)
      else if l = L_Word ''switch'' then snd (lexer_handle_keyword_switch st)
      else if l = L_Word ''while'' then snd (lexer_handle_keyword_while st)
      else if l = L_Word ''class'' then snd (lexer_handle_keyword_class st)
      else if l = L_Word ''func'' then snd (snd (lexer_handle_keyword_func st))
      else st)"

definition errors_of :: "lexeme \<Rightarrow> lexer_state \<Rightarrow> string list" where
  "errors_of l st = (if l = L_Word ''func'' then fst (lexer_handle_keyword_func st) else [])"

definition matches :: "lexeme \<Rightarrow> string \<Rightarrow> lexer_state \<Rightarrow> bool" where
  "matches l s st \<longleftrightarrow>
     fst (longest rules s) = length (text_of l) \<and>
     snd (longest rules s) (text_of l) st = Inr (errors_of l st, Some (symbol_of l), state_after l st)"

lemmas action_defs = returns_def handles_def handles_func_def reads_def reads_checked_def returns_char_def
  lexer_handle_keyword_if_def lexer_handle_keyword_switch_def lexer_handle_keyword_while_def
  lexer_handle_keyword_class_def lexer_handle_keyword_func_def

lemma matches_word: "proper (L_Word w) \<Longrightarrow> is_blank c \<Longrightarrow> matches (L_Word w) (w @ c # r) st"
proof -
  assume a: "proper (L_Word w)" "is_blank c"
  let ?act = "the (map_of keyword_rules (P_Lit w))"
  have "\<forall>(w, t) \<in> set keyword_table. the (map_of keyword_rules (P_Lit w)) w st = Inr (errors_of (L_Word w) st, Some t, state_after (L_Word w) st)"
    by (simp add: keyword_table_def keyword_rules_def action_defs state_after_def errors_of_def split_def)
  moreover have "(w, the (map_of keyword_table w)) \<in> set keyword_table" using a(1) by (auto simp: keyword_table_def)
  ultimately have act: "?act w st = Inr (errors_of (L_Word w) st, Some (the (map_of keyword_table w)), state_after (L_Word w) st)" by blast
  have "\<forall>(w, t) \<in> set keyword_table. P_Lit w \<in> dom (map_of keyword_rules)"
    by (simp add: keyword_table_def keyword_rules_def)
  then have "(P_Lit w, ?act) \<in> set keyword_rules" using a(1) by (force intro: map_of_SomeD)
  from longest_word [OF this blank_chars(2) [OF a(2)]] act show ?thesis by (simp add: matches_def)
qed

lemma matches_sign: "proper (L_Sign w) \<Longrightarrow> is_blank c \<Longrightarrow> matches (L_Sign w) (w @ c # r) st"
proof -
  assume a: "proper (L_Sign w)" "is_blank c"
  have "\<forall>(w, t) \<in> set sign_table. (if P_Lit w \<in> fst ` set sign_rules then the (map_of sign_rules (P_Lit w)) else returns_char) w st =
      Inr ([], Some t, st)"
    by (simp add: sign_table_def sign_rules_def returns_def returns_char_def)
  moreover have "(w, the (map_of sign_table w)) \<in> set sign_table" using a(1) by (auto simp: sign_table_def)
  ultimately have "(if P_Lit w \<in> fst ` set sign_rules then the (map_of sign_rules (P_Lit w)) else returns_char) w st =
      Inr ([], Some (the (map_of sign_table w)), st)" by blast
  then show ?thesis using longest_sign [of w c r] a by (simp add: matches_def state_after_def errors_of_def)
qed

lemma matches_bool: "is_blank c \<Longrightarrow> matches (L_Bool b) (text_of (L_Bool b) @ c # r) st"
  using longest_word [of "text_of (L_Bool b)" "reads lexer_handle_bool" c r] blank_chars(2)
  by (auto simp: matches_def keyword_rules_def action_defs state_after_def errors_of_def lexer_handle_bool_def)

lemma matches_newline: "matches L_Newline (newline # r) st"
proof -
  have n: "\<not> name_char newline" "\<not> is_digit newline" "\<not> name_start newline" "\<not> is_blank newline"
      "newline \<notin> {dquote, squote, CHR ''/''}"
    by (simp_all add: char_classes)
  have "below 1 (newline # r) keyword_rules" "below 1 (newline # r) sign_rules"
    using keywords_other [of newline r] signs_other [of newline r] n(1) by blast+
  then have "longest rules (newline # r) = (1, returns_char)"
    using n
    by (intro longest_rule [where ?rs1.0 = "keyword_rules @ literal_rules @ [name_rule] @ sign_rules @ [(P_Comment, skips)]"
          and ?rs2.0 = "[(P_Blanks, skips), (P_Any, returns_char)]"])
      (auto simp: rules_def literal_rules_def split: list.split)
  then show ?thesis by (simp add: matches_def returns_char_def state_after_def errors_of_def)
qed

lemma matches_text:
  assumes "proper l" "is_blank c"
  shows "matches l (text_of l @ c # r) st"
proof (cases l)
  case (L_Word w)
  then show ?thesis using matches_word assms by simp
next
  case (L_Name w)
  then have "longest rules (w @ c # r) = (length w, reads lexer_handle_identifier)"
    using assms by (intro longest_name) (auto simp: blank_chars)
  then show ?thesis using L_Name by (simp add: matches_def reads_def lexer_handle_identifier_def state_after_def errors_of_def)
next
  case (L_Int n)
  then show ?thesis
    using longest_int [OF assms(2), of n r] int_digits_value [of n] by (simp add: matches_def reads_def state_after_def errors_of_def)
next
  case (L_Decimal n f)
  then show ?thesis
    using longest_decimal [OF assms(2), of f n r] assms(1) by (simp add: matches_def reads_def state_after_def errors_of_def)
next
  case (L_Char d)
  then show ?thesis
    using longest_char [of d "c # r"] assms(1) by (simp add: matches_def reads_checked_def lexer_handle_char_def state_after_def errors_of_def)
next
  case (L_String s)
  then show ?thesis
    using longest_string [of s "c # r"] assms(1) by (simp add: matches_def reads_checked_def lexer_handle_string_def state_after_def errors_of_def)
qed (use assms matches_sign matches_bool matches_newline in auto)

subsection \<open>Texts\<close>

lemma longest_blank:
  assumes "is_blank c"
  shows "longest rules (c # s) = (Suc (length (takeWhile is_blank s)), skips)"
proof -
  have b: "\<not> name_char c" "\<not> is_digit c" "\<not> name_start c" "c \<notin> {dquote, squote, newline, CHR ''/''}"
    using assms by (auto simp: char_classes)
  let ?n = "Suc (length (takeWhile is_blank s))"
  have "below 1 (c # s) keyword_rules" "below 1 (c # s) sign_rules"
    using keywords_other [of c s] signs_other [of c s] b(1) assms by blast+
  then have "below ?n (c # s) keyword_rules" "below ?n (c # s) sign_rules" by (auto elim: below_mono)
  then show ?thesis
    using b assms
    by (intro longest_rule [where ?rs1.0 = "keyword_rules @ literal_rules @ [name_rule] @ sign_rules @
          [(P_Comment, skips), (P_Newline, returns_char)]" and ?rs2.0 = "[(P_Any, returns_char)]"])
      (auto simp: rules_def literal_rules_def split: list.split)
qed

lemma yylex_blank: "is_blank c \<Longrightarrow> yylex st (c # s) = yylex st (dropWhile is_blank s)"
  by (subst yylex.simps) (simp add: longest_blank skips_def dropWhile_eq_drop)

text \<open>A comment up to the end of its line, line break included, is read over.\<close>

lemma yylex_comment:
  assumes "newline \<notin> set t"
  shows "yylex st (''//'' @ t @ newline # s) = yylex st s"
proof -
  have b: "\<not> name_char (CHR ''/'')" "\<not> is_digit (CHR ''/'')" "\<not> name_start (CHR ''/'')" "\<not> is_blank (CHR ''/'')"
      "CHR ''/'' \<notin> {dquote, squote, newline}"
    by (auto simp: char_classes)
  let ?s = "CHR ''/'' # CHR ''/'' # t @ newline # s" and ?n = "3 + length t"
  have t: "takeWhile (\<lambda>c. c \<noteq> newline) (t @ newline # s) = t" using assms by (induction t) auto
  have "below 1 ?s keyword_rules" using keywords_other b(1) by blast
  moreover have "below 1 ?s sign_rules" by (simp add: sign_rules_def)
  ultimately have "below ?n ?s keyword_rules" "below ?n ?s sign_rules" by (auto elim: below_mono)
  then have "longest rules ?s = (?n, skips)"
    using b t
    by (intro longest_rule [where ?rs1.0 = "keyword_rules @ literal_rules @ [name_rule] @ sign_rules" and
          ?rs2.0 = "tl rest_rules"])
      (auto simp: rules_def literal_rules_def numeral_3_eq_3 split: list.split)
  then show ?thesis by (subst yylex.simps) (simp add: skips_def numeral_3_eq_3)
qed

definition blanks :: "string \<Rightarrow> bool" where
  "blanks s \<longleftrightarrow> s \<noteq> [] \<and> list_all is_blank s"

definition write_text :: "(lexeme \<times> string) list \<Rightarrow> string" where
  "write_text ls = concat (map (\<lambda>(l, sep). text_of l @ sep) ls)"

lemma text_of_start:
  assumes "proper l"
  obtains a v where "text_of l = a # v" "\<not> is_blank a"
proof -
  have "text_of l \<noteq> [] \<and> \<not> is_blank (hd (text_of l))"
  proof (cases l)
    case (L_Int n)
    then show ?thesis using digits_start [OF show_nat_all_digits show_nat_nonempty, of n] by fastforce
  next
    case (L_Decimal n f)
    then show ?thesis using digits_start [OF show_nat_all_digits show_nat_nonempty, of n] by fastforce
  next
    case (L_Sign w)
    then have "w \<noteq> []" "list_all (\<lambda>c. \<not> is_blank c) w"
      using sign_table_chars assms by (auto simp: list_all_iff)
    with L_Sign show ?thesis by (cases w) auto
  next
    case (L_Word w)
    then show ?thesis using assms by (auto simp: keyword_table_def char_classes)
  next
    case (L_Name w)
    then show ?thesis using assms by (auto simp: char_classes)
  qed (auto simp: char_classes)
  then show thesis using that by (cases "text_of l") auto
qed

lemma yylex_text:
  assumes "proper l" "is_blank c"
  shows "yylex st (text_of l @ c # r) = Inr (errors_of l st, symbol_of l, state_after l st, c # r)"
proof -
  obtain a v where "text_of l = a # v" using text_of_start [OF assms(1)] by metis
  then show ?thesis
    using matches_text [OF assms, of r st] by (subst yylex.simps) (auto simp: matches_def Let_def)
qed

lemma lex_all_blanks:
  assumes "is_blank c"
  shows "lex_all st (c # s) = lex_all st (dropWhile is_blank s)"
proof (cases "dropWhile is_blank s = []")
  case True
  then have "yylex st (c # s) = yylex st []" using yylex_blank [OF assms, of st s] by metis
  then show ?thesis
    unfolding True by (subst (1 2) lex_all.simps) (simp add: yylex.simps [of _ "[]"] lexer_handle_eof_def)
next
  case False
  have "lex_all st (c # s) = lex_all st d" if "d \<noteq> []" "yylex st (c # s) = yylex st d" for d
    using that by (subst (1 2) lex_all.simps) simp
  then show ?thesis using False yylex_blank [OF assms] by blast
qed

lemma write_text_start: "\<forall>(l, sep) \<in> set ls. proper l \<Longrightarrow> dropWhile is_blank (write_text ls) = write_text ls"
proof (cases ls)
  case (Cons p ls')
  moreover assume "\<forall>(l, sep) \<in> set ls. proper l"
  ultimately obtain a v where "text_of (fst p) = a # v" "\<not> is_blank a" using text_of_start [of "fst p"] by (cases p) auto
  then show ?thesis using Cons by (simp add: write_text_def split_def)
qed (simp add: write_text_def)

lemma symbol_not_end: "proper l \<Longrightarrow> symbol_of l \<noteq> Value Tok_End"
  by (cases l) (auto simp: keyword_table_def sign_table_def lexer_handle_float_def)

lemma state_after_counters:
  "is_inside_selection_stat (state_after l st) =
     is_inside_selection_stat st + (if l = L_Word ''if'' \<or> l = L_Word ''switch'' then 1 else 0)"
  "is_inside_iteration_stat (state_after l st) = is_inside_iteration_stat st + (if l = L_Word ''while'' then 1 else 0)"
  by (simp_all add: state_after_def action_defs)

text \<open>
  C18. A text of tokens separated by blanks is read back token by token: names, keywords, literals
  and signs get their symbols, and the end token follows. Every \<open>if\<close> and \<open>switch\<close> increments the
  selection counter of the lexer, every \<open>while\<close> the iteration counter, nothing else changes them.
\<close>

theorem scan_roundtrip:
  assumes "\<forall>(l, sep) \<in> set ls. proper l \<and> blanks sep"
  shows "\<exists>errors st'. lex_all st (write_text ls) = Inr (errors, map (symbol_of \<circ> fst) ls @ [Value Tok_End], st') \<and>
    is_inside_selection_stat st' = is_inside_selection_stat st +
      int (length (filter (\<lambda>l. l = L_Word ''if'' \<or> l = L_Word ''switch'') (map fst ls))) \<and>
    is_inside_iteration_stat st' = is_inside_iteration_stat st + int (length (filter (\<lambda>l. l = L_Word ''while'') (map fst ls)))"
  using assms
proof (induction ls arbitrary: st)
  case Nil
  then show ?case by (simp add: write_text_def lex_all.simps yylex.simps lexer_handle_eof_def)
next
  case (Cons p ls)
  obtain l sep where p: "p = (l, sep)" by (cases p)
  then obtain c cs where sep: "sep = c # cs" "is_blank c" "list_all is_blank cs" "proper l"
    using Cons.prems by (cases sep) (auto simp: blanks_def)
  have ls: "\<forall>(l, sep) \<in> set ls. proper l \<and> blanks sep" using Cons.prems by simp
  obtain a v where start: "text_of l = a # v" using text_of_start [OF sep(4)] by metis
  have y: "yylex st (text_of l @ c # cs @ write_text ls) =
      Inr (errors_of l st, symbol_of l, state_after l st, c # cs @ write_text ls)"
    by (rule yylex_text [OF sep(4,2)])
  have "dropWhile is_blank (cs @ write_text ls) = write_text ls"
    using sep(3) write_text_start [of ls] ls by (induction cs) auto
  then have skip: "lex_all st1 (c # cs @ write_text ls) = lex_all st1 (write_text ls)" for st1
    using lex_all_blanks [OF sep(2)] by metis
  have t: "write_text (p # ls) = text_of l @ c # cs @ write_text ls" by (simp add: write_text_def p sep(1))
  obtain errors' st' where IH: "lex_all (state_after l st) (write_text ls) = Inr (errors', map (symbol_of \<circ> fst) ls @ [Value Tok_End], st')"
    "is_inside_selection_stat st' = is_inside_selection_stat (state_after l st) +
      int (length (filter (\<lambda>l. l = L_Word ''if'' \<or> l = L_Word ''switch'') (map fst ls)))"
    "is_inside_iteration_stat st' = is_inside_iteration_stat (state_after l st) +
      int (length (filter (\<lambda>l. l = L_Word ''while'') (map fst ls)))"
    using Cons.IH [OF ls, of "state_after l st"] by blast
  have "lex_all st (write_text (p # ls)) = Inr (errors_of l st @ errors', map (symbol_of \<circ> fst) (p # ls) @ [Value Tok_End], st')"
    using y IH(1) skip symbol_not_end [OF sep(4)] start unfolding t by (subst lex_all.simps) (simp add: p)
  with IH(2,3) show ?case by (simp add: p state_after_counters)
qed

definition demo_tokens :: "(lexeme \<times> string) list" where
  "demo_tokens =
     [(L_Word ''while'', '' ''), (L_Int 0, '' ''), (L_Sign ''<'', '' ''), (L_Name ''whilex'', ''  ''), (L_Sign ''{'', '' ''),
      (L_Newline, '' ''), (L_Sign ''}'', '' '')]"

lemma scan_roundtrip_witness:
  "\<exists>errors st'. lex_all lexer_init (write_text demo_tokens) =
      Inr (errors, [Value Tok_While, Value (Tok_Int 0), Const 266, Value (Tok_Ident ''whilex''), Const 261, Character newline,
        Const 262, Value Tok_End], st') \<and> is_inside_iteration_stat st' = 1"
proof -
  have "\<forall>(l, sep) \<in> set demo_tokens. proper l \<and> blanks sep"
    by (simp add: demo_tokens_def blanks_def keyword_table_def sign_table_def char_classes)
  from scan_roundtrip [OF this, of lexer_init] show ?thesis
    by (auto simp: demo_tokens_def lexer_init_def keyword_table_def sign_table_def)
qed

subsection \<open>Every text\<close>

lemma longest_in: "0 < fst (longest rs s) \<Longrightarrow> \<exists>p. (p, snd (longest rs s)) \<in> set rs \<and> match_len p s = fst (longest rs s)"
  by (induction rs) (auto simp: Let_def split: if_splits)

lemma match_len_le: "match_len p s \<le> length s"
proof (cases p)
  case (P_Lit k)
  have "take (length k) s = k \<Longrightarrow> length k \<le> length s" by (metis length_take min.cobounded1)
  then show ?thesis using P_Lit by simp
next
  case P_Decimal
  have "length s = length (takeWhile is_digit s) + length (dropWhile is_digit s)" by (metis length_append takeWhile_dropWhile_id)
  then show ?thesis
    using P_Decimal length_takeWhile_le by (fastforce split: list.split)
next
  case P_Quoted
  have "length (takeWhile (\<lambda>c. c \<noteq> dquote) r) < length r" if "dquote \<in> set r" for r
    using that by (induction r) auto
  then show ?thesis using P_Quoted by (force split: list.split)
next
  case P_Comment
  have "length (takeWhile (\<lambda>c. c \<noteq> newline) r) < length r" if "newline \<in> set r" for r
    using that by (induction r) auto
  from this [of "drop 2 s"] show ?thesis using P_Comment by auto
qed (auto simp: length_takeWhile_le Suc_le_eq le_imp_less_Suc split: list.split)

text \<open>No rule's action fails on the text its pattern matched, and none returns the end token.\<close>

definition returns_symbol :: "action \<Rightarrow> string \<Rightarrow> lexer_state \<Rightarrow> bool" where
  "returns_symbol act s st \<longleftrightarrow>
     (\<exists>errors ret st'. act s st = Inr (errors, ret, st') \<and> ret \<noteq> Some (Value Tok_End))"

lemma returns_symbol_simps [simp]:
  "returns_symbol (returns k) s st" "returns_symbol returns_char s st" "returns_symbol skips s st"
  "returns_symbol handles_func s st"
  "returns_symbol (handles h) s st \<longleftrightarrow> fst (h st) \<noteq> Tok_End"
  "returns_symbol (reads f) s st \<longleftrightarrow> f s \<noteq> Tok_End"
  by (auto simp: returns_symbol_def action_defs skips_def)

lemma action_returns:
  assumes "s \<noteq> []"
  shows "returns_symbol (snd (longest rules s)) (take (fst (longest rules s)) s) st"
proof -
  let ?n = "fst (longest rules s)" and ?act = "snd (longest rules s)"
  obtain p where p: "(p, ?act) \<in> set rules" "match_len p s = ?n" using longest_in longest_pos [OF assms] by metis
  have n: "length (take ?n s) = ?n" using match_len_le [of p s] p(2) by simp
  have two: "2 \<le> ?n" if "p = P_Quoted_Char \<or> p = P_Quoted"
    using that p(2) longest_pos [OF assms] by (auto split: list.splits if_splits)
  have "\<forall>(p, act) \<in> set rules. p \<noteq> P_Quoted_Char \<and> p \<noteq> P_Quoted \<longrightarrow> returns_symbol act t st" for t
    by (simp add: rules_def keyword_rules_def literal_rules_def sign_rules_def lexer_handle_keyword_if_def
        lexer_handle_keyword_switch_def lexer_handle_keyword_while_def lexer_handle_keyword_class_def lexer_handle_bool_def
        lexer_handle_int_def lexer_handle_float_def lexer_handle_identifier_def)
  then have plain: "p \<noteq> P_Quoted_Char \<and> p \<noteq> P_Quoted \<Longrightarrow> ?thesis" using p(1) by blast
  have "\<forall>(p, act) \<in> set rules. p = P_Quoted_Char \<or> p = P_Quoted \<longrightarrow>
      (\<forall>t. 2 \<le> length t \<longrightarrow> returns_symbol act t st)"
    by (simp add: rules_def keyword_rules_def literal_rules_def sign_rules_def returns_symbol_def reads_checked_def
        lexer_handle_char_def lexer_handle_string_def)
  then have quoted: "p = P_Quoted_Char \<or> p = P_Quoted \<Longrightarrow> 2 \<le> length (take ?n s) \<Longrightarrow> ?thesis" using p(1) by blast
  show ?thesis
  proof (cases "p = P_Quoted_Char \<or> p = P_Quoted")
    case True
    then show ?thesis using quoted two n by metis
  qed (use plain in blast)
qed

lemma yylex_total: "\<exists>errors tok st' rest. yylex st s = Inr (errors, tok, st', rest) \<and> (tok = Value Tok_End \<longrightarrow> rest = [])"
proof (induction st s rule: yylex.induct)
  case (1 st s)
  show ?case
  proof (cases "s = []")
    case False
    obtain errors ret st' where act: "snd (longest rules s) (take (fst (longest rules s)) s) st = Inr (errors, ret, st')"
        "ret \<noteq> Some (Value Tok_End)"
      using action_returns [OF False] unfolding returns_symbol_def by blast
    show ?thesis
    proof (cases ret)
      case None
      have "\<exists>errors tok st'' rest. yylex st' (drop (fst (longest rules s)) s) = Inr (errors, tok, st'', rest) \<and> (tok = Value Tok_End \<longrightarrow> rest = [])"
        by (rule "1.IH" [OF False refl act(1)]) (simp_all add: None)
      then show ?thesis using False act None by (subst yylex.simps) (auto simp: Let_def)
    qed (use False act in \<open>subst yylex.simps, auto simp: Let_def\<close>)
  qed (subst yylex.simps, simp)
qed


end
