(* ===== verification/Node_Free.thy ===== *)
theory Node_Free
  imports Node_String "HOL-Library.Multiset"
begin

text \<open>
  Freeing nodes (the \<open>ast_free_node_*\<close> functions of \<open>parser.c\<close>). The model returns the blocks
  handed to \<open>free\<close>, in order: the struct of a node or a string a node owns. \<open>ast_free_node\<close>
  dispatches on the type; the typed functions the code also calls directly
  (\<open>ast_free_node_scope\<close>, \<open>_stat_list\<close>, \<open>_stat_switch_choice\<close>) are its branches.
\<close>

datatype block = Struct node | Str string

definition ast_free_node_decl_var :: "node \<Rightarrow> block list result" where
  "ast_free_node_decl_var n =
     (case n of
        N_Decl_Var name type_name \<Rightarrow> Inr [Str name, Str type_name, Struct n]
      | _ \<Rightarrow> Inl Bad_Node)"

fun free_decl_vars :: "node list \<Rightarrow> block list result" where
  "free_decl_vars [] = Inr []"
| "free_decl_vars (v # vs) =
     sbind (ast_free_node_decl_var v) (\<lambda>b. sbind (free_decl_vars vs) (\<lambda>bs. Inr (b @ bs)))"

definition ast_free_node_func_arg_list :: "node option \<Rightarrow> block list result" where
  "ast_free_node_func_arg_list args =
     deref args (\<lambda>a. sbind (arg_list a) (\<lambda>vs. sbind (free_decl_vars vs) (\<lambda>bs. Inr (bs @ [Struct a]))))"

function (sequential) ast_free_node :: "node \<Rightarrow> block list result"
  and ast_free_nodes :: "node list \<Rightarrow> block list result" where
  "ast_free_node (N_Group e) = sbind (deref e ast_free_node) (\<lambda>b. Inr (b @ [Struct (N_Group e)]))"
| "ast_free_node (N_Scope stats) = sbind (deref stats ast_free_node) (\<lambda>b. Inr (b @ [Struct (N_Scope stats)]))"
| "ast_free_node (N_Ident v) = Inr [Str v, Struct (N_Ident v)]"
| "ast_free_node (N_Literal_Bool b) = Inr [Struct (N_Literal_Bool b)]"
| "ast_free_node (N_Literal_Int n) = Inr [Struct (N_Literal_Int n)]"
| "ast_free_node (N_Literal_Float x) = Inr [Struct (N_Literal_Float x)]"
| "ast_free_node (N_Literal_Char c) = Inr [Struct (N_Literal_Char c)]"
| "ast_free_node (N_Literal_String s) = Inr [Str s, Struct (N_Literal_String s)]"
| "ast_free_node (N_Unary_Op op e) = sbind (deref e ast_free_node) (\<lambda>b. Inr (b @ [Struct (N_Unary_Op op e)]))"
| "ast_free_node (N_Binary_Op op l r) =
     sbind (deref l ast_free_node) (\<lambda>b1. sbind (deref r ast_free_node) (\<lambda>b2.
       Inr (b1 @ b2 @ [Struct (N_Binary_Op op l r)])))"
| "ast_free_node (N_Ternary_Op op a b c) =
     sbind (deref a ast_free_node) (\<lambda>b1. sbind (deref b ast_free_node) (\<lambda>b2. sbind (deref c ast_free_node) (\<lambda>b3.
       Inr (b1 @ b2 @ b3 @ [Struct (N_Ternary_Op op a b c)]))))"
| "ast_free_node (N_Special_Cast t opcode e) =
     sbind (deref e ast_free_node) (\<lambda>b. Inr (b @ [Struct (N_Special_Cast t opcode e)]))"
| "ast_free_node (N_Stat_List ss) = sbind (ast_free_nodes ss) (\<lambda>b. Inr (b @ [Struct (N_Stat_List ss)]))"
| "ast_free_node (N_Stat_Expr e) = sbind (deref e ast_free_node) (\<lambda>b. Inr (b @ [Struct (N_Stat_Expr e)]))"
| "ast_free_node (N_Stat_Ret e) = sbind (deref e ast_free_node) (\<lambda>b. Inr (b @ [Struct (N_Stat_Ret e)]))"
| "ast_free_node (N_Stat_If e t f) =
     sbind (deref e ast_free_node) (\<lambda>b1. sbind (deref t ast_free_node) (\<lambda>b2.
       sbind (case f of None \<Rightarrow> Inr [] | Some f \<Rightarrow> ast_free_node f) (\<lambda>b3.
         Inr (b1 @ b2 @ b3 @ [Struct (N_Stat_If e t f)]))))"
| "ast_free_node (N_Stat_Switch e cs) =
     sbind (deref e ast_free_node) (\<lambda>b1. sbind (ast_free_nodes cs) (\<lambda>b2.
       Inr (b1 @ b2 @ [Struct (N_Stat_Switch e cs)])))"
| "ast_free_node (N_Stat_Switch_Choice e s) =
     sbind (case e of None \<Rightarrow> Inr [] | Some e \<Rightarrow> ast_free_node e) (\<lambda>b1. sbind (deref s ast_free_node) (\<lambda>b2.
       Inr (b1 @ b2 @ [Struct (N_Stat_Switch_Choice e s)])))"
| "ast_free_node (N_Stat_While e s) =
     sbind (case e of None \<Rightarrow> Inr [] | Some e \<Rightarrow> ast_free_node e) (\<lambda>b1. sbind (deref s ast_free_node) (\<lambda>b2.
       Inr (b1 @ b2 @ [Struct (N_Stat_While e s)])))"
| "ast_free_node (N_Decl_Func name args ret body) =
     sbind (deref body ast_free_node) (\<lambda>b1. sbind (ast_free_node_func_arg_list args) (\<lambda>b2.
       Inr (b1 @ [Str name] @ b2 @ (case ret of None \<Rightarrow> [] | Some t \<Rightarrow> [Str t]) @
            [Struct (N_Decl_Func name args ret body)])))"
| "ast_free_node N_Freed = Inl Use_After_Free"
| "ast_free_node _ = compiler_panic ''unexpected node type to free''"
| "ast_free_nodes [] = Inr []"
| "ast_free_nodes (n # ns) =
     sbind (ast_free_node n) (\<lambda>b. sbind (ast_free_nodes ns) (\<lambda>bs. Inr (b @ bs)))"
  by pat_completeness auto

termination
  by (relation "measure (\<lambda>x. case x of Inl n \<Rightarrow> size n | Inr ns \<Rightarrow> size_list size ns)") auto

subsection \<open>Ownership\<close>

text \<open>The blocks a tree is made of: the strings of its nodes and the structs of all its nodes.\<close>

fun node_strings :: "node \<Rightarrow> string list" where
  "node_strings (N_Ident v) = [v]"
| "node_strings (N_Literal_String s) = [s]"
| "node_strings (N_Decl_Var name type_name) = [name, type_name]"
| "node_strings (N_Decl_Func name args ret body) = name # (case ret of None \<Rightarrow> [] | Some t \<Rightarrow> [t])"
| "node_strings _ = []"

definition opt_list :: "'a option \<Rightarrow> 'a list" where
  "opt_list x = (case x of None \<Rightarrow> [] | Some a \<Rightarrow> [a])"

fun node_children :: "node \<Rightarrow> node list" where
  "node_children (N_Group e) = opt_list e"
| "node_children (N_Scope s) = opt_list s"
| "node_children (N_Unary_Op op e) = opt_list e"
| "node_children (N_Binary_Op op l r) = opt_list l @ opt_list r"
| "node_children (N_Ternary_Op op a b c) = opt_list a @ opt_list b @ opt_list c"
| "node_children (N_Special_Cast t opcode e) = opt_list e"
| "node_children (N_Stat_List ss) = ss"
| "node_children (N_Stat_Expr e) = opt_list e"
| "node_children (N_Stat_Ret e) = opt_list e"
| "node_children (N_Stat_If e t f) = opt_list e @ opt_list t @ opt_list f"
| "node_children (N_Stat_Switch e cs) = opt_list e @ cs"
| "node_children (N_Stat_Switch_Choice e s) = opt_list e @ opt_list s"
| "node_children (N_Stat_While e s) = opt_list e @ opt_list s"
| "node_children (N_Decl_Func name args ret body) = opt_list args @ opt_list body"
| "node_children (N_Func_Arg_List vs) = vs"
| "node_children _ = []"

lemma opt_list_size: "x \<in> set (opt_list p) \<Longrightarrow> size x < size_option size p"
  by (cases p) (auto simp: opt_list_def)

lemma set_size: "x \<in> set xs \<Longrightarrow> size x \<le> size_list size xs"
  by (induction xs) auto

lemma node_children_size: "c \<in> set (node_children n) \<Longrightarrow> size c < size n"
  by (cases n) (auto dest: opt_list_size set_size)

function node_blocks :: "node \<Rightarrow> block list" where
  "node_blocks n = Struct n # map Str (node_strings n) @ concat (map node_blocks (node_children n))"
  by pat_completeness auto

termination
  by (relation "measure size") (auto dest: node_children_size)

declare node_blocks.simps [simp del]

lemma opt_list_simps [simp]: "opt_list None = []" "opt_list (Some a) = [a]"
  by (simp_all add: opt_list_def)

lemma free_decl_vars_blocks:
  "free_decl_vars vs = Inr bs \<Longrightarrow> mset bs = mset (concat (map node_blocks vs))"
proof (induction vs arbitrary: bs)
  case (Cons v vs)
  then obtain b bs' where b: "ast_free_node_decl_var v = Inr b" "free_decl_vars vs = Inr bs'" "bs = b @ bs'" by auto
  then have "mset b = mset (node_blocks v)"
    by (auto simp: ast_free_node_decl_var_def node_blocks.simps split: node.splits)
  then show ?case using Cons.IH [OF b(2)] b(3) by simp
qed simp

lemma free_arg_list_blocks:
  assumes "ast_free_node_func_arg_list args = Inr bs"
  shows "mset bs = mset (concat (map node_blocks (opt_list args)))"
proof -
  obtain a vs b where a: "args = Some a" "arg_list a = Inr vs" "free_decl_vars vs = Inr b" "bs = b @ [Struct a]"
    using assms by (auto simp: ast_free_node_func_arg_list_def)
  then have "a = N_Func_Arg_List vs" by (cases a) simp_all
  then show ?thesis using free_decl_vars_blocks [OF a(3)] a by (simp add: node_blocks.simps [of "N_Func_Arg_List vs"])
qed

lemma free_blocks:
  "ast_free_node n = Inr bs \<Longrightarrow> mset bs = mset (node_blocks n)"
  "ast_free_nodes ns = Inr bs \<Longrightarrow> mset bs = mset (concat (map node_blocks ns))"
proof (induction n and ns arbitrary: bs and bs rule: ast_free_node_ast_free_nodes.induct)
  case (20 name args ret body)
  then show ?case
    using free_arg_list_blocks [of args]
    by (auto simp: node_blocks.simps [of "N_Decl_Func name args ret body"] split: option.splits)
qed (auto simp: node_blocks.simps [of "N_Group _"] node_blocks.simps [of "N_Scope _"] node_blocks.simps [of "N_Ident _"]
      node_blocks.simps [of "N_Literal_Bool _"] node_blocks.simps [of "N_Literal_Int _"]
      node_blocks.simps [of "N_Literal_Float _"] node_blocks.simps [of "N_Literal_Char _"]
      node_blocks.simps [of "N_Literal_String _"] node_blocks.simps [of "N_Unary_Op _ _"]
      node_blocks.simps [of "N_Binary_Op _ _ _"] node_blocks.simps [of "N_Ternary_Op _ _ _ _"]
      node_blocks.simps [of "N_Special_Cast _ _ _"] node_blocks.simps [of "N_Stat_List _"]
      node_blocks.simps [of "N_Stat_Expr _"] node_blocks.simps [of "N_Stat_Ret _"]
      node_blocks.simps [of "N_Stat_If _ _ _"] node_blocks.simps [of "N_Stat_Switch _ _"]
      node_blocks.simps [of "N_Stat_Switch_Choice _ _"] node_blocks.simps [of "N_Stat_While _ _"]
      split: option.splits)

end
