(* ===== verification/Frontend.thy ===== *)
theory Frontend
  imports Node_Free Lexer Compiler
begin

text \<open>
  The parser actions of \<open>parser.c\<close> in the debug build (the default of \<open>build.sh\<close>: type checks
  and printing are compiled in) over the state of the whole front end: the lexer state, the
  compiler, the messages of \<open>yyerror\<close> and the number of bytes the printing of nodes has written
  behind its blocks. A statement that ends at the top level of the program is compiled and freed
  on the spot, and its action returns NULL.
\<close>

record front =
  f_lexer :: lexer_state
  f_compiler :: compiler
  f_errors :: "string list"
  f_overrun :: nat

definition front_init :: "lexer_state \<Rightarrow> front" where
  "front_init lexer =
     \<lparr>f_lexer = lexer, f_compiler = compiler_init (is_interactive lexer), f_errors = [], f_overrun = 0\<rparr>"

definition yyerror :: "string \<Rightarrow> front \<Rightarrow> front" where
  "yyerror text s = s\<lparr>f_errors := f_errors s @ [text]\<rparr>"

text \<open>The check only reports; the action goes on with the NULL pointer.\<close>

definition ASSERT_NON_NULL :: "'a option \<Rightarrow> string \<Rightarrow> front \<Rightarrow> front" where
  "ASSERT_NON_NULL ptr text s = (if ptr = None then yyerror text s else s)"

text \<open>
  \<open>TRACE_AND_FREE(ast_node_to_string(node))\<close>, the last step before an action returns its node:
  printing can free parts of the node.
\<close>

definition trace_node :: "node \<Rightarrow> front \<Rightarrow> (node \<times> front) result" where
  "trace_node n s =
     sbind (ast_node_to_string n) (\<lambda>(text, k). Inr (after_print n, s\<lparr>f_overrun := f_overrun s + k\<rparr>))"

definition return_node :: "node \<Rightarrow> front \<Rightarrow> (node option \<times> front) result" where
  "return_node n s = sbind (trace_node n s) (\<lambda>(n, s). Inr (Some n, s))"

subsection \<open>Expressions\<close>

definition ast_new_node_group :: "node option \<Rightarrow> front \<Rightarrow> (node option \<times> front) result" where
  "ast_new_node_group expr s =
     sbind (NODE_UPCAST_EXPR expr) (\<lambda>expr_node.
       return_node (N_Group expr_node) (ASSERT_NON_NULL expr_node ''group expr cast failed'' s))"

definition ast_new_node_scope :: "node option \<Rightarrow> front \<Rightarrow> (node option \<times> front) result" where
  "ast_new_node_scope statements s =
     sbind (NODE_UPCAST statements AST_NODE_TYPE_STAT_LIST) (\<lambda>statements_node.
       return_node (N_Scope statements_node) (ASSERT_NON_NULL statements_node ''stat list cast failed'' s))"

definition ast_new_node_ident :: "string \<Rightarrow> front \<Rightarrow> (node option \<times> front) result" where
  "ast_new_node_ident value s = return_node (N_Ident value) s"

definition ast_new_node_literal_bool :: "bool \<Rightarrow> front \<Rightarrow> (node option \<times> front) result" where
  "ast_new_node_literal_bool value s = return_node (N_Literal_Bool value) s"

definition ast_new_node_literal_int :: "i32 \<Rightarrow> front \<Rightarrow> (node option \<times> front) result" where
  "ast_new_node_literal_int value s = return_node (N_Literal_Int value) s"

definition ast_new_node_literal_float :: "i32 \<Rightarrow> front \<Rightarrow> (node option \<times> front) result" where
  "ast_new_node_literal_float value s = return_node (N_Literal_Float value) s"

definition ast_new_node_literal_char :: "char \<Rightarrow> front \<Rightarrow> (node option \<times> front) result" where
  "ast_new_node_literal_char value s = return_node (N_Literal_Char value) s"

definition ast_new_node_literal_string :: "string \<Rightarrow> front \<Rightarrow> (node option \<times> front) result" where
  "ast_new_node_literal_string value s = return_node (N_Literal_String value) s"

definition ast_new_node_unary_op :: "operator \<Rightarrow> node option \<Rightarrow> front \<Rightarrow> (node option \<times> front) result" where
  "ast_new_node_unary_op oper operand s =
     sbind (NODE_UPCAST_EXPR operand) (\<lambda>e_operand.
       return_node (N_Unary_Op oper e_operand) (ASSERT_NON_NULL e_operand ''unary op operand cast fail'' s))"

definition ast_new_node_binary_op ::
  "operator \<Rightarrow> node option \<Rightarrow> node option \<Rightarrow> front \<Rightarrow> (node option \<times> front) result" where
  "ast_new_node_binary_op oper left right s =
     sbind (NODE_UPCAST_EXPR left) (\<lambda>e_left. sbind (NODE_UPCAST_EXPR right) (\<lambda>e_right.
       return_node (N_Binary_Op oper e_left e_right)
         (ASSERT_NON_NULL e_right ''binary op right cast fail''
           (ASSERT_NON_NULL e_left ''binary op left cast fail'' s))))"

definition ast_new_node_ternary_op ::
  "operator \<Rightarrow> node option \<Rightarrow> node option \<Rightarrow> node option \<Rightarrow> front \<Rightarrow> (node option \<times> front) result" where
  "ast_new_node_ternary_op oper op1 op2 op3 s =
     sbind (NODE_UPCAST_EXPR op1) (\<lambda>e_op1. sbind (NODE_UPCAST_EXPR op2) (\<lambda>e_op2. sbind (NODE_UPCAST_EXPR op3) (\<lambda>e_op3.
       return_node (N_Ternary_Op oper e_op1 e_op2 e_op3)
         (ASSERT_NON_NULL e_op3 ''ternary op operand 3 cast fail''
           (ASSERT_NON_NULL e_op2 ''ternary op operand 2 cast fail''
             (ASSERT_NON_NULL e_op1 ''ternary op operand 1 cast fail'' s))))))"

text \<open>Casts are built by the compiler and never printed when they are built.\<close>

definition ast_new_node_cast :: "node option \<Rightarrow> static_type \<Rightarrow> byte \<Rightarrow> node" where
  "ast_new_node_cast expr type_id opcode = N_Special_Cast type_id opcode expr"

subsection \<open>Statement lists\<close>

text \<open>
  Linking writes the \<open>next\<close> pointers of a list through \<open>ast_node_stat_t\<close>. The struct of a nested
  scope has its statement list at the place of \<open>next\<close>: linking a scope clears its list, linking
  another statement behind it makes that statement the scope's list. For a node whose struct has
  something else there the write is \<open>Bad_Node\<close>.
\<close>

fun clear_next :: "node \<Rightarrow> node result" where
  "clear_next (N_Stat_List ss) = Inr (N_Stat_List ss)"
| "clear_next (N_Stat_Expr e) = Inr (N_Stat_Expr e)"
| "clear_next (N_Stat_Ret e) = Inr (N_Stat_Ret e)"
| "clear_next (N_Stat_If e t f) = Inr (N_Stat_If e t f)"
| "clear_next (N_Stat_Switch e cs) = Inr (N_Stat_Switch e cs)"
| "clear_next (N_Stat_While e s) = Inr (N_Stat_While e s)"
| "clear_next (N_Scope stats) = Inr (N_Scope None)"
| "clear_next _ = Inl Bad_Node"

definition set_next :: "node \<Rightarrow> node \<Rightarrow> node" where
  "set_next prev n = (case prev of N_Scope stats \<Rightarrow> N_Scope (Some n) | _ \<Rightarrow> prev)"

fun link_last :: "node list \<Rightarrow> node \<Rightarrow> node list" where
  "link_last [] n = [n]"
| "link_last [prev] n = [set_next prev n, n]"
| "link_last (m # ms) n = m # link_last ms n"

definition ast_new_node_stat_list :: "node option \<Rightarrow> front \<Rightarrow> (node option \<times> front) result" where
  "ast_new_node_stat_list stat s =
     (case stat of
        None \<Rightarrow> Inr (Some (N_Stat_List []), s)
      | Some n \<Rightarrow> sbind (read_node stat) (\<lambda>n. sbind (clear_next n) (\<lambda>n. Inr (Some (N_Stat_List [n]), s))))"

definition ast_link_node_stat_list :: "node option \<Rightarrow> node option \<Rightarrow> front \<Rightarrow> (node option \<times> front) result" where
  "ast_link_node_stat_list node1 node2 s =
     sbind (read_node node1) (\<lambda>stats.
       case list_nodes stats of
         None \<Rightarrow> Inl Bad_Node
       | Some ss \<Rightarrow>
           sbind (read_node node2) (\<lambda>n. sbind (clear_next n) (\<lambda>n.
             Inr (Some (N_Stat_List (link_last ss n)), s))))"

subsection \<open>Compiling a statement\<close>

text \<open>
  The node as the compiler reads it. The statement types have the bit \<open>AST_NODE_STAT_MASK\<close>; of
  the others only a function is compiled.
\<close>

fun arg_pairs :: "node list \<Rightarrow> (string \<times> string) list option" where
  "arg_pairs [] = Some []"
| "arg_pairs (N_Decl_Var name type_name # vs) = map_option ((#) (name, type_name)) (arg_pairs vs)"
| "arg_pairs (v # vs) = None"

definition node_args :: "node option \<Rightarrow> (string \<times> string) list option option" where
  "node_args args =
     (case args of
        None \<Rightarrow> Some None
      | Some a \<Rightarrow> (case arg_list a of Inl err \<Rightarrow> None | Inr vs \<Rightarrow> map_option Some (arg_pairs vs)))"

definition node_global :: "node \<Rightarrow> global_node option" where
  "node_global n =
     (if drop_bit 6 (node_type n AND AST_NODE_STAT_MASK) = 2 then map_option Global_Stat (node_stat n)
      else case n of
        N_Decl_Func name args ret_type body \<Rightarrow>
          Option.bind (node_args args) (\<lambda>args.
            map_option (\<lambda>ss. Global_Func \<lparr>df_name = name, df_ret_type = ret_type, df_args = args, df_body = ss\<rparr>)
              (Option.bind (Option.bind body scope_nodes) node_stats))
      | _ \<Rightarrow> Some Global_Other)"

text \<open>
  \<open>compiler_compile(node)\<close>, its result ignored, then the free of the node. A NULL or freed node
  the compiler would follow stops the process. The casts the compiler inserts hang in the tree
  and are freed with it; they are not shown.
\<close>

definition compile_and_free :: "nat \<Rightarrow> node \<Rightarrow> front \<Rightarrow> (node option \<times> front) result" where
  "compile_and_free fuel n s =
     (case node_global n of
        None \<Rightarrow> Inl Null_Deref
      | Some g \<Rightarrow>
          sbind (compiler_compile fuel g (f_compiler s)) (\<lambda>(res, c).
            sbind (ast_free_node n) (\<lambda>blocks. Inr (None, s\<lparr>f_compiler := c\<rparr>))))"

definition not_inside_func :: "front \<Rightarrow> bool" where
  "not_inside_func s \<longleftrightarrow> \<not> is_inside_func (f_lexer s) \<and> \<not> is_inside_member_func (f_lexer s)"

definition set_selection :: "int \<Rightarrow> front \<Rightarrow> front" where
  "set_selection i s = s\<lparr>f_lexer := (f_lexer s)\<lparr>is_inside_selection_stat := i\<rparr>\<rparr>"

definition set_iteration :: "int \<Rightarrow> front \<Rightarrow> front" where
  "set_iteration i s = s\<lparr>f_lexer := (f_lexer s)\<lparr>is_inside_iteration_stat := i\<rparr>\<rparr>"

definition selection :: "front \<Rightarrow> int" where
  "selection s = is_inside_selection_stat (f_lexer s)"

definition iteration :: "front \<Rightarrow> int" where
  "iteration s = is_inside_iteration_stat (f_lexer s)"

subsection \<open>Statements\<close>

definition ast_new_node_stat_expr :: "nat \<Rightarrow> node option \<Rightarrow> front \<Rightarrow> (node option \<times> front) result" where
  "ast_new_node_stat_expr fuel expr s =
     sbind (NODE_UPCAST_EXPR expr) (\<lambda>expr_node.
       sbind (trace_node (N_Stat_Expr expr_node)
                (ASSERT_NON_NULL expr_node ''stat expr expression cast fail'' s)) (\<lambda>(n, s).
         if not_inside_func s \<and> selection s = 0 \<and> iteration s = 0
         then compile_and_free fuel n s else Inr (Some n, s)))"

definition ast_new_node_stat_ret :: "node option \<Rightarrow> front \<Rightarrow> (node option \<times> front) result" where
  "ast_new_node_stat_ret expr s =
     sbind (NODE_UPCAST_EXPR expr) (\<lambda>expr_node.
       return_node (N_Stat_Ret expr_node) (ASSERT_NON_NULL expr_node ''stat ret expression cast fail'' s))"

definition ast_new_node_stat_if ::
  "nat \<Rightarrow> node option \<Rightarrow> node option \<Rightarrow> node option \<Rightarrow> front \<Rightarrow> (node option \<times> front) result" where
  "ast_new_node_stat_if fuel expr true_scope false_scope s =
     sbind (NODE_UPCAST_EXPR expr) (\<lambda>expr_node.
     sbind (NODE_UPCAST true_scope AST_NODE_TYPE_SCOPE) (\<lambda>n_true_scope.
     sbind (case false_scope of
              None \<Rightarrow> Inr (None, [])
            | Some f \<Rightarrow> sbind (NODE_UPCAST false_scope AST_NODE_TYPE_SCOPE) (\<lambda>n_false_scope.
                Inr (n_false_scope, if n_false_scope = None then [''stat if false_scope cast fail''] else [])))
       (\<lambda>(n_false_scope, errors).
     sbind (trace_node (N_Stat_If expr_node n_true_scope n_false_scope)
              (foldl (\<lambda>s text. yyerror text s)
                (ASSERT_NON_NULL n_true_scope ''stat if true_scope cast fail''
                  (ASSERT_NON_NULL expr_node ''stat if expression cast fail'' s)) errors)) (\<lambda>(n, s).
       sbind (if not_inside_func s \<and> selection s - 1 = 0 \<and> iteration s = 0
              then compile_and_free fuel n s else Inr (Some n, s)) (\<lambda>(ptr, s).
         Inr (ptr, set_selection (selection s - 1) s))))))"

definition ast_new_node_stat_switch :: "node option \<Rightarrow> node list \<Rightarrow> front \<Rightarrow> (node option \<times> front) result" where
  "ast_new_node_stat_switch expr choices s = return_node (N_Stat_Switch expr choices) s"

text \<open>
  The choices of a switch hang behind the first one. The grammar passes the first choice every
  time, so a third choice replaces the second as its successor. The action returns the new
  choice, the model also the chain that starts at \<open>prev_choice\<close>.
\<close>

definition ast_new_node_stat_switch_choice ::
  "node option \<Rightarrow> node option \<Rightarrow> node list \<Rightarrow> front \<Rightarrow> (node option \<times> node list \<times> front) result" where
  "ast_new_node_stat_switch_choice expr scope prev_choice s =
     sbind (trace_node (N_Stat_Switch_Choice expr scope) s) (\<lambda>(n, s).
       Inr (Some n, (case prev_choice of [] \<Rightarrow> [] | prev # rest \<Rightarrow> [prev, n]), s))"

definition ast_new_node_stat_while ::
  "nat \<Rightarrow> node option \<Rightarrow> node option \<Rightarrow> front \<Rightarrow> (node option \<times> front) result" where
  "ast_new_node_stat_while fuel expr scope s =
     sbind (NODE_UPCAST_EXPR expr) (\<lambda>expr_node.
     sbind (trace_node (N_Stat_While expr_node scope)
              (ASSERT_NON_NULL expr_node ''expr node upcast failed'' s)) (\<lambda>(n, s).
       sbind (if not_inside_func s \<and> selection s = 0 \<and> iteration s - 1 = 0
              then compile_and_free fuel n s else Inr (Some n, s)) (\<lambda>(ptr, s).
         Inr (ptr, set_iteration (iteration s - 1) s))))"

subsection \<open>Declarations\<close>

definition ast_new_node_decl_var :: "string \<Rightarrow> string \<Rightarrow> front \<Rightarrow> (node option \<times> front) result" where
  "ast_new_node_decl_var name type_name s = Inr (Some (N_Decl_Var name type_name), s)"

definition ast_new_node_decl_func ::
  "nat \<Rightarrow> string \<Rightarrow> node option \<Rightarrow> string option \<Rightarrow> node option \<Rightarrow> front \<Rightarrow> (node option \<times> front) result" where
  "ast_new_node_decl_func fuel name args ret_type body s =
     sbind (NODE_UPCAST body AST_NODE_TYPE_SCOPE) (\<lambda>body_node.
     sbind (case args of
              None \<Rightarrow> Inr (None, s)
            | Some a \<Rightarrow> sbind (NODE_UPCAST args AST_NODE_TYPE_FUNC_ARG_LIST) (\<lambda>args_node.
                Inr (args_node, ASSERT_NON_NULL args_node ''cast failed'' s))) (\<lambda>(args_node, s).
     sbind (trace_node (N_Decl_Func name args_node ret_type body_node) s) (\<lambda>(n, s).
       if is_inside_class (f_lexer s)
       then Inr (Some n, s\<lparr>f_lexer := (f_lexer s)\<lparr>is_inside_member_func := False\<rparr>\<rparr>)
       else compile_and_free fuel n (s\<lparr>f_lexer := (f_lexer s)\<lparr>is_inside_func := False\<rparr>\<rparr>))))"

definition ast_new_node_func_arg_list :: "node option \<Rightarrow> front \<Rightarrow> (node option \<times> front) result" where
  "ast_new_node_func_arg_list decl_var s =
     sbind (NODE_UPCAST decl_var AST_NODE_TYPE_DECL_VAR) (\<lambda>decl_var_node.
       Inr (Some (N_Func_Arg_List (opt_list decl_var_node)), ASSERT_NON_NULL decl_var_node ''decl var cast failed'' s))"

end
