(* ===== verification/Parser_Calls.thy ===== *)
theory Parser_Calls
  imports Frontend Node_Print
begin

text \<open>
  The calls the parser makes for a program, in the order the rules of \<open>parser.y\<close> reduce: the
  actions of the parts before the action of the whole, the lexer's handler of a keyword before
  anything inside the statement. Every statement ends in a line break or a semicolon, so that no
  keyword of the next statement is read ahead. \<open>Stat_Other\<close> and \<open>Special_Cast\<close> are not written
  by the parser.
\<close>

fun parse_expr :: "expr \<Rightarrow> front \<Rightarrow> (node option \<times> front) result" where
  "parse_expr (Ident t name) s = ast_new_node_ident name s"
| "parse_expr (Literal_Bool b) s = ast_new_node_literal_bool b s"
| "parse_expr (Literal_Int n) s = ast_new_node_literal_int n s"
| "parse_expr (Literal_Float x) s = ast_new_node_literal_float x s"
| "parse_expr (Literal_Char c) s = ast_new_node_literal_char c s"
| "parse_expr (Literal_String str) s = ast_new_node_literal_string str s"
| "parse_expr (Group t e) s = sbind (parse_expr e s) (\<lambda>(p, s). ast_new_node_group p s)"
| "parse_expr (Unary_Op t op e) s = sbind (parse_expr e s) (\<lambda>(p, s). ast_new_node_unary_op op p s)"
| "parse_expr (Binary_Op t op l r) s =
     sbind (parse_expr l s) (\<lambda>(p, s). sbind (parse_expr r s) (\<lambda>(q, s). ast_new_node_binary_op op p q s))"
| "parse_expr (Ternary_Op t op a b c) s =
     sbind (parse_expr a s) (\<lambda>(p, s). sbind (parse_expr b s) (\<lambda>(q, s). sbind (parse_expr c s) (\<lambda>(r, s).
       ast_new_node_ternary_op op p q r s)))"
| "parse_expr (Special_Cast t opcode e) s = Inl Bad_Node"

definition keyword :: "(lexer_state \<Rightarrow> token \<times> lexer_state) \<Rightarrow> front \<Rightarrow> front" where
  "keyword handler s = s\<lparr>f_lexer := snd (handler (f_lexer s))\<rparr>"

definition parse_func_keyword :: "front \<Rightarrow> front" where
  "parse_func_keyword s =
     (case lexer_handle_keyword_func (f_lexer s) of
        (errors, token, lexer) \<Rightarrow> s\<lparr>f_lexer := lexer, f_errors := f_errors s @ errors\<rparr>)"

fun parse_stat :: "nat \<Rightarrow> stat \<Rightarrow> front \<Rightarrow> (node option \<times> front) result"
  and parse_stats :: "nat \<Rightarrow> stat list \<Rightarrow> node option \<Rightarrow> front \<Rightarrow> (node option \<times> front) result" where
  "parse_stat fuel (Stat_Expr e) s = sbind (parse_expr e s) (\<lambda>(p, s). ast_new_node_stat_expr fuel p s)"
| "parse_stat fuel (Stat_Ret e) s = sbind (parse_expr e s) (\<lambda>(p, s). ast_new_node_stat_ret p s)"
| "parse_stat fuel (Stat_If e ts fs) s =
     sbind (parse_expr e (keyword lexer_handle_keyword_if s)) (\<lambda>(p, s).
     sbind (ast_new_node_stat_list None s) (\<lambda>(l, s).
     sbind (parse_stats fuel ts l s) (\<lambda>(l, s).
     sbind (ast_new_node_scope l s) (\<lambda>(t, s).
       case fs of
         None \<Rightarrow> ast_new_node_stat_if fuel p t None s
       | Some fs \<Rightarrow>
           sbind (ast_new_node_stat_list None s) (\<lambda>(l, s).
           sbind (parse_stats fuel fs l s) (\<lambda>(l, s).
           sbind (ast_new_node_scope l s) (\<lambda>(f, s).
             ast_new_node_stat_if fuel p t f s)))))))"
| "parse_stat fuel (Stat_While e body) s =
     sbind (parse_expr e (keyword lexer_handle_keyword_while s)) (\<lambda>(p, s).
     sbind (ast_new_node_stat_list None s) (\<lambda>(l, s).
     sbind (parse_stats fuel body l s) (\<lambda>(l, s).
     sbind (ast_new_node_scope l s) (\<lambda>(b, s).
       ast_new_node_stat_while fuel p b s))))"
| "parse_stat fuel Stat_Other s = Inl Bad_Node"
| "parse_stats fuel [] l s = Inr (l, s)"
| "parse_stats fuel (stat # stats) l s =
     sbind (parse_stat fuel stat s) (\<lambda>(p, s).
     sbind (ast_link_node_stat_list l p s) (\<lambda>(l, s). parse_stats fuel stats l s))"

text \<open>
  A selection with one \<open>elif\<close>: no handler is called for that keyword, and the action of the inner
  selection runs before the outer one.
\<close>

definition parse_elif ::
  "nat \<Rightarrow> expr \<Rightarrow> stat list \<Rightarrow> expr \<Rightarrow> stat list \<Rightarrow> front \<Rightarrow> (node option \<times> front) result" where
  "parse_elif fuel e1 ss1 e2 ss2 s =
     sbind (parse_expr e1 (keyword lexer_handle_keyword_if s)) (\<lambda>(p1, s).
     sbind (ast_new_node_stat_list None s) (\<lambda>(l, s).
     sbind (parse_stats fuel ss1 l s) (\<lambda>(l, s).
     sbind (ast_new_node_scope l s) (\<lambda>(t1, s).
     sbind (parse_expr e2 s) (\<lambda>(p2, s).
     sbind (ast_new_node_stat_list None s) (\<lambda>(l, s).
     sbind (parse_stats fuel ss2 l s) (\<lambda>(l, s).
     sbind (ast_new_node_scope l s) (\<lambda>(t2, s).
     sbind (ast_new_node_stat_if fuel p2 t2 None s) (\<lambda>(elif, s).
       ast_new_node_stat_if fuel p1 t1 elif s)))))))))"

text \<open>A switch; every choice is a literal with a block, the last one may be \<open>other\<close>.\<close>

fun parse_choices ::
  "nat \<Rightarrow> (expr option \<times> stat list) list \<Rightarrow> node list \<Rightarrow> front \<Rightarrow> (node list \<times> front) result" where
  "parse_choices fuel [] chain s = Inr (chain, s)"
| "parse_choices fuel ((e, ss) # choices) chain s =
     sbind (case e of None \<Rightarrow> Inr (None, s) | Some e \<Rightarrow> parse_expr e s) (\<lambda>(p, s).
     sbind (ast_new_node_stat_list None s) (\<lambda>(l, s).
     sbind (parse_stats fuel ss l s) (\<lambda>(l, s).
     sbind (ast_new_node_scope l s) (\<lambda>(b, s).
     sbind (ast_new_node_stat_switch_choice p b chain s) (\<lambda>(n, chain', s).
       parse_choices fuel choices (if chain = [] then opt_list n else chain') s)))))"

definition parse_switch ::
  "nat \<Rightarrow> expr \<Rightarrow> (expr option \<times> stat list) list \<Rightarrow> front \<Rightarrow> (node option \<times> front) result" where
  "parse_switch fuel e choices s =
     sbind (parse_expr e (keyword lexer_handle_keyword_switch s)) (\<lambda>(p, s).
     sbind (parse_choices fuel choices [] s) (\<lambda>(chain, s). ast_new_node_stat_switch p chain s))"

text \<open>
  The definition of a function. The rule of the argument list links further arguments itself;
  an empty list passes NULL to \<open>ast_new_node_func_arg_list\<close>.
\<close>

fun link_args :: "(string \<times> string) list \<Rightarrow> node option \<Rightarrow> node option" where
  "link_args [] l = l"
| "link_args ((name, type_name) # args) l =
     (case l of
        Some (N_Func_Arg_List vs) \<Rightarrow> link_args args (Some (N_Func_Arg_List (vs @ [N_Decl_Var name type_name])))
      | _ \<Rightarrow> l)"

definition parse_args :: "(string \<times> string) list \<Rightarrow> front \<Rightarrow> (node option \<times> front) result" where
  "parse_args args s =
     (case args of
        [] \<Rightarrow> ast_new_node_func_arg_list None s
      | (name, type_name) # rest \<Rightarrow>
          sbind (ast_new_node_decl_var name type_name s) (\<lambda>(v, s).
          sbind (ast_new_node_func_arg_list v s) (\<lambda>(l, s). Inr (link_args rest l, s))))"

definition parse_func ::
  "nat \<Rightarrow> string \<Rightarrow> (string \<times> string) list \<Rightarrow> string option \<Rightarrow> stat list \<Rightarrow> front \<Rightarrow> (node option \<times> front) result" where
  "parse_func fuel name args ret_type body s =
     sbind (parse_args args (parse_func_keyword s)) (\<lambda>(a, s).
     sbind (ast_new_node_stat_list None s) (\<lambda>(l, s).
     sbind (parse_stats fuel body l s) (\<lambda>(l, s).
     sbind (ast_new_node_scope l s) (\<lambda>(b, s).
       ast_new_node_decl_func fuel name a ret_type b s))))"

text \<open>The start rule: one statement after the other; the values of the statements are dropped.\<close>

fun parse_program :: "nat \<Rightarrow> stat list \<Rightarrow> front \<Rightarrow> front result" where
  "parse_program fuel [] s = Inr s"
| "parse_program fuel (stat # stats) s =
     sbind (parse_stat fuel stat s) (\<lambda>(p, s). parse_program fuel stats s)"

subsection \<open>Nodes of source text\<close>

text \<open>The nodes of an expression and of a statement without ternary operators.\<close>

fun plain_expr :: "expr \<Rightarrow> bool" where
  "plain_expr (Ident t name) = (t = TYPE_UNKNWN)"
| "plain_expr (Group t e) = (t = TYPE_UNKNWN \<and> plain_expr e)"
| "plain_expr (Unary_Op t op e) = (t = TYPE_UNKNWN \<and> plain_expr e)"
| "plain_expr (Binary_Op t op l r) = (t = TYPE_UNKNWN \<and> plain_expr l \<and> plain_expr r)"
| "plain_expr (Ternary_Op t op a b c) = False"
| "plain_expr (Special_Cast t opcode e) = False"
| "plain_expr e = True"

fun plain_stat :: "stat \<Rightarrow> bool" where
  "plain_stat (Stat_Expr e) = plain_expr e"
| "plain_stat (Stat_Ret e) = plain_expr e"
| "plain_stat (Stat_If e ts fs) =
     (plain_expr e \<and> (\<forall>s \<in> set ts. plain_stat s) \<and> (\<forall>ss \<in> set_option fs. \<forall>s \<in> set ss. plain_stat s))"
| "plain_stat (Stat_While e body) = (plain_expr e \<and> (\<forall>s \<in> set body. plain_stat s))"
| "plain_stat Stat_Other = False"

fun expr_node :: "expr \<Rightarrow> node" where
  "expr_node (Ident t name) = N_Ident name"
| "expr_node (Literal_Bool b) = N_Literal_Bool b"
| "expr_node (Literal_Int n) = N_Literal_Int n"
| "expr_node (Literal_Float x) = N_Literal_Float x"
| "expr_node (Literal_Char c) = N_Literal_Char c"
| "expr_node (Literal_String str) = N_Literal_String str"
| "expr_node (Group t e) = N_Group (Some (expr_node e))"
| "expr_node (Unary_Op t op e) = N_Unary_Op op (Some (expr_node e))"
| "expr_node (Binary_Op t op l r) = N_Binary_Op op (Some (expr_node l)) (Some (expr_node r))"
| "expr_node (Ternary_Op t op a b c) =
     N_Ternary_Op op (Some (expr_node a)) (Some (expr_node b)) (Some (expr_node c))"
| "expr_node (Special_Cast t opcode e) = N_Special_Cast t opcode (Some (expr_node e))"

fun stat_node :: "stat \<Rightarrow> node" where
  "stat_node (Stat_Expr e) = N_Stat_Expr (Some (expr_node e))"
| "stat_node (Stat_Ret e) = N_Stat_Ret (Some (expr_node e))"
| "stat_node (Stat_If e ts fs) =
     N_Stat_If (Some (expr_node e)) (Some (N_Scope (Some (N_Stat_List (map stat_node ts)))))
       (map_option (\<lambda>ss. N_Scope (Some (N_Stat_List (map stat_node ss)))) fs)"
| "stat_node (Stat_While e body) =
     N_Stat_While (Some (expr_node e)) (Some (N_Scope (Some (N_Stat_List (map stat_node body)))))"
| "stat_node Stat_Other = N_Scope None"

definition scope_node :: "stat list \<Rightarrow> node" where
  "scope_node ss = N_Scope (Some (N_Stat_List (map stat_node ss)))"

text \<open>A node that prints without a fault and is not changed by it, and that can be freed.\<close>

definition printable :: "node \<Rightarrow> bool" where
  "printable n \<longleftrightarrow> (\<exists>str k. ast_node_to_string n = Inr (str, k)) \<and> after_print n = n"

definition freeable :: "node \<Rightarrow> bool" where
  "freeable n \<longleftrightarrow> (\<exists>blocks. ast_free_node n = Inr blocks)"

lemma printable_to_string: "printable n \<Longrightarrow> \<exists>str. ast_node_to_string n = Inr (str, node_overrun n)"
  using print_overrun(1) by (fastforce simp: printable_def)

lemma plain_expr_node:
  "plain_expr e \<Longrightarrow> node_expr (expr_node e) = Some e"
  "plain_expr e \<Longrightarrow> printable (expr_node e)"
  "plain_expr e \<Longrightarrow> freeable (expr_node e)"
  by (induction e) (auto simp: printable_def freeable_def to_string_defs sprintf_def)

lemma plain_expr_upcast:
  "plain_expr e \<Longrightarrow> NODE_UPCAST_EXPR (Some (expr_node e)) = Inr (Some (expr_node e))"
  using node_expr_upcast [OF plain_expr_node(1)] .

lemma freeable_list: "(\<And>n. n \<in> set ns \<Longrightarrow> freeable n) \<Longrightarrow> \<exists>blocks. ast_free_nodes ns = Inr blocks"
  by (induction ns) (auto simp: freeable_def)

lemma node_stats_map:
  "(\<And>s. s \<in> set ss \<Longrightarrow> node_stat (stat_node s) = Some s) \<Longrightarrow> node_stats (map stat_node ss) = Some ss"
  by (induction ss) auto

lemma plain_stat_node: "plain_stat s \<Longrightarrow> node_stat (stat_node s) = Some s"
  by (induction s rule: plain_stat.induct) (auto simp: plain_expr_node(1) node_stats_map split: option.splits)

lemma printable_scope: "printable (scope_node ss)"
  by (simp add: printable_def scope_node_def to_string_defs sprintf_def)

lemma plain_stat_printable: "plain_stat s \<Longrightarrow> printable (stat_node s)"
  using plain_expr_node(2)
  by (cases s) (fastforce simp: printable_def to_string_defs sprintf_def split: option.splits)+

lemma plain_stat_freeable: "plain_stat s \<Longrightarrow> freeable (stat_node s)"
proof (induction s rule: plain_stat.induct)
  case (3 e ts fs)
  have "\<exists>blocks. ast_free_nodes (map stat_node ts) = Inr blocks"
    by (rule freeable_list) (use 3 in auto)
  moreover have "\<exists>blocks. ast_free_nodes (map stat_node ss) = Inr blocks" if "fs = Some ss" for ss
    by (rule freeable_list) (use 3 that in auto)
  ultimately show ?case
    using 3 plain_expr_node(3) [of e] by (cases fs) (auto simp: freeable_def)
next
  case (4 e body)
  have "\<exists>blocks. ast_free_nodes (map stat_node body) = Inr blocks"
    by (rule freeable_list) (use 4 in auto)
  then show ?case using 4 plain_expr_node(3) [of e] by (auto simp: freeable_def)
qed (auto simp: freeable_def dest: plain_expr_node(3))

subsection \<open>What the calls build\<close>

definition add_overrun :: "nat \<Rightarrow> front \<Rightarrow> front" where
  "add_overrun k s = s\<lparr>f_overrun := f_overrun s + k\<rparr>"

lemma add_overrun_simps [simp]:
  "f_lexer (add_overrun k s) = f_lexer s" "f_compiler (add_overrun k s) = f_compiler s"
  "f_errors (add_overrun k s) = f_errors s" "add_overrun j (add_overrun k s) = add_overrun (k + j) s"
  "selection (add_overrun k s) = selection s" "iteration (add_overrun k s) = iteration s"
  "not_inside_func (add_overrun k s) = not_inside_func s" "add_overrun 0 s = s"
  by (simp_all add: add_overrun_def selection_def iteration_def not_inside_func_def)

lemma trace_printable: "printable n \<Longrightarrow> trace_node n s = Inr (n, add_overrun (node_overrun n) s)"
  using printable_to_string [of n] by (auto simp: trace_node_def add_overrun_def printable_def)

lemma return_printable: "printable n \<Longrightarrow> return_node n s = Inr (Some n, add_overrun (node_overrun n) s)"
  by (simp add: return_node_def trace_printable)

lemma assert_Some [simp]: "ASSERT_NON_NULL (Some x) text s = s"
  by (simp add: ASSERT_NON_NULL_def)

text \<open>The bytes printing costs while an expression is built: every action prints its whole node.\<close>

fun expr_overrun :: "expr \<Rightarrow> nat" where
  "expr_overrun (Group t e) = expr_overrun e + node_overrun (expr_node (Group t e))"
| "expr_overrun (Unary_Op t op e) = expr_overrun e + node_overrun (expr_node (Unary_Op t op e))"
| "expr_overrun (Binary_Op t op l r) =
     expr_overrun l + expr_overrun r + node_overrun (expr_node (Binary_Op t op l r))"
| "expr_overrun e = node_overrun (expr_node e)"

lemma parse_plain_expr:
  "plain_expr e \<Longrightarrow> parse_expr e s = Inr (Some (expr_node e), add_overrun (expr_overrun e) s)"
proof (induction e arbitrary: s)
  case (Group t e)
  then show ?case
    using return_printable [OF plain_expr_node(2) [OF Group.prems]]
    by (simp add: ast_new_node_group_def plain_expr_upcast)
next
  case (Unary_Op t op e)
  then show ?case
    using return_printable [OF plain_expr_node(2) [OF Unary_Op.prems]]
    by (simp add: ast_new_node_unary_op_def plain_expr_upcast)
next
  case (Binary_Op t op l r)
  then show ?case
    using return_printable [OF plain_expr_node(2) [OF Binary_Op.prems]]
    by (simp add: ast_new_node_binary_op_def plain_expr_upcast add.assoc)
qed (auto simp: ast_new_node_ident_def ast_new_node_literal_bool_def ast_new_node_literal_int_def
    ast_new_node_literal_float_def ast_new_node_literal_char_def ast_new_node_literal_string_def
    return_printable printable_def to_string_defs sprintf_def)

subsection \<open>Statements inside a statement\<close>

text \<open>Inside a function, a selection or a loop no statement is compiled; at the top level it is.\<close>

definition busy :: "front \<Rightarrow> bool" where
  "busy s \<longleftrightarrow> 0 \<le> selection s \<and> 0 \<le> iteration s \<and>
     (\<not> not_inside_func s \<or> 0 < selection s \<or> 0 < iteration s)"

definition idle :: "front \<Rightarrow> bool" where
  "idle s \<longleftrightarrow> not_inside_func s \<and> selection s = 0 \<and> iteration s = 0"

lemma counters [simp]:
  "selection (set_selection i s) = i" "iteration (set_selection i s) = iteration s"
  "selection (set_iteration i s) = selection s" "iteration (set_iteration i s) = i"
  "not_inside_func (set_selection i s) = not_inside_func s" "not_inside_func (set_iteration i s) = not_inside_func s"
  "set_selection j (set_selection i s) = set_selection j s" "set_iteration j (set_iteration i s) = set_iteration j s"
  "set_selection (selection s) s = s" "set_iteration (iteration s) s = s"
  "set_selection i (add_overrun k s) = add_overrun k (set_selection i s)"
  "set_iteration i (add_overrun k s) = add_overrun k (set_iteration i s)"
  "f_compiler (set_selection i s) = f_compiler s" "f_compiler (set_iteration i s) = f_compiler s"
  by (simp_all add: set_selection_def set_iteration_def selection_def iteration_def not_inside_func_def add_overrun_def)

lemma counters_compiler [simp]:
  "add_overrun k (s\<lparr>f_compiler := c\<rparr>) = (add_overrun k s)\<lparr>f_compiler := c\<rparr>"
  "selection (s\<lparr>f_compiler := c\<rparr>) = selection s" "iteration (s\<lparr>f_compiler := c\<rparr>) = iteration s"
  "not_inside_func (s\<lparr>f_compiler := c\<rparr>) = not_inside_func s"
  "set_selection i (s\<lparr>f_compiler := c\<rparr>) = (set_selection i s)\<lparr>f_compiler := c\<rparr>"
  "set_iteration i (s\<lparr>f_compiler := c\<rparr>) = (set_iteration i s)\<lparr>f_compiler := c\<rparr>"
  by (simp_all add: set_selection_def set_iteration_def selection_def iteration_def not_inside_func_def add_overrun_def)

lemma counters_same [simp]:
  "selection s = i \<Longrightarrow> set_selection i s = s" "iteration s = i \<Longrightarrow> set_iteration i s = s"
  by auto

lemma keyword_counters:
  "keyword lexer_handle_keyword_if s = set_selection (selection s + 1) s"
  "keyword lexer_handle_keyword_switch s = set_selection (selection s + 1) s"
  "keyword lexer_handle_keyword_while s = set_iteration (iteration s + 1) s"
  by (simp_all add: keyword_def lexer_handle_keyword_if_def lexer_handle_keyword_switch_def
      lexer_handle_keyword_while_def set_selection_def set_iteration_def selection_def iteration_def)

lemma busy_overrun [simp]: "busy (add_overrun k s) = busy s" "idle (add_overrun k s) = idle s"
  by (simp_all add: busy_def idle_def)

lemma link_plain:
  assumes "\<forall>s \<in> set ss. plain_stat s" "plain_stat st"
  shows "ast_link_node_stat_list (Some (N_Stat_List (map stat_node ss))) (Some (stat_node st)) s =
    Inr (Some (N_Stat_List (map stat_node (ss @ [st]))), s)"
proof -
  have ns: "stat_node x \<noteq> N_Freed \<and> clear_next (stat_node x) = Inr (stat_node x) \<and> set_next (stat_node x) n = stat_node x"
    if "plain_stat x" for x n
    using that by (cases x) (simp_all add: set_next_def)
  have "link_last (map stat_node ss) (stat_node st) = map stat_node ss @ [stat_node st]"
    using assms(1)
  proof (induction ss)
    case (Cons x xs)
    then show ?case using ns by (cases xs) auto
  qed simp
  then show ?thesis using ns [OF assms(2)] by (simp add: ast_link_node_stat_list_def read_node_def)
qed

definition parses_inside :: "stat \<Rightarrow> bool" where
  "parses_inside st \<longleftrightarrow> (\<forall>s. busy s \<longrightarrow>
     (\<exists>k. \<forall>fuel. parse_stat fuel st s = Inr (Some (stat_node st), add_overrun k s)))"

lemma parse_stats_inside:
  assumes "\<forall>st \<in> set ss. plain_stat st \<and> parses_inside st" "\<forall>st \<in> set before. plain_stat st" "busy s"
  shows "\<exists>k. \<forall>fuel. parse_stats fuel ss (Some (N_Stat_List (map stat_node before))) s =
    Inr (Some (N_Stat_List (map stat_node (before @ ss))), add_overrun k s)"
  using assms
proof (induction ss arbitrary: before s)
  case Nil
  then show ?case by (intro exI [of _ 0]) simp
next
  case (Cons st ss)
  obtain k where k: "\<And>fuel. parse_stat fuel st s = Inr (Some (stat_node st), add_overrun k s)"
    using Cons.prems(1,3) by (auto simp: parses_inside_def)
  have "\<exists>j. \<forall>fuel. parse_stats fuel ss (Some (N_Stat_List (map stat_node (before @ [st])))) (add_overrun k s) =
      Inr (Some (N_Stat_List (map stat_node ((before @ [st]) @ ss))), add_overrun j (add_overrun k s))"
    by (rule Cons.IH) (use Cons.prems in auto)
  then obtain j where "\<And>fuel. parse_stats fuel ss (Some (N_Stat_List (map stat_node (before @ [st])))) (add_overrun k s) =
      Inr (Some (N_Stat_List (map stat_node ((before @ [st]) @ ss))), add_overrun j (add_overrun k s))" by blast
  then show ?case
    using k link_plain [of before st "add_overrun k s"] Cons.prems by (intro exI [of _ "k + j"]) simp
qed

lemma new_list: "ast_new_node_stat_list None s = Inr (Some (N_Stat_List []), s)"
  by (simp add: ast_new_node_stat_list_def)

lemma new_scope:
  "ast_new_node_scope (Some (N_Stat_List (map stat_node ss))) s =
     Inr (Some (scope_node ss), add_overrun (node_overrun (scope_node ss)) s)"
  using return_printable [OF printable_scope [of ss]]
  by (simp add: ast_new_node_scope_def NODE_UPCAST_def read_node_def scope_node_def)

lemma parse_block_inside:
  assumes "\<forall>st \<in> set ss. plain_stat st \<and> parses_inside st" "busy s"
  obtains k where "\<And>fuel. parse_stats fuel ss (Some (N_Stat_List [])) s =
    Inr (Some (N_Stat_List (map stat_node ss)), add_overrun k s)"
  using parse_stats_inside [of ss "[]" s] assms by auto

text \<open>The last action of a selection and of a loop.\<close>

lemma new_stat_if:
  assumes "plain_stat (Stat_If e ts fs)"
  shows "ast_new_node_stat_if fuel (Some (expr_node e)) (Some (scope_node ts)) (map_option scope_node fs) s =
    sbind (if not_inside_func s \<and> selection s - 1 = 0 \<and> iteration s = 0
           then compile_and_free fuel (stat_node (Stat_If e ts fs))
                  (add_overrun (node_overrun (stat_node (Stat_If e ts fs))) s)
           else Inr (Some (stat_node (Stat_If e ts fs)), add_overrun (node_overrun (stat_node (Stat_If e ts fs))) s))
      (\<lambda>(ptr, s). Inr (ptr, set_selection (selection s - 1) s))"
  using assms trace_printable [OF plain_stat_printable [OF assms]]
  by (cases fs) (simp_all add: ast_new_node_stat_if_def plain_expr_upcast NODE_UPCAST_def read_node_def scope_node_def)

lemma new_stat_while:
  assumes "plain_stat (Stat_While e body)"
  shows "ast_new_node_stat_while fuel (Some (expr_node e)) (Some (scope_node body)) s =
    sbind (if not_inside_func s \<and> selection s = 0 \<and> iteration s - 1 = 0
           then compile_and_free fuel (stat_node (Stat_While e body))
                  (add_overrun (node_overrun (stat_node (Stat_While e body))) s)
           else Inr (Some (stat_node (Stat_While e body)), add_overrun (node_overrun (stat_node (Stat_While e body))) s))
      (\<lambda>(ptr, s). Inr (ptr, set_iteration (iteration s - 1) s))"
  using assms trace_printable [OF plain_stat_printable [OF assms]]
  by (simp add: ast_new_node_stat_while_def plain_expr_upcast scope_node_def)

text \<open>The parts of a selection or a loop are parsed before its last action, at any depth.\<close>

lemma parse_if_parts:
  assumes "plain_stat (Stat_If e ts fs)" "0 \<le> selection s" "0 \<le> iteration s"
    and "\<And>st. st \<in> set ts \<Longrightarrow> parses_inside st" "\<And>ss st. fs = Some ss \<Longrightarrow> st \<in> set ss \<Longrightarrow> parses_inside st"
  shows "\<exists>k. \<forall>fuel. parse_stat fuel (Stat_If e ts fs) s =
    ast_new_node_stat_if fuel (Some (expr_node e)) (Some (scope_node ts)) (map_option scope_node fs)
      (add_overrun k (set_selection (selection s + 1) s))"
proof -
  let ?s = "add_overrun (expr_overrun e) (set_selection (selection s + 1) s)"
  have b: "busy (add_overrun k ?s)" for k using assms(2,3) by (simp add: busy_def)
  obtain k where k: "\<And>fuel. parse_stats fuel ts (Some (N_Stat_List [])) ?s =
      Inr (Some (N_Stat_List (map stat_node ts)), add_overrun k ?s)"
    using parse_block_inside [of ts ?s] b [of 0] assms(1,4) by auto
  have e: "parse_expr e (keyword lexer_handle_keyword_if s) = Inr (Some (expr_node e), ?s)"
    using assms(1) by (simp add: keyword_counters parse_plain_expr)
  show ?thesis
  proof (cases fs)
    case None
    then show ?thesis
      using e k by (intro exI [of _ "expr_overrun e + k + node_overrun (scope_node ts)"])
        (simp add: new_list new_scope add.assoc)
  next
    case (Some ss)
    let ?t = "add_overrun (node_overrun (scope_node ts)) (add_overrun k ?s)"
    obtain j where j: "\<And>fuel. parse_stats fuel ss (Some (N_Stat_List [])) ?t =
        Inr (Some (N_Stat_List (map stat_node ss)), add_overrun j ?t)"
      using parse_block_inside [of ss ?t] b [of "k + node_overrun (scope_node ts)"] assms(1,5) Some by auto
    show ?thesis
      using Some e k j
      by (intro exI [of _ "expr_overrun e + k + node_overrun (scope_node ts) + j + node_overrun (scope_node ss)"])
        (simp add: new_list new_scope add.assoc)
  qed
qed

lemma parse_while_parts:
  assumes "plain_stat (Stat_While e body)" "0 \<le> selection s" "0 \<le> iteration s"
    and "\<And>st. st \<in> set body \<Longrightarrow> parses_inside st"
  shows "\<exists>k. \<forall>fuel. parse_stat fuel (Stat_While e body) s =
    ast_new_node_stat_while fuel (Some (expr_node e)) (Some (scope_node body))
      (add_overrun k (set_iteration (iteration s + 1) s))"
proof -
  let ?s = "add_overrun (expr_overrun e) (set_iteration (iteration s + 1) s)"
  have b: "busy ?s" using assms(2,3) by (simp add: busy_def)
  obtain k where k: "\<And>fuel. parse_stats fuel body (Some (N_Stat_List [])) ?s =
      Inr (Some (N_Stat_List (map stat_node body)), add_overrun k ?s)"
    using parse_block_inside [of body ?s] b assms(1,4) by auto
  have e: "parse_expr e (keyword lexer_handle_keyword_while s) = Inr (Some (expr_node e), ?s)"
    using assms(1) by (simp add: keyword_counters parse_plain_expr)
  show ?thesis
    using e k by (intro exI [of _ "expr_overrun e + k + node_overrun (scope_node body)"])
      (simp add: new_list new_scope add.assoc)
qed

lemma parses_inside_plain: "plain_stat st \<Longrightarrow> parses_inside st"
proof (induction st rule: plain_stat.induct)
  case (1 e)
  show ?case unfolding parses_inside_def
  proof (intro allI impI)
    fix s assume "busy s"
    then show "\<exists>k. \<forall>fuel. parse_stat fuel (Stat_Expr e) s = Inr (Some (stat_node (Stat_Expr e)), add_overrun k s)"
      using 1 parse_plain_expr [of e s] trace_printable [OF plain_stat_printable [OF 1]]
      by (intro exI [of _ "expr_overrun e + node_overrun (stat_node (Stat_Expr e))"])
        (auto simp: ast_new_node_stat_expr_def plain_expr_upcast busy_def)
  qed
next
  case (2 e)
  show ?case unfolding parses_inside_def
    using 2 parse_plain_expr [of e] return_printable [OF plain_stat_printable [OF 2]]
    by (auto simp: ast_new_node_stat_ret_def plain_expr_upcast)
next
  case (3 e ts fs)
  show ?case unfolding parses_inside_def
  proof (intro allI impI)
    fix s assume b: "busy s"
    have "parses_inside st" if "st \<in> set ts" for st using 3 that by auto
    moreover have "parses_inside st" if "fs = Some ss" "st \<in> set ss" for ss st using 3 that by auto
    ultimately obtain k where "\<forall>fuel. parse_stat fuel (Stat_If e ts fs) s =
      ast_new_node_stat_if fuel (Some (expr_node e)) (Some (scope_node ts)) (map_option scope_node fs)
        (add_overrun k (set_selection (selection s + 1) s))"
      using parse_if_parts [OF 3(3), of s] b by (auto simp: busy_def)
    then show "\<exists>k. \<forall>fuel. parse_stat fuel (Stat_If e ts fs) s = Inr (Some (stat_node (Stat_If e ts fs)), add_overrun k s)"
      using new_stat_if [OF 3(3)] b
      by (intro exI [of _ "k + node_overrun (stat_node (Stat_If e ts fs))"]) (auto simp: busy_def)
  qed
next
  case (4 e body)
  show ?case unfolding parses_inside_def
  proof (intro allI impI)
    fix s assume b: "busy s"
    have "parses_inside st" if "st \<in> set body" for st using 4 that by auto
    then obtain k where "\<forall>fuel. parse_stat fuel (Stat_While e body) s =
      ast_new_node_stat_while fuel (Some (expr_node e)) (Some (scope_node body))
        (add_overrun k (set_iteration (iteration s + 1) s))"
      using parse_while_parts [OF 4(2), of s] b by (auto simp: busy_def)
    then show "\<exists>k. \<forall>fuel. parse_stat fuel (Stat_While e body) s = Inr (Some (stat_node (Stat_While e body)), add_overrun k s)"
      using new_stat_while [OF 4(2)] b
      by (intro exI [of _ "k + node_overrun (stat_node (Stat_While e body))"]) (auto simp: busy_def)
  qed
qed simp

subsection \<open>Statements at the top level\<close>

lemma compile_and_free_plain:
  "plain_stat st \<Longrightarrow> compile_and_free fuel (stat_node st) s =
     sbind (compile_statement fuel st (f_compiler s)) (\<lambda>(res, c). Inr (None, s\<lparr>f_compiler := c\<rparr>))"
proof -
  assume p: "plain_stat st"
  then have "node_global (stat_node st) = Some (Global_Stat st)"
    using plain_stat_node [OF p] by (cases st) (simp_all add: node_global_def)
  then show ?thesis
    using plain_stat_freeable [OF p] by (auto simp: compile_and_free_def freeable_def compiler_compile_def)
qed

lemma parse_top:
  assumes "plain_stat st" "idle s" "\<And>e. st \<noteq> Stat_Ret e"
  shows "\<exists>k. \<forall>fuel. parse_stat fuel st s =
    sbind (compile_statement fuel st (f_compiler s)) (\<lambda>(res, c). Inr (None, (add_overrun k s)\<lparr>f_compiler := c\<rparr>))"
proof (cases st)
  case (Stat_Expr e)
  then show ?thesis
    using assms parse_plain_expr [of e s] trace_printable [OF plain_stat_printable [OF assms(1)]]
      compile_and_free_plain [OF assms(1)]
    by (intro exI [of _ "expr_overrun e + node_overrun (stat_node (Stat_Expr e))"])
      (simp del: compile_statement.simps add: ast_new_node_stat_expr_def plain_expr_upcast idle_def)
next
  case (Stat_If e ts fs)
  have p: "plain_stat (Stat_If e ts fs)" using assms(1) Stat_If by simp
  have "parses_inside st" if "st \<in> set ts" for st using p that parses_inside_plain by simp
  moreover have "parses_inside st" if "fs = Some ss" "st \<in> set ss" for ss st using p that parses_inside_plain by simp
  ultimately obtain k where "\<forall>fuel. parse_stat fuel (Stat_If e ts fs) s =
      ast_new_node_stat_if fuel (Some (expr_node e)) (Some (scope_node ts)) (map_option scope_node fs)
        (add_overrun k (set_selection (selection s + 1) s))"
    using parse_if_parts [OF p, of s] assms(2) by (auto simp: idle_def)
  then show ?thesis
    using new_stat_if [OF p] assms(2) compile_and_free_plain [OF p] Stat_If
    by (intro exI [of _ "k + node_overrun (stat_node (Stat_If e ts fs))"])
      (simp del: compile_statement.simps stat_node.simps parse_stat.simps add: idle_def sbind_assoc split_def)
next
  case (Stat_While e body)
  have p: "plain_stat (Stat_While e body)" using assms(1) Stat_While by simp
  have "parses_inside st" if "st \<in> set body" for st using p that parses_inside_plain by simp
  then obtain k where "\<forall>fuel. parse_stat fuel (Stat_While e body) s =
      ast_new_node_stat_while fuel (Some (expr_node e)) (Some (scope_node body))
        (add_overrun k (set_iteration (iteration s + 1) s))"
    using parse_while_parts [OF p, of s] assms(2) by (auto simp: idle_def)
  then show ?thesis
    using new_stat_while [OF p] assms(2) compile_and_free_plain [OF p] Stat_While
    by (intro exI [of _ "k + node_overrun (stat_node (Stat_While e body))"])
      (simp del: compile_statement.simps stat_node.simps parse_stat.simps add: idle_def sbind_assoc split_def)
qed (use assms in simp_all)

end
