(* ===== verification/Grammar.thy ===== *)
theory Grammar
  imports Parser_Calls Scanner
begin

text \<open>
  The expression rules of \<open>parser.y\<close> as the shift-reduce automaton bison makes of them. The grammar
  is ambiguous; bison compares the precedence of the rule that could be reduced with the one of the
  next token, as its manual says, and the precedences are the ones \<open>parser.y\<close> declares.
\<close>

subsection \<open>Precedences\<close>

datatype assoc = Assoc_Left | Assoc_Right | Assoc_None

definition token_prec :: "symbol \<Rightarrow> (nat \<times> assoc) option" where
  "token_prec = map_of
     [(Const 270, 1, Assoc_Left), (Character (CHR '',''), 2, Assoc_Left), (Character (CHR ''=''), 3, Assoc_Right),
      (Const 263, 4, Assoc_Left), (Const 264, 4, Assoc_Left),
      (Const 265, 5, Assoc_Left), (Const 266, 5, Assoc_Left), (Const 267, 5, Assoc_Left), (Const 268, 5, Assoc_Left),
      (Character (CHR ''+''), 6, Assoc_Left), (Character (CHR ''-''), 6, Assoc_Left),
      (Character (CHR ''*''), 7, Assoc_Left), (Character (CHR ''/''), 7, Assoc_Left),
      (Character (CHR ''!''), 8, Assoc_Right), (Const 259, 9, Assoc_None), (Const 260, 9, Assoc_None)]"

definition binary_signs :: "(symbol \<times> operator) list" where
  "binary_signs =
     [(Character (CHR '',''), COMMA), (Character (CHR ''=''), ASSIGNMENT),
      (Character (CHR ''+''), ADDITION), (Character (CHR ''-''), SUBTRACTION),
      (Character (CHR ''*''), MULTIPLICATION), (Character (CHR ''/''), DIVISION),
      (Const 263, EQUAL_TO), (Const 264, NOT_EQUAL_TO), (Const 266, LESS_THAN), (Const 268, NOT_GREATER_THAN),
      (Const 267, GREATER_THAN), (Const 265, NOT_LESS_THAN)]"

text \<open>
  The precedence of a rule is the one of its sign; the rule of the unary minus has the highest of
  all, \<open>UNARY_MINUS_PREC\<close>.
\<close>

fun rule_level :: "operator \<Rightarrow> nat" where
  "rule_level COMMA = 2"
| "rule_level ASSIGNMENT = 3"
| "rule_level EQUAL_TO = 4"
| "rule_level NOT_EQUAL_TO = 4"
| "rule_level NOT_LESS_THAN = 5"
| "rule_level LESS_THAN = 5"
| "rule_level GREATER_THAN = 5"
| "rule_level NOT_GREATER_THAN = 5"
| "rule_level ADDITION = 6"
| "rule_level SUBTRACTION = 6"
| "rule_level MULTIPLICATION = 7"
| "rule_level DIVISION = 7"
| "rule_level LOGICAL_NOT = 8"
| "rule_level UNARY_MINUS = 10"
| "rule_level oper = 0"

definition shifts :: "operator \<Rightarrow> symbol \<Rightarrow> bool" where
  "shifts oper t =
     (case token_prec t of
        None \<Rightarrow> False
      | Some (level, a) \<Rightarrow> rule_level oper < level \<or> rule_level oper = level \<and> a = Assoc_Right)"

text \<open>The tokens that can go on with a complete expression.\<close>

definition continues :: "symbol \<Rightarrow> bool" where
  "continues t = (t = Const 259 \<or> map_of binary_signs t \<noteq> None)"

subsection \<open>The automaton\<close>

text \<open>
  The stack holds the begun rules: an infix or prefix operator that waits for its right operand,
  an open parenthesis of a group or a ternary operator, a call whose argument is read. The
  actions, which run at the reductions, are a parameter: \<open>yacc_actions\<close> are the ones of
  \<open>parser.y\<close>.
\<close>

record ('n, 's) actions =
  act_atom :: "token \<Rightarrow> 's \<Rightarrow> ('n \<times> 's) result"
  act_group :: "'n \<Rightarrow> 's \<Rightarrow> ('n \<times> 's) result"
  act_unary :: "operator \<Rightarrow> 'n \<Rightarrow> 's \<Rightarrow> ('n \<times> 's) result"
  act_binary :: "operator \<Rightarrow> 'n \<Rightarrow> 'n \<Rightarrow> 's \<Rightarrow> ('n \<times> 's) result"
  act_ternary :: "operator \<Rightarrow> 'n \<Rightarrow> 'n \<Rightarrow> 'n \<Rightarrow> 's \<Rightarrow> ('n \<times> 's) result"

datatype 'n item =
    Infix operator 'n
  | Prefix operator
  | Paren
  | Then 'n
  | Else 'n 'n
  | Call 'n

datatype 'n operand = No_Operand | Operand 'n

type_synonym ('n, 's) config = "'n item list \<times> 'n operand \<times> symbol list \<times> 's"

fun atom_token :: "token \<Rightarrow> bool" where
  "atom_token (Tok_Bool b) = True"
| "atom_token (Tok_Int n) = True"
| "atom_token (Tok_Float x) = True"
| "atom_token (Tok_Char c) = True"
| "atom_token (Tok_String s) = True"
| "atom_token (Tok_Ident s) = True"
| "atom_token t = False"

definition lr_start :: "('n, 's) actions \<Rightarrow> 'n item list \<Rightarrow> symbol \<Rightarrow> symbol list \<Rightarrow> 's \<Rightarrow> ('n, 's) config option result" where
  "lr_start A items t ts s =
     (if t = Character (CHR ''!'') then Inr (Some (Prefix LOGICAL_NOT # items, No_Operand, ts, s))
      else if t = Character (CHR ''-'') then Inr (Some (Prefix UNARY_MINUS # items, No_Operand, ts, s))
      else if t = Const 259 then Inr (Some (Paren # items, No_Operand, ts, s))
      else case t of
             Value tok \<Rightarrow>
               if atom_token tok
               then sbind (act_atom A tok s) (\<lambda>(n, s). Inr (Some (items, Operand n, ts, s)))
               else Inr None
           | _ \<Rightarrow> Inr None)"

definition lr_shift :: "'n item list \<Rightarrow> 'n \<Rightarrow> symbol \<Rightarrow> symbol list \<Rightarrow> 's \<Rightarrow> ('n, 's) config option result" where
  "lr_shift items n t ts s =
     (case map_of binary_signs t of
        Some oper \<Rightarrow> Inr (Some (Infix oper n # items, No_Operand, ts, s))
      | None \<Rightarrow> if t = Const 259 then Inr (Some (Call n # items, No_Operand, ts, s)) else Inr None)"

fun lr_reduce :: "('n, 's) actions \<Rightarrow> 'n item list \<Rightarrow> 'n \<Rightarrow> symbol \<Rightarrow> symbol list \<Rightarrow> 's \<Rightarrow> ('n, 's) config option result" where
  "lr_reduce A [] n t ts s = Inr None"
| "lr_reduce A (Infix oper l # items) n t ts s =
     sbind (act_binary A oper l n s) (\<lambda>(n, s). Inr (Some (items, Operand n, t # ts, s)))"
| "lr_reduce A (Prefix oper # items) n t ts s =
     sbind (act_unary A oper n s) (\<lambda>(n, s). Inr (Some (items, Operand n, t # ts, s)))"
| "lr_reduce A (Paren # items) n t ts s =
     (if t = Const 260 then sbind (act_group A n s) (\<lambda>(n, s). Inr (Some (items, Operand n, ts, s)))
      else if t = Character (CHR ''?'') then Inr (Some (Then n # items, No_Operand, ts, s))
      else Inr None)"
| "lr_reduce A (Then a # items) n t ts s =
     (if t = Character (CHR '':'') then Inr (Some (Else a n # items, No_Operand, ts, s)) else Inr None)"
| "lr_reduce A (Else a b # items) n t ts s =
     (if t = Const 260
      then sbind (act_ternary A TERNARY_CONDITIONAL a b n s) (\<lambda>(n, s). Inr (Some (items, Operand n, ts, s)))
      else Inr None)"
| "lr_reduce A (Call f # items) n t ts s =
     (if t = Const 260
      then sbind (act_group A n s) (\<lambda>(g, s).
             sbind (act_binary A FUNCTION_CALL f g s) (\<lambda>(n, s). Inr (Some (items, Operand n, ts, s))))
      else Inr None)"

fun top_shifts :: "'n item list \<Rightarrow> symbol \<Rightarrow> bool" where
  "top_shifts (Infix oper l # items) t = shifts oper t"
| "top_shifts (Prefix oper # items) t = shifts oper t"
| "top_shifts items t = True"

text \<open>\<open>None\<close> when no rule goes on: the expression has ended, or the token does not fit.\<close>

fun lr_step :: "('n, 's) actions \<Rightarrow> ('n, 's) config \<Rightarrow> ('n, 's) config option result" where
  "lr_step A (items, opd, [], s) = Inr None"
| "lr_step A (items, No_Operand, t # ts, s) = lr_start A items t ts s"
| "lr_step A (items, Operand n, t # ts, s) =
     (if continues t \<and> top_shifts items t then lr_shift items n t ts s else lr_reduce A items n t ts s)"

fun lr_size :: "('n, 's) config \<Rightarrow> nat" where
  "lr_size (items, No_Operand, ts, s) = 3 * length ts + length items"
| "lr_size (items, Operand n, ts, s) = 3 * length ts + length items + 1"

lemma lr_step_size: "lr_step A c = Inr (Some c') \<Longrightarrow> lr_size c' < lr_size c"
proof (induction A c rule: lr_step.induct)
  case (2 A items t ts s)
  then show ?case by (auto simp: lr_start_def split: if_splits symbol.splits)
next
  case (3 A items n t ts s)
  show ?case
  proof (cases "continues t \<and> top_shifts items t")
    case True
    with 3 show ?thesis by (auto simp: lr_shift_def split: if_splits option.splits)
  next
    case False
    with 3 have "lr_reduce A items n t ts s = Inr (Some c')" by auto
    then show ?thesis by (cases "(A, items, n, t, ts, s)" rule: lr_reduce.cases) (auto split: if_splits)
  qed
qed simp

function lr_run :: "('n, 's) actions \<Rightarrow> ('n, 's) config \<Rightarrow> ('n, 's) config result" where
  "lr_run A c = sbind (lr_step A c) (\<lambda>r. case r of None \<Rightarrow> Inr c | Some c' \<Rightarrow> lr_run A c')"
  by auto

termination
  by (relation "measure (\<lambda>(A, c). lr_size c)") (simp_all add: lr_step_size)

declare lr_run.simps [simp del]

subsection \<open>The actions\<close>

fun yacc_atom :: "token \<Rightarrow> front \<Rightarrow> (node option \<times> front) result" where
  "yacc_atom (Tok_Bool b) s = ast_new_node_literal_bool b s"
| "yacc_atom (Tok_Int n) s = ast_new_node_literal_int n s"
| "yacc_atom (Tok_Float x) s = ast_new_node_literal_float x s"
| "yacc_atom (Tok_Char c) s = ast_new_node_literal_char c s"
| "yacc_atom (Tok_String str) s = ast_new_node_literal_string str s"
| "yacc_atom (Tok_Ident name) s = ast_new_node_ident name s"
| "yacc_atom t s = Inl Bad_Node"

definition yacc_actions :: "(node option, front) actions" where
  "yacc_actions =
     \<lparr>act_atom = yacc_atom, act_group = ast_new_node_group, act_unary = ast_new_node_unary_op,
      act_binary = ast_new_node_binary_op, act_ternary = ast_new_node_ternary_op\<rparr>"

end
