(* ===== verification/Grammar_Claims.thy ===== *)
theory Grammar_Claims
  imports Grammar
begin

text \<open>
  What the declared precedences mean for expressions: which trees the parser builds, that it builds
  them by the calls of \<open>parse_expr\<close>, and that no two of them are written alike.
\<close>

subsection \<open>Trees and their tokens\<close>

definition sign_of :: "operator \<Rightarrow> symbol" where
  "sign_of oper = the (map_of (map (\<lambda>(t, oper). (oper, t)) binary_signs) oper)"

text \<open>The token after the left operand.\<close>

definition next_sign :: "operator \<Rightarrow> symbol" where
  "next_sign oper = (if oper = FUNCTION_CALL then Const 259 else sign_of oper)"

fun tokens_of :: "expr \<Rightarrow> symbol list" where
  "tokens_of (Ident t name) = [Value (Tok_Ident name)]"
| "tokens_of (Literal_Bool b) = [Value (Tok_Bool b)]"
| "tokens_of (Literal_Int n) = [Value (Tok_Int n)]"
| "tokens_of (Literal_Float x) = [Value (Tok_Float x)]"
| "tokens_of (Literal_Char c) = [Value (Tok_Char c)]"
| "tokens_of (Literal_String str) = [Value (Tok_String str)]"
| "tokens_of (Group t e) = Const 259 # tokens_of e @ [Const 260]"
| "tokens_of (Unary_Op t oper e) = Character (if oper = LOGICAL_NOT then CHR ''!'' else CHR ''-'') # tokens_of e"
| "tokens_of (Binary_Op t oper l r) =
     tokens_of l @ (if oper = FUNCTION_CALL then [] else [sign_of oper]) @ tokens_of r"
| "tokens_of (Ternary_Op t oper a b c) =
     Const 259 # tokens_of a @ Character (CHR ''?'') # tokens_of b @ Character (CHR '':'') # tokens_of c @ [Const 260]"
| "tokens_of (Special_Cast t opcode e) = []"

text \<open>
  The signs an expression shows at its left edge, outside every parenthesis, and the rules that are
  complete only where the expression ends.
\<close>

fun left_edge :: "expr \<Rightarrow> symbol list" where
  "left_edge (Binary_Op t oper l r) = left_edge l @ [next_sign oper]"
| "left_edge e = []"

fun right_edge :: "expr \<Rightarrow> operator list" where
  "right_edge (Unary_Op t oper e) = oper # right_edge e"
| "right_edge (Binary_Op t oper l r) = (if oper = FUNCTION_CALL then [] else oper # right_edge r)"
| "right_edge e = []"

text \<open>
  The trees that follow the precedences: at every operator, the rules to its left are reduced
  before it, and the signs to its right are shifted behind it.
\<close>

fun grammatical :: "expr \<Rightarrow> bool" where
  "grammatical (Ident t name) = (t = TYPE_UNKNWN)"
| "grammatical (Group t e) = (t = TYPE_UNKNWN \<and> grammatical e)"
| "grammatical (Unary_Op t oper e) =
     (t = TYPE_UNKNWN \<and> (oper = LOGICAL_NOT \<or> oper = UNARY_MINUS) \<and> grammatical e \<and> list_all (shifts oper) (left_edge e))"
| "grammatical (Binary_Op t oper l r) =
     (t = TYPE_UNKNWN \<and> grammatical l \<and> grammatical r \<and>
      (if oper = FUNCTION_CALL
       then (case r of Group t a \<Rightarrow> True | _ \<Rightarrow> False) \<and> list_all (\<lambda>p. \<not> shifts p (Const 259)) (right_edge l)
       else oper \<in> snd ` set binary_signs \<and> list_all (\<lambda>p. \<not> shifts p (sign_of oper)) (right_edge l) \<and>
         list_all (shifts oper) (left_edge r)))"
| "grammatical (Ternary_Op t oper a b c) =
     (t = TYPE_UNKNWN \<and> oper = TERNARY_CONDITIONAL \<and> grammatical a \<and> grammatical b \<and> grammatical c)"
| "grammatical (Special_Cast t opcode e) = False"
| "grammatical e = True"

text \<open>The actions of a tree, operands before operators, left before right.\<close>

fun run_actions :: "('n, 's) actions \<Rightarrow> expr \<Rightarrow> 's \<Rightarrow> ('n \<times> 's) result" where
  "run_actions A (Ident t name) s = act_atom A (Tok_Ident name) s"
| "run_actions A (Literal_Bool b) s = act_atom A (Tok_Bool b) s"
| "run_actions A (Literal_Int n) s = act_atom A (Tok_Int n) s"
| "run_actions A (Literal_Float x) s = act_atom A (Tok_Float x) s"
| "run_actions A (Literal_Char c) s = act_atom A (Tok_Char c) s"
| "run_actions A (Literal_String str) s = act_atom A (Tok_String str) s"
| "run_actions A (Group t e) s = sbind (run_actions A e s) (\<lambda>(n, s). act_group A n s)"
| "run_actions A (Unary_Op t oper e) s = sbind (run_actions A e s) (\<lambda>(n, s). act_unary A oper n s)"
| "run_actions A (Binary_Op t oper l r) s =
     sbind (run_actions A l s) (\<lambda>(n, s). sbind (run_actions A r s) (\<lambda>(m, s). act_binary A oper n m s))"
| "run_actions A (Ternary_Op t oper a b c) s =
     sbind (run_actions A a s) (\<lambda>(n, s). sbind (run_actions A b s) (\<lambda>(m, s). sbind (run_actions A c s) (\<lambda>(k, s).
       act_ternary A oper n m k s)))"
| "run_actions A (Special_Cast t opcode e) s = Inl Bad_Node"

lemma parse_expr_actions: "parse_expr e s = run_actions yacc_actions e s"
  by (induction e arbitrary: s) (simp_all add: yacc_actions_def)

subsection \<open>The automaton on the tokens of a tree\<close>

lemma sign_continues:
  assumes "oper \<in> snd ` set binary_signs"
  shows "continues (sign_of oper) \<and> map_of binary_signs (sign_of oper) = Some oper \<and> oper \<noteq> FUNCTION_CALL"
  using assms by (auto simp: binary_signs_def sign_of_def continues_def)

lemma paren_continues [simp]: "continues (Const 259)" "map_of binary_signs (Const 259) = None"
  by (simp_all add: continues_def binary_signs_def)

lemma closing_ends [simp]: "\<not> continues (Const 260)" "\<not> continues (Character (CHR ''?''))" "\<not> continues (Character (CHR '':''))"
  by (simp_all add: continues_def binary_signs_def)

lemma lr_run_step: "lr_step A c = Inr (Some c') \<Longrightarrow> lr_run A c = lr_run A c'"
  by (subst lr_run.simps) simp

lemma lr_run_reduce:
  "lr_step A c = sbind m (\<lambda>(n, s). Inr (Some (f n s))) \<Longrightarrow> lr_run A c = sbind m (\<lambda>(n, s). lr_run A (f n s))"
  by (subst lr_run.simps) (cases m; auto)

lemma run_atom:
  "atom_token tok \<Longrightarrow> lr_run A (items, No_Operand, Value tok # ts, s) =
     sbind (act_atom A tok s) (\<lambda>(n, s). lr_run A (items, Operand n, ts, s))"
  by (rule lr_run_reduce) (simp add: lr_start_def)

lemma run_infix:
  assumes "oper \<in> snd ` set binary_signs" "top_shifts items (sign_of oper)"
  shows "lr_run A (items, Operand n, sign_of oper # ts, s) = lr_run A (Infix oper n # items, No_Operand, ts, s)"
  by (rule lr_run_step) (use sign_continues [OF assms(1)] assms(2) in \<open>simp add: lr_shift_def\<close>)

lemma run_call:
  "top_shifts items (Const 259) \<Longrightarrow>
   lr_run A (items, Operand n, Const 259 # ts, s) = lr_run A (Call n # items, No_Operand, ts, s)"
  by (rule lr_run_step) (simp add: lr_shift_def)

lemma run_open: "lr_run A (items, No_Operand, Const 259 # ts, s) = lr_run A (Paren # items, No_Operand, ts, s)"
  by (rule lr_run_step) (simp add: lr_start_def)

lemma run_prefix:
  "oper = LOGICAL_NOT \<or> oper = UNARY_MINUS \<Longrightarrow>
   lr_run A (items, No_Operand, Character (if oper = LOGICAL_NOT then CHR ''!'' else CHR ''-'') # ts, s) =
   lr_run A (Prefix oper # items, No_Operand, ts, s)"
  by (rule lr_run_step) (auto simp: lr_start_def)

lemma run_reduce_infix:
  "continues t \<longrightarrow> \<not> shifts oper t \<Longrightarrow> lr_run A (Infix oper l # items, Operand n, t # ts, s) =
     sbind (act_binary A oper l n s) (\<lambda>(n, s). lr_run A (items, Operand n, t # ts, s))"
  by (rule lr_run_reduce) auto

lemma run_reduce_prefix:
  "continues t \<longrightarrow> \<not> shifts oper t \<Longrightarrow> lr_run A (Prefix oper # items, Operand n, t # ts, s) =
     sbind (act_unary A oper n s) (\<lambda>(n, s). lr_run A (items, Operand n, t # ts, s))"
  by (rule lr_run_reduce) auto

lemma run_close:
  "lr_run A (Paren # items, Operand n, Const 260 # ts, s) =
     sbind (act_group A n s) (\<lambda>(n, s). lr_run A (items, Operand n, ts, s))"
  "lr_run A (Call f # items, Operand n, Const 260 # ts, s) =
     sbind (act_group A n s) (\<lambda>(g, s). sbind (act_binary A FUNCTION_CALL f g s) (\<lambda>(n, s). lr_run A (items, Operand n, ts, s)))"
  "lr_run A (Else a b # items, Operand n, Const 260 # ts, s) =
     sbind (act_ternary A TERNARY_CONDITIONAL a b n s) (\<lambda>(n, s). lr_run A (items, Operand n, ts, s))"
proof -
  show "lr_run A (Paren # items, Operand n, Const 260 # ts, s) =
     sbind (act_group A n s) (\<lambda>(n, s). lr_run A (items, Operand n, ts, s))"
    by (rule lr_run_reduce) simp
  have "lr_run A (Call f # items, Operand n, Const 260 # ts, s) =
     sbind (sbind (act_group A n s) (\<lambda>(g, s). act_binary A FUNCTION_CALL f g s)) (\<lambda>(n, s). lr_run A (items, Operand n, ts, s))"
    by (rule lr_run_reduce) (simp add: sbind_assoc split_def)
  then show "lr_run A (Call f # items, Operand n, Const 260 # ts, s) =
     sbind (act_group A n s) (\<lambda>(g, s). sbind (act_binary A FUNCTION_CALL f g s) (\<lambda>(n, s). lr_run A (items, Operand n, ts, s)))"
    by (simp add: sbind_assoc split_def)
  show "lr_run A (Else a b # items, Operand n, Const 260 # ts, s) =
     sbind (act_ternary A TERNARY_CONDITIONAL a b n s) (\<lambda>(n, s). lr_run A (items, Operand n, ts, s))"
    by (rule lr_run_reduce) simp
qed

lemma run_ternary:
  "lr_run A (Paren # items, Operand n, Character (CHR ''?'') # ts, s) = lr_run A (Then n # items, No_Operand, ts, s)"
  "lr_run A (Then a # items, Operand n, Character (CHR '':'') # ts, s) = lr_run A (Else a n # items, No_Operand, ts, s)"
  by (rule lr_run_step, simp)+

text \<open>\<open>builds A e\<close>: the automaton reads the tokens of \<open>e\<close> and runs the actions of \<open>e\<close>.\<close>

definition builds :: "('n, 's) actions \<Rightarrow> expr \<Rightarrow> bool" where
  "builds A e \<longleftrightarrow> (\<forall>items t ts s.
     list_all (top_shifts items) (left_edge e) \<longrightarrow> list_all (\<lambda>p. continues t \<longrightarrow> \<not> shifts p t) (right_edge e) \<longrightarrow>
     lr_run A (items, No_Operand, tokens_of e @ t # ts, s) =
       sbind (run_actions A e s) (\<lambda>(n, s). lr_run A (items, Operand n, t # ts, s)))"

lemma buildsD:
  "builds A e \<Longrightarrow> list_all (top_shifts items) (left_edge e) \<Longrightarrow> list_all (\<lambda>p. continues t \<longrightarrow> \<not> shifts p t) (right_edge e) \<Longrightarrow>
   lr_run A (items, No_Operand, tokens_of e @ t # ts, s) =
     sbind (run_actions A e s) (\<lambda>(n, s). lr_run A (items, Operand n, t # ts, s))"
  by (simp add: builds_def)

lemma builds_closed:
  assumes "builds A e" "\<And>t. top_shifts items t" "\<not> continues t"
  shows "lr_run A (items, No_Operand, tokens_of e @ t # ts, s) =
    sbind (run_actions A e s) (\<lambda>(n, s). lr_run A (items, Operand n, t # ts, s))"
  by (rule buildsD [OF assms(1)]) (use assms(2,3) in \<open>simp_all add: list_all_iff\<close>)

lemma builds_group: "builds A e \<Longrightarrow> builds A (Group ty e)"
  unfolding builds_def [of A "Group ty e"]
  by (simp add: run_open builds_closed run_close sbind_assoc split_def)

lemma builds_unary:
  assumes "builds A e" "grammatical (Unary_Op ty oper e)"
  shows "builds A (Unary_Op ty oper e)"
  unfolding builds_def [of A "Unary_Op ty oper e"]
proof (intro allI impI)
  fix items t ts s
  assume edge: "list_all (\<lambda>p. continues t \<longrightarrow> \<not> shifts p t) (right_edge (Unary_Op ty oper e))"
  have "lr_run A (items, No_Operand, tokens_of (Unary_Op ty oper e) @ t # ts, s) =
      lr_run A (Prefix oper # items, No_Operand, tokens_of e @ t # ts, s)"
    using run_prefix [of oper A items "tokens_of e @ t # ts" s] assms(2) by simp
  also have "\<dots> = sbind (run_actions A e s) (\<lambda>(n, s). lr_run A (Prefix oper # items, Operand n, t # ts, s))"
    by (rule buildsD [OF assms(1)]) (use assms(2) edge in \<open>simp_all add: list_all_iff\<close>)
  finally show "lr_run A (items, No_Operand, tokens_of (Unary_Op ty oper e) @ t # ts, s) =
       sbind (run_actions A (Unary_Op ty oper e) s) (\<lambda>(n, s). lr_run A (items, Operand n, t # ts, s))"
    using edge by (simp add: run_reduce_prefix sbind_assoc split_def)
qed

lemma builds_infix:
  fixes A :: "('n, 's) actions"
  assumes "builds A l" "builds A r" "grammatical (Binary_Op ty oper l r)" "oper \<noteq> FUNCTION_CALL"
  shows "builds A (Binary_Op ty oper l r)"
  unfolding builds_def [of A "Binary_Op ty oper l r"]
proof (intro allI impI)
  fix items :: "'n item list" and t ts and s :: 's
  assume edge: "list_all (top_shifts items) (left_edge (Binary_Op ty oper l r))"
    "list_all (\<lambda>p. continues t \<longrightarrow> \<not> shifts p t) (right_edge (Binary_Op ty oper l r))"
  have g: "oper \<in> snd ` set binary_signs" "list_all (\<lambda>p. continues (sign_of oper) \<longrightarrow> \<not> shifts p (sign_of oper)) (right_edge l)"
    "list_all (shifts oper) (left_edge r)" "list_all (top_shifts items) (left_edge l)" "top_shifts items (sign_of oper)"
    using assms(3,4) edge by (simp_all add: list_all_iff next_sign_def)
  have r: "lr_run A (items, Operand n, sign_of oper # tokens_of r @ t # ts, s) =
      sbind (run_actions A r s) (\<lambda>(m, s). sbind (act_binary A oper n m s) (\<lambda>(n, s). lr_run A (items, Operand n, t # ts, s)))" for n s
    using buildsD [OF assms(2), of "Infix oper n # items" t ts s] g(3) edge(2) assms(4)
    by (simp add: run_infix [OF g(1,5)] run_reduce_infix list_all_iff)
  show "lr_run A (items, No_Operand, tokens_of (Binary_Op ty oper l r) @ t # ts, s) =
       sbind (run_actions A (Binary_Op ty oper l r) s) (\<lambda>(n, s). lr_run A (items, Operand n, t # ts, s))"
    using buildsD [OF assms(1) g(4,2), of "tokens_of r @ t # ts" s] assms(4)
    by (simp add: r sbind_assoc split_def)
qed

lemma builds_call:
  fixes A :: "('n, 's) actions"
  assumes "builds A l" "builds A a" "grammatical (Binary_Op ty FUNCTION_CALL l (Group ty' a))"
  shows "builds A (Binary_Op ty FUNCTION_CALL l (Group ty' a))"
  unfolding builds_def [of A "Binary_Op ty FUNCTION_CALL l (Group ty' a)"]
proof (intro allI impI)
  fix items :: "'n item list" and t ts and s :: 's
  assume edge: "list_all (top_shifts items) (left_edge (Binary_Op ty FUNCTION_CALL l (Group ty' a)))"
  have g: "list_all (top_shifts items) (left_edge l)" "top_shifts items (Const 259)"
    "list_all (\<lambda>p. continues (Const 259) \<longrightarrow> \<not> shifts p (Const 259)) (right_edge l)"
    using assms(3) edge by (simp_all add: list_all_iff next_sign_def)
  show "lr_run A (items, No_Operand, tokens_of (Binary_Op ty FUNCTION_CALL l (Group ty' a)) @ t # ts, s) =
       sbind (run_actions A (Binary_Op ty FUNCTION_CALL l (Group ty' a)) s) (\<lambda>(n, s). lr_run A (items, Operand n, t # ts, s))"
    using buildsD [OF assms(1) g(1,3), of "tokens_of a @ Const 260 # t # ts" s]
    by (simp add: run_call [OF g(2)] builds_closed [OF assms(2)] run_close sbind_assoc split_def)
qed

lemma builds_ternary:
  fixes A :: "('n, 's) actions"
  assumes "builds A a" "builds A b" "builds A c" "oper = TERNARY_CONDITIONAL"
  shows "builds A (Ternary_Op ty oper a b c)"
  unfolding builds_def [of A "Ternary_Op ty oper a b c"]
  by (simp add: assms(4) run_open builds_closed [OF assms(1)] builds_closed [OF assms(2)] builds_closed [OF assms(3)]
      run_ternary run_close sbind_assoc split_def)

lemma builds_grammatical: "grammatical e \<Longrightarrow> builds A e \<and> (\<forall>ty a. e = Group ty a \<longrightarrow> builds A a)"
proof (induction e)
  case (Binary_Op ty oper l r)
  show ?case
  proof (cases "oper = FUNCTION_CALL")
    case True
    then obtain ty' a where r: "r = Group ty' a" using Binary_Op.prems by (auto split: expr.splits)
    have "builds A l" "builds A a" using Binary_Op.IH Binary_Op.prems r by simp_all
    with builds_call Binary_Op.prems True r show ?thesis by blast
  next
    case False
    have "builds A l" "builds A r" using Binary_Op.IH Binary_Op.prems by simp_all
    with builds_infix Binary_Op.prems False show ?thesis by blast
  qed
qed (auto intro: builds_group builds_unary builds_ternary, auto simp: builds_def run_atom)

subsection \<open>Building the tree\<close>

text \<open>The actions that build the tree itself; the state is not used.\<close>

fun tree_atom :: "token \<Rightarrow> unit \<Rightarrow> (expr \<times> unit) result" where
  "tree_atom (Tok_Bool b) s = Inr (Literal_Bool b, s)"
| "tree_atom (Tok_Int n) s = Inr (Literal_Int n, s)"
| "tree_atom (Tok_Float x) s = Inr (Literal_Float x, s)"
| "tree_atom (Tok_Char c) s = Inr (Literal_Char c, s)"
| "tree_atom (Tok_String str) s = Inr (Literal_String str, s)"
| "tree_atom (Tok_Ident name) s = Inr (Ident TYPE_UNKNWN name, s)"
| "tree_atom t s = Inl Bad_Node"

definition tree_actions :: "(expr, unit) actions" where
  "tree_actions =
     \<lparr>act_atom = tree_atom, act_group = (\<lambda>e s. Inr (Group TYPE_UNKNWN e, s)),
      act_unary = (\<lambda>oper e s. Inr (Unary_Op TYPE_UNKNWN oper e, s)),
      act_binary = (\<lambda>oper l r s. Inr (Binary_Op TYPE_UNKNWN oper l r, s)),
      act_ternary = (\<lambda>oper a b c s. Inr (Ternary_Op TYPE_UNKNWN oper a b c, s))\<rparr>"

lemma run_tree_actions: "grammatical e \<Longrightarrow> run_actions tree_actions e s = Inr (e, s)"
  by (induction e) (auto simp: tree_actions_def)

lemma run_ended: "\<not> continues t \<Longrightarrow> lr_run A ([], Operand n, t # ts, s) = Inr ([], Operand n, t # ts, s)"
  by (subst lr_run.simps) simp

lemma run_expression:
  fixes A :: "('n, 's) actions"
  assumes "grammatical e" "\<not> continues t"
  shows "lr_run A ([], No_Operand, tokens_of e @ t # ts, s) =
    sbind (run_actions A e s) (\<lambda>(n, s). Inr ([], Operand n, t # ts, s))"
proof -
  have A: "builds A e" using builds_grammatical [OF assms(1)] by blast
  have "top_shifts ([] :: 'n item list) t" for t by simp
  from builds_closed [OF A this assms(2)] assms(2) show ?thesis by (simp add: run_ended)
qed

lemma run_tree_expression:
  assumes "grammatical e" "\<not> continues t"
  shows "lr_run tree_actions ([], No_Operand, tokens_of e @ t # ts, ()) = Inr ([], Operand e, t # ts, ())"
  using run_expression [OF assms, of tree_actions ts "()"] run_tree_actions [OF assms(1)] by simp

subsection \<open>What the automaton accepts\<close>

text \<open>
  The begun rules of a stack of the automaton, with the tokens they have read; every operator in
  it was shifted over what lies below.
\<close>

fun item_tokens :: "expr item \<Rightarrow> symbol list" where
  "item_tokens (Infix oper l) = tokens_of l @ [sign_of oper]"
| "item_tokens (Prefix oper) = [Character (if oper = LOGICAL_NOT then CHR ''!'' else CHR ''-'')]"
| "item_tokens Paren = [Const 259]"
| "item_tokens (Then a) = Const 259 # tokens_of a @ [Character (CHR ''?'')]"
| "item_tokens (Else a b) = Const 259 # tokens_of a @ Character (CHR ''?'') # tokens_of b @ [Character (CHR '':'')]"
| "item_tokens (Call f) = tokens_of f @ [Const 259]"

fun stack_tokens :: "expr item list \<Rightarrow> symbol list" where
  "stack_tokens [] = []"
| "stack_tokens (i # items) = stack_tokens items @ item_tokens i"

fun stack_ok :: "expr item list \<Rightarrow> bool" where
  "stack_ok [] = True"
| "stack_ok (Infix oper l # items) =
     (stack_ok items \<and> grammatical l \<and> oper \<in> snd ` set binary_signs \<and> list_all (top_shifts items) (left_edge l) \<and>
      top_shifts items (sign_of oper) \<and> list_all (\<lambda>p. \<not> shifts p (sign_of oper)) (right_edge l))"
| "stack_ok (Prefix oper # items) = (stack_ok items \<and> (oper = LOGICAL_NOT \<or> oper = UNARY_MINUS))"
| "stack_ok (Paren # items) = stack_ok items"
| "stack_ok (Then a # items) = (stack_ok items \<and> grammatical a)"
| "stack_ok (Else a b # items) = (stack_ok items \<and> grammatical a \<and> grammatical b)"
| "stack_ok (Call f # items) =
     (stack_ok items \<and> grammatical f \<and> list_all (top_shifts items) (left_edge f) \<and>
      top_shifts items (Const 259) \<and> list_all (\<lambda>p. \<not> shifts p (Const 259)) (right_edge f))"

fun read_so_far :: "(expr, unit) config \<Rightarrow> symbol list \<Rightarrow> bool" where
  "read_so_far (items, No_Operand, ts, s) all \<longleftrightarrow> stack_ok items \<and> all = stack_tokens items @ ts"
| "read_so_far (items, Operand n, ts, s) all \<longleftrightarrow> stack_ok items \<and> all = stack_tokens items @ tokens_of n @ ts \<and>
     grammatical n \<and> list_all (top_shifts items) (left_edge n) \<and>
     (\<forall>t ts'. ts = t # ts' \<longrightarrow> continues t \<longrightarrow> list_all (\<lambda>p. \<not> shifts p t) (right_edge n))"

lemma tree_atom_read:
  "atom_token tok \<Longrightarrow> \<exists>n. tree_atom tok s = Inr (n, s) \<and> grammatical n \<and> tokens_of n = [Value tok] \<and>
     left_edge n = [] \<and> right_edge n = []"
  by (cases tok) simp_all

lemma sign_of_binary: "map_of binary_signs t = Some oper \<Longrightarrow> t = sign_of oper \<and> oper \<in> snd ` set binary_signs"
  by (auto simp: binary_signs_def sign_of_def split: if_splits)

lemma top_of_begun:
  "top_shifts (Infix oper l # items) = shifts oper" "top_shifts (Prefix oper # items) = shifts oper"
  by (simp_all add: fun_eq_iff)

lemma read_start:
  assumes "lr_start tree_actions items t ts s = Inr (Some c')" "stack_ok items"
  shows "read_so_far c' (stack_tokens items @ t # ts)"
proof (cases t)
  case (Value tok)
  with assms(1) have "atom_token tok" by (auto simp: lr_start_def split: if_splits)
  with assms Value tree_atom_read [of tok s] show ?thesis
    by (auto simp: lr_start_def tree_actions_def)
qed (use assms in \<open>auto simp: lr_start_def split: if_splits\<close>)

lemma read_shift:
  assumes "lr_shift items n t ts s = Inr (Some c')" "read_so_far (items, Operand n, t # ts, s) all"
    "continues t" "top_shifts items t"
  shows "read_so_far c' all"
proof (cases "map_of binary_signs t")
  case None
  with assms show ?thesis by (auto simp: lr_shift_def split: if_splits)
next
  case (Some oper)
  with assms sign_of_binary [OF Some] show ?thesis by (auto simp: lr_shift_def del: imageE)
qed

lemma read_reduce:
  assumes "lr_reduce tree_actions items n t ts s = Inr (Some c')" "read_so_far (items, Operand n, t # ts, s) all"
    "\<not> (continues t \<and> top_shifts items t)"
  shows "read_so_far c' all"
proof (cases items)
  case (Cons i items')
  then show ?thesis
  proof (cases i)
    case (Infix oper l)
    with Cons assms have "oper \<noteq> FUNCTION_CALL" using sign_continues by auto
    with Cons Infix assms show ?thesis by (auto simp: tree_actions_def next_sign_def top_of_begun del: imageE)
  qed (use assms Cons in \<open>auto simp: tree_actions_def next_sign_def top_of_begun split: if_splits\<close>)
qed (use assms in simp)

lemma read_step: "lr_step tree_actions c = Inr (Some c') \<Longrightarrow> read_so_far c all \<Longrightarrow> read_so_far c' all"
proof (cases "(tree_actions, c)" rule: lr_step.cases)
  case (3 A items n t ts s)
  assume "lr_step tree_actions c = Inr (Some c')" "read_so_far c all"
  with 3 show ?thesis using read_shift read_reduce by (cases "continues t \<and> top_shifts items t") auto
qed (auto dest: read_start)

lemma read_run:
  "lr_run A c = Inr c' \<Longrightarrow> A = tree_actions \<Longrightarrow> read_so_far c all \<Longrightarrow> read_so_far c' all \<and> lr_step tree_actions c' = Inr None"
proof (induction A c rule: lr_run.induct)
  case (1 A c)
  show ?case
  proof (cases "lr_step A c")
    case (Inr r)
    show ?thesis
    proof (cases r)
      case None
      with 1 Inr show ?thesis by (simp add: lr_run.simps [of tree_actions c])
    next
      case (Some c1)
      then have "lr_run tree_actions c1 = Inr c'" using 1(2,3) Inr by (simp add: lr_run_step)
      moreover have "read_so_far c1 all" using read_step 1(3,4) Inr Some by blast
      ultimately show ?thesis using 1(1) [OF Inr Some] 1(3) by simp
    qed
  qed (use 1 in \<open>simp add: lr_run.simps [of tree_actions c]\<close>)
qed

subsection \<open>Properties\<close>

text \<open>
  The parser reads an expression by its precedences. The tokens of a tree that follows the
  declared precedences, before a token that does not go on with it, make the automaton run
  exactly the actions of \<open>parse_expr\<close> for that tree and stop in front of that token, with the
  node they return or with their fault.
\<close>

theorem expression_parsed:
  assumes "grammatical e" "\<not> continues t"
  shows "lr_run yacc_actions ([], No_Operand, tokens_of e @ t # ts, s) =
    sbind (parse_expr e s) (\<lambda>(p, s). Inr ([], Operand p, t # ts, s))"
  unfolding parse_expr_actions by (rule run_expression [OF assms])

text \<open>The tree of \<open>a = b - c - d(e)\<close>.\<close>

definition demo_tree :: expr where
  "demo_tree = Binary_Op 0 ASSIGNMENT (Ident 0 ''a'')
     (Binary_Op 0 SUBTRACTION (Binary_Op 0 SUBTRACTION (Ident 0 ''b'') (Ident 0 ''c''))
       (Binary_Op 0 FUNCTION_CALL (Ident 0 ''d'') (Group 0 (Ident 0 ''e''))))"

lemma demo_tree_grammatical: "grammatical demo_tree"
  by (simp add: demo_tree_def binary_signs_def sign_of_def next_sign_def shifts_def token_prec_def)

lemma newline_ends: "\<not> continues (Character newline)"
proof -
  have "newline \<noteq> CHR '',''" "newline \<noteq> CHR ''=''" "newline \<noteq> CHR ''+''" "newline \<noteq> CHR ''-''"
    "newline \<noteq> CHR ''*''" "newline \<noteq> CHR ''/''"
    unfolding newline_def by code_simp+
  then show ?thesis by (simp add: continues_def binary_signs_def)
qed

lemma expression_parsed_witness:
  "lr_run yacc_actions ([], No_Operand, tokens_of demo_tree @ [Character newline], front_init lexer_init) =
    sbind (parse_expr demo_tree (front_init lexer_init)) (\<lambda>(p, s). Inr ([], Operand p, [Character newline], s))"
  by (rule expression_parsed [OF demo_tree_grammatical newline_ends])

definition encoded_precedence :: "operator \<Rightarrow> nat" where
  "encoded_precedence oper = unat (drop_bit 20 (operator_code oper) AND 0xf)"

lemma encoded_levels:
  "encoded_precedence FUNCTION_CALL = 2" "encoded_precedence LOGICAL_NOT = 2" "encoded_precedence UNARY_MINUS = 2"
  "encoded_precedence MULTIPLICATION = 3" "encoded_precedence DIVISION = 3" "encoded_precedence ADDITION = 4"
  "encoded_precedence SUBTRACTION = 4" "encoded_precedence LESS_THAN = 6" "encoded_precedence NOT_LESS_THAN = 6"
  "encoded_precedence GREATER_THAN = 6" "encoded_precedence NOT_GREATER_THAN = 6" "encoded_precedence EQUAL_TO = 7"
  "encoded_precedence NOT_EQUAL_TO = 7" "encoded_precedence ASSIGNMENT = 14" "encoded_precedence COMMA = 15"
  by (simp_all add: encoded_precedence_def OP_PRECED_def)

lemma ltr_associative:
  "IS_LTR_ASSOCIATIVE (operator_code oper) \<longleftrightarrow> oper \<notin> {BITWISE_NOT, LOGICAL_NOT, ASSIGNMENT, TERNARY_CONDITIONAL}"
  by (cases oper) (simp_all add: IS_LTR_ASSOCIATIVE_def OP_PRECED_def)

lemma next_sign_prec:
  "token_prec (next_sign FUNCTION_CALL) = Some (9, Assoc_None)"
  "token_prec (next_sign MULTIPLICATION) = Some (7, Assoc_Left)" "token_prec (next_sign DIVISION) = Some (7, Assoc_Left)"
  "token_prec (next_sign ADDITION) = Some (6, Assoc_Left)" "token_prec (next_sign SUBTRACTION) = Some (6, Assoc_Left)"
  "token_prec (next_sign LESS_THAN) = Some (5, Assoc_Left)" "token_prec (next_sign NOT_LESS_THAN) = Some (5, Assoc_Left)"
  "token_prec (next_sign GREATER_THAN) = Some (5, Assoc_Left)" "token_prec (next_sign NOT_GREATER_THAN) = Some (5, Assoc_Left)"
  "token_prec (next_sign EQUAL_TO) = Some (4, Assoc_Left)" "token_prec (next_sign NOT_EQUAL_TO) = Some (4, Assoc_Left)"
  "token_prec (next_sign ASSIGNMENT) = Some (3, Assoc_Right)" "token_prec (next_sign COMMA) = Some (2, Assoc_Left)"
  by (simp_all add: next_sign_def sign_of_def binary_signs_def token_prec_def)

lemma infix_operators:
  "snd ` set binary_signs = {COMMA, ASSIGNMENT, ADDITION, SUBTRACTION, MULTIPLICATION, DIVISION, EQUAL_TO, NOT_EQUAL_TO,
     LESS_THAN, NOT_GREATER_THAN, GREATER_THAN, NOT_LESS_THAN}"
  by (simp add: binary_signs_def)

text \<open>
  C17. The precedences declared in \<open>parser.y\<close> are the ones encoded in the operators of
  \<open>operator.h\<close>: in front of the sign of an infix operator or of a call, the parser shifts inside
  the rule of another operator exactly when the encoding of the new operator has the smaller
  precedence number, or the same one and the old operator associates to the right.
\<close>

theorem precedence_as_encoded:
  assumes "oper \<in> {LOGICAL_NOT, UNARY_MINUS} \<union> snd ` set binary_signs" "oper' \<in> {FUNCTION_CALL} \<union> snd ` set binary_signs"
  shows "shifts oper (next_sign oper') \<longleftrightarrow>
    encoded_precedence oper' < encoded_precedence oper \<or>
    encoded_precedence oper' = encoded_precedence oper \<and> \<not> IS_LTR_ASSOCIATIVE (operator_code oper)"
  using assms unfolding infix_operators ltr_associative Un_insert_left Un_empty_left insert_iff empty_iff
  by (elim disjE) (simp_all add: shifts_def next_sign_prec encoded_levels)

lemma precedence_as_encoded_witness:
  "shifts SUBTRACTION (next_sign MULTIPLICATION) \<and> \<not> shifts SUBTRACTION (next_sign SUBTRACTION) \<and>
   shifts ASSIGNMENT (next_sign ASSIGNMENT)"
  using precedence_as_encoded [of SUBTRACTION MULTIPLICATION] precedence_as_encoded [of SUBTRACTION SUBTRACTION]
    precedence_as_encoded [of ASSIGNMENT ASSIGNMENT]
  by (simp add: infix_operators encoded_levels ltr_associative del: operator_code.simps)


lemma expression_unambiguous:
  assumes "grammatical e" "grammatical e'" "tokens_of e = tokens_of e'"
  shows "e = e'"
proof -
  note run = run_tree_expression [OF assms(1) newline_ends, of "[]", unfolded assms(3)]
    run_tree_expression [OF assms(2) newline_ends, of "[]"]
  then show ?thesis by (simp only: sum.inject prod.inject operand.inject)
qed

text \<open>
  C40. A unary minus takes the name of the function away from a call: \<open>-f(a)\<close> is read as the call
  of \<open>-f\<close>, which the compiler gives up on. The tree of the minus of a call is none the parser
  ever builds, although the reference manual ranks the call above every prefix operator.
\<close>

theorem unary_minus_takes_callee:
  assumes "grammatical a"
  shows "\<exists>e. lr_run tree_actions ([], No_Operand, [Character (CHR ''-''), Value (Tok_Ident f), Const 259] @
        tokens_of a @ [Const 260, Character newline], ()) = Inr ([], Operand e, [Character newline], ()) \<and>
      compile_expression fuel e c = compiler_panic ''dont know how to build member function call yet'' \<and>
      \<not> grammatical (Unary_Op 0 UNARY_MINUS (Binary_Op 0 FUNCTION_CALL (Ident 0 f) (Group 0 a)))"
proof -
  let ?e = "Binary_Op 0 FUNCTION_CALL (Unary_Op 0 UNARY_MINUS (Ident 0 f)) (Group 0 a)"
  have g: "grammatical ?e" using assms by (simp add: shifts_def token_prec_def)
  have "lr_run tree_actions ([], No_Operand, tokens_of ?e @ [Character newline], ()) = Inr ([], Operand ?e, [Character newline], ())"
    by (rule run_tree_expression [OF g newline_ends])
  moreover have "compile_expression fuel ?e c = compiler_panic ''dont know how to build member function call yet''" by simp
  moreover have "\<not> grammatical (Unary_Op 0 UNARY_MINUS (Binary_Op 0 FUNCTION_CALL (Ident 0 f) (Group 0 a)))"
    by (simp add: next_sign_def shifts_def token_prec_def)
  ultimately show ?thesis by (intro exI [of _ ?e]) simp
qed

lemma unary_minus_takes_callee_witness:
  "\<exists>e. lr_run tree_actions ([], No_Operand, [Character (CHR ''-''), Value (Tok_Ident ''f''), Const 259,
        Value (Tok_Int 1), Const 260, Character newline], ()) = Inr ([], Operand e, [Character newline], ()) \<and>
      compile_expression 0 e (compiler_init True) = compiler_panic ''dont know how to build member function call yet''"
  using unary_minus_takes_callee [of "Literal_Int 1" "''f''" 0 "compiler_init True"] by auto

end
