(* ===== verification/Yyparse.thy ===== *)
theory Yyparse
  imports Grammar
begin

text \<open>
  The whole parser: the rules of \<open>parser.y\<close> as the automaton bison makes of them, which calls the
  scanner when it needs a token to go on and the actions when it reduces. A lookahead is read
  only in states with more than one action; where a state can reduce, it reduces for every token
  it cannot shift. A token that fits nowhere ends the parse with \<open>syntax error\<close>: the grammar has
  no error rules.
\<close>

subsection \<open>States\<close>

text \<open>A begun statement whose block is being read, and a block with the statements read so far.\<close>

datatype branch = If_Branch | Elif_Branch

datatype hole =
    In_Block "node option"
  | In_Then branch "node option"
  | In_Else branch "node option" "node option"
  | In_Elif branch "node option" "node option"
  | In_While "node option"
  | In_Choice "node option" "node list" "node option"
  | In_Func string "node option" "string option"

text \<open>What an expression is read for, and the place in a rule.\<close>

datatype goal = For_Stat | For_Cond branch | For_While | For_Return | For_Switch

datatype mode =
    At_Start
  | At_Stat
  | At_Expr goal "node option item list" "node option operand"
  | At_Ident goal "node option item list" string
  | At_Scope
  | At_Open
  | At_Scope_End "node option"
  | At_Branch branch "node option" "node option"
  | At_Branch_End branch "node option"
  | At_Stat_End "node option"
  | At_Switch_Open "node option"
  | At_Choices "node option" "node list"
  | At_Case "node option" "node list"
  | At_Func
  | At_Func_Name string
  | At_Args string
  | At_Args_End string "node option"
  | At_Param string "node option"
  | At_Param_Name string "node option" string
  | At_Ret string "node option"

type_synonym parser = "hole list \<times> mode \<times> symbol option \<times> string \<times> front"

definition FLUSH :: "symbol \<Rightarrow> bool" where
  "FLUSH t \<longleftrightarrow> t = Character (CHR '';'') \<or> t = Character newline"

definition ident_of :: "symbol \<Rightarrow> string option" where
  "ident_of t = (case t of Value (Tok_Ident name) \<Rightarrow> Some name | _ \<Rightarrow> None)"

text \<open>One call of the scanner.\<close>

definition fetch :: "hole list \<Rightarrow> mode \<Rightarrow> string \<Rightarrow> front \<Rightarrow> parser option result" where
  "fetch hs m yytext s =
     sbind (yylex (f_lexer s) yytext) (\<lambda>(errors, t, lexer, rest).
       Inr (Some (hs, m, Some t, rest, s\<lparr>f_lexer := lexer, f_errors := f_errors s @ errors\<rparr>)))"

subsection \<open>Statements\<close>

definition Statement :: "hole list \<Rightarrow> symbol \<Rightarrow> string \<Rightarrow> front \<Rightarrow> parser option result" where
  "Statement hs t yytext s =
     (if t = Const 261 then Inr (Some (hs, At_Open, None, yytext, s))
      else if t = Value Tok_If then Inr (Some (hs, At_Expr (For_Cond If_Branch) [] No_Operand, None, yytext, s))
      else if t = Value Tok_While then Inr (Some (hs, At_Expr For_While [] No_Operand, None, yytext, s))
      else if t = Value Tok_Switch then Inr (Some (hs, At_Expr For_Switch [] No_Operand, None, yytext, s))
      else if t = Const 270 then Inr (Some (hs, At_Expr For_Return [] No_Operand, None, yytext, s))
      else if t = Value Tok_Func then Inr (Some (hs, At_Func, None, yytext, s))
      else if t = Const 262 then
        (case hs of
           In_Block l # hs' \<Rightarrow> sbind (ast_new_node_scope l s) (\<lambda>(n, s). Inr (Some (hs', At_Scope_End n, None, yytext, s)))
         | _ \<Rightarrow> Inr None)
      else if t = Value Tok_End then Inr None
      else Inr (Some (hs, At_Expr For_Stat [] No_Operand, Some t, yytext, s)))"

text \<open>\<open>BRACE_OPEN _FLUSH\<close>: an optional line break or semicolon behind the brace.\<close>

definition Scope :: "hole list \<Rightarrow> symbol \<Rightarrow> string \<Rightarrow> front \<Rightarrow> parser option result" where
  "Scope hs t yytext s =
     sbind (ast_new_node_stat_list None s) (\<lambda>(l, s).
       Inr (Some (In_Block l # hs, At_Stat, if FLUSH t then None else Some t, yytext, s)))"

text \<open>The end of a block.\<close>

fun Scope_end :: "nat \<Rightarrow> hole list \<Rightarrow> node option \<Rightarrow> symbol option \<Rightarrow> string \<Rightarrow> front \<Rightarrow> parser option result" where
  "Scope_end fuel (In_Then b e # hs) n la yytext s = Inr (Some (hs, At_Branch b e n, la, yytext, s))"
| "Scope_end fuel (In_Else b e t # hs) n la yytext s =
     sbind (ast_new_node_stat_if fuel e t n s) (\<lambda>(p, s). Inr (Some (hs, At_Branch_End b p, la, yytext, s)))"
| "Scope_end fuel (In_While e # hs) n la yytext s =
     sbind (ast_new_node_stat_while fuel e n s) (\<lambda>(p, s). Inr (Some (hs, At_Stat_End p, la, yytext, s)))"
| "Scope_end fuel (In_Choice e chain lit # hs) n la yytext s =
     sbind (ast_new_node_stat_switch_choice lit n chain s) (\<lambda>(p, chain', s).
       Inr (Some (hs, At_Choices e (if chain = [] then opt_list p else chain'), la, yytext, s)))"
| "Scope_end fuel (In_Func name l ret # hs) n la yytext s =
     sbind (ast_new_node_decl_func fuel name l ret n s) (\<lambda>(p, s). Inr (Some (hs, At_Stat_End p, la, yytext, s)))"
| "Scope_end fuel hs n la yytext s = Inr (Some (hs, At_Stat_End n, la, yytext, s))"

text \<open>Behind a selection's block: \<open>else\<close>, \<open>elif\<close>, or the end of the selection.\<close>

definition SelectionStatement ::
  "nat \<Rightarrow> hole list \<Rightarrow> branch \<Rightarrow> node option \<Rightarrow> node option \<Rightarrow> symbol \<Rightarrow> string \<Rightarrow> front \<Rightarrow> parser option result" where
  "SelectionStatement fuel hs b e n t yytext s =
     (if t = Const 273 then Inr (Some (In_Else b e n # hs, At_Scope, None, yytext, s))
      else if t = Const 272
      then Inr (Some (In_Elif b e n # hs, At_Expr (For_Cond Elif_Branch) [] No_Operand, None, yytext, s))
      else sbind (ast_new_node_stat_if fuel e n None s) (\<lambda>(p, s). Inr (Some (hs, At_Branch_End b p, Some t, yytext, s))))"

fun elifSelectionBlock ::
  "nat \<Rightarrow> hole list \<Rightarrow> branch \<Rightarrow> node option \<Rightarrow> symbol option \<Rightarrow> string \<Rightarrow> front \<Rightarrow> parser option result" where
  "elifSelectionBlock fuel (In_Elif b e t # hs) Elif_Branch p la yytext s =
     sbind (ast_new_node_stat_if fuel e t p s) (\<lambda>(p, s). Inr (Some (hs, At_Branch_End b p, la, yytext, s)))"
| "elifSelectionBlock fuel hs b p la yytext s = Inr (Some (hs, At_Stat_End p, la, yytext, s))"

text \<open>A statement is linked into its block; at the top level nothing is kept.\<close>

fun Statements :: "hole list \<Rightarrow> node option \<Rightarrow> symbol \<Rightarrow> string \<Rightarrow> front \<Rightarrow> parser option result" where
  "Statements hs p t yytext s =
     (if FLUSH t then Inr (Some (hs, At_Stat_End p, None, yytext, s))
      else case hs of
             [] \<Rightarrow> Inr (Some ([], At_Stat, Some t, yytext, s))
           | In_Block l # hs' \<Rightarrow>
               sbind (ast_link_node_stat_list l p s) (\<lambda>(l, s). Inr (Some (In_Block l # hs', At_Stat, Some t, yytext, s)))
           | _ \<Rightarrow> Inr None)"

subsection \<open>Expressions\<close>

text \<open>The token behind a complete expression.\<close>

fun Expression_end :: "nat \<Rightarrow> hole list \<Rightarrow> goal \<Rightarrow> node option \<Rightarrow> symbol \<Rightarrow> string \<Rightarrow> front \<Rightarrow> parser option result" where
  "Expression_end fuel hs For_Stat n t yytext s =
     (if FLUSH t then sbind (ast_new_node_stat_expr fuel n s) (\<lambda>(p, s). Inr (Some (hs, At_Stat_End p, None, yytext, s)))
      else Inr None)"
| "Expression_end fuel hs (For_Cond b) n t yytext s =
     (if t = Const 261 then Inr (Some (In_Then b n # hs, At_Open, None, yytext, s)) else Inr None)"
| "Expression_end fuel hs For_While n t yytext s =
     (if t = Const 261 then Inr (Some (In_While n # hs, At_Open, None, yytext, s)) else Inr None)"
| "Expression_end fuel hs For_Switch n t yytext s =
     (if t = Const 261 then Inr (Some (hs, At_Switch_Open n, None, yytext, s)) else Inr None)"
| "Expression_end fuel hs For_Return n t yytext s =
     sbind (ast_new_node_stat_ret n s) (\<lambda>(p, s). Inr (Some (hs, At_Stat_End p, Some t, yytext, s)))"

text \<open>
  A step inside an expression is one of the automaton of \<open>Grammar\<close>. Behind a name the parser looks
  for a second one, which makes it a declaration.
\<close>

definition Expression ::
  "nat \<Rightarrow> hole list \<Rightarrow> goal \<Rightarrow> node option item list \<Rightarrow> node option operand \<Rightarrow> symbol \<Rightarrow> string \<Rightarrow> front \<Rightarrow> parser option result" where
  "Expression fuel hs g items opd t yytext s =
     (case (opd, ident_of t) of
        (No_Operand, Some name) \<Rightarrow> Inr (Some (hs, At_Ident g items name, None, yytext, s))
      | _ \<Rightarrow>
          sbind (lr_step yacc_actions (items, opd, [t], s)) (\<lambda>r.
            case r of
              Some (items', opd', ts, s) \<Rightarrow>
                Inr (Some (hs, At_Expr g items' opd', if ts = [] then None else Some t, yytext, s))
            | None \<Rightarrow>
                (case (items, opd) of ([], Operand n) \<Rightarrow> Expression_end fuel hs g n t yytext s | _ \<Rightarrow> Inr None)))"

definition Identifier ::
  "hole list \<Rightarrow> goal \<Rightarrow> node option item list \<Rightarrow> string \<Rightarrow> symbol \<Rightarrow> string \<Rightarrow> front \<Rightarrow> parser option result" where
  "Identifier hs g items name t yytext s =
     (case ident_of t of
        Some name2 \<Rightarrow>
          sbind (ast_new_node_decl_var name2 name s) (\<lambda>(n, s). Inr (Some (hs, At_Expr g items (Operand n), None, yytext, s)))
      | None \<Rightarrow>
          sbind (yacc_atom (Tok_Ident name) s) (\<lambda>(n, s). Inr (Some (hs, At_Expr g items (Operand n), Some t, yytext, s))))"

subsection \<open>Switches\<close>

definition switchSelectionBlock ::
  "hole list \<Rightarrow> node option \<Rightarrow> node list \<Rightarrow> symbol \<Rightarrow> string \<Rightarrow> front \<Rightarrow> parser option result" where
  "switchSelectionBlock hs e chain t yytext s =
     (if t = Const 278 then Inr (Some (hs, At_Case e chain, None, yytext, s))
      else if t = Const 279 then Inr (Some (In_Choice e chain None # hs, At_Scope, None, yytext, s))
      else if t = Const 262 \<and> chain \<noteq> []
      then sbind (ast_new_node_stat_switch e chain s) (\<lambda>(p, s). Inr (Some (hs, At_Stat_End p, None, yytext, s)))
      else Inr None)"

definition ConstantExpression ::
  "hole list \<Rightarrow> node option \<Rightarrow> node list \<Rightarrow> symbol \<Rightarrow> string \<Rightarrow> front \<Rightarrow> parser option result" where
  "ConstantExpression hs e chain t yytext s =
     (case t of
        Value tok \<Rightarrow>
          if atom_token tok \<and> ident_of t = None
          then sbind (yacc_atom tok s) (\<lambda>(n, s). Inr (Some (In_Choice e chain n # hs, At_Scope, None, yytext, s)))
          else Inr None
      | _ \<Rightarrow> Inr None)"

subsection \<open>Functions\<close>

definition FuncArgList :: "hole list \<Rightarrow> string \<Rightarrow> symbol \<Rightarrow> string \<Rightarrow> front \<Rightarrow> parser option result" where
  "FuncArgList hs name t yytext s =
     (case ident_of t of
        Some type_name \<Rightarrow> Inr (Some (hs, At_Param_Name name None type_name, None, yytext, s))
      | None \<Rightarrow> sbind (ast_new_node_func_arg_list None s) (\<lambda>(l, s). Inr (Some (hs, At_Args_End name l, Some t, yytext, s))))"

definition VarDeclaration ::
  "hole list \<Rightarrow> string \<Rightarrow> node option \<Rightarrow> string \<Rightarrow> symbol \<Rightarrow> string \<Rightarrow> front \<Rightarrow> parser option result" where
  "VarDeclaration hs name l type_name t yytext s =
     (case ident_of t of
        Some arg \<Rightarrow>
          (case l of
             None \<Rightarrow>
               sbind (ast_new_node_decl_var arg type_name s) (\<lambda>(v, s).
               sbind (ast_new_node_func_arg_list v s) (\<lambda>(l, s). Inr (Some (hs, At_Args_End name l, None, yytext, s))))
           | Some _ \<Rightarrow> Inr (Some (hs, At_Args_End name (link_args [(arg, type_name)] l), None, yytext, s)))
      | None \<Rightarrow> Inr None)"

definition FuncDeclaration :: "hole list \<Rightarrow> mode \<Rightarrow> symbol \<Rightarrow> string \<Rightarrow> front \<Rightarrow> parser option result" where
  "FuncDeclaration hs m t yytext s =
     (case m of
        At_Func \<Rightarrow>
          (case ident_of t of
             Some name \<Rightarrow> Inr (Some (hs, At_Func_Name name, None, yytext, s))
           | None \<Rightarrow> Inr None)
      | At_Func_Name name \<Rightarrow> if t = Const 259 then Inr (Some (hs, At_Args name, None, yytext, s)) else Inr None
      | At_Args name \<Rightarrow> FuncArgList hs name t yytext s
      | At_Args_End name l \<Rightarrow>
          if t = Const 260 then Inr (Some (hs, At_Ret name l, None, yytext, s))
          else if t = Character (CHR '','') then Inr (Some (hs, At_Param name l, None, yytext, s))
          else Inr None
      | At_Param name l \<Rightarrow>
          (case ident_of t of
             Some type_name \<Rightarrow> Inr (Some (hs, At_Param_Name name l type_name, None, yytext, s))
           | None \<Rightarrow> Inr None)
      | At_Param_Name name l type_name \<Rightarrow> VarDeclaration hs name l type_name t yytext s
      | At_Ret name l \<Rightarrow>
          (case ident_of t of
             Some ret \<Rightarrow> Inr (Some (In_Func name l (Some ret) # hs, At_Scope, None, yytext, s))
           | None \<Rightarrow>
               if t = Const 261 then Inr (Some (In_Func name l None # hs, At_Open, None, yytext, s)) else Inr None)
      | _ \<Rightarrow> Inr None)"

subsection \<open>The parser\<close>

definition yy_act :: "nat \<Rightarrow> hole list \<Rightarrow> mode \<Rightarrow> symbol \<Rightarrow> string \<Rightarrow> front \<Rightarrow> parser option result" where
  "yy_act fuel hs m t yytext s =
     (case m of
        At_Start \<Rightarrow> Statement hs t yytext s
      | At_Stat \<Rightarrow> Statement hs t yytext s
      | At_Expr g items opd \<Rightarrow> Expression fuel hs g items opd t yytext s
      | At_Ident g items name \<Rightarrow> Identifier hs g items name t yytext s
      | At_Scope \<Rightarrow> if t = Const 261 then Inr (Some (hs, At_Open, None, yytext, s)) else Inr None
      | At_Open \<Rightarrow> Scope hs t yytext s
      | At_Branch b e n \<Rightarrow> SelectionStatement fuel hs b e n t yytext s
      | At_Stat_End p \<Rightarrow> Statements hs p t yytext s
      | At_Switch_Open e \<Rightarrow> Inr (Some (hs, At_Choices e [], if FLUSH t then None else Some t, yytext, s))
      | At_Choices e chain \<Rightarrow> switchSelectionBlock hs e chain t yytext s
      | At_Case e chain \<Rightarrow> ConstantExpression hs e chain t yytext s
      | _ \<Rightarrow> FuncDeclaration hs m t yytext s)"

fun yy_step :: "nat \<Rightarrow> parser \<Rightarrow> parser option result" where
  "yy_step fuel (hs, m, la, yytext, s) =
     (case m of
        At_Scope_End n \<Rightarrow> Scope_end fuel hs n la yytext s
      | At_Branch_End b p \<Rightarrow> elifSelectionBlock fuel hs b p la yytext s
      | _ \<Rightarrow> (case la of None \<Rightarrow> fetch hs m yytext s | Some t \<Rightarrow> yy_act fuel hs m t yytext s))"

text \<open>A step reads on in the text, or shifts the lookahead, or reduces.\<close>

fun mode_size :: "mode \<Rightarrow> nat" where
  "mode_size (At_Expr g items No_Operand) = length items"
| "mode_size (At_Expr g items (Operand n)) = length items + 3"
| "mode_size (At_Ident g items name) = length items + 4"
| "mode_size At_Start = 1"
| "mode_size At_Stat = 1"
| "mode_size (At_Stat_End p) = 2"
| "mode_size (At_Branch_End b p) = 3"
| "mode_size (At_Scope_End n) = 4"
| "mode_size (At_Branch b e n) = 4"
| "mode_size At_Open = 4"
| "mode_size (At_Switch_Open e) = 1"
| "mode_size (At_Args name) = 1"
| "mode_size m = 0"

fun ahead_size :: "symbol option \<Rightarrow> nat" where
  "ahead_size None = 1"
| "ahead_size (Some t) = (if t = Value Tok_End then 0 else 18)"

fun yy_size :: "parser \<Rightarrow> nat" where
  "yy_size (hs, m, la, yytext, s) = 20 * length yytext + ahead_size la + 2 * length hs + mode_size m"

lemma fetch_size: "fetch hs m yytext s = Inr (Some c) \<Longrightarrow> yy_size c < yy_size (hs, m, None, yytext, s)"
proof (cases "yytext = []")
  case False
  assume "fetch hs m yytext s = Inr (Some c)"
  then obtain errors t lexer rest where y: "yylex (f_lexer s) yytext = Inr (errors, t, lexer, rest)"
    "c = (hs, m, Some t, rest, s\<lparr>f_lexer := lexer, f_errors := f_errors s @ errors\<rparr>)"
    by (auto simp: fetch_def)
  have "length rest < length yytext" by (rule yylex_consumes [OF y(1) False])
  then show ?thesis using y(2) by simp
qed (auto simp: fetch_def yylex.simps lexer_handle_eof_def)

lemmas yy_action_defs = Statement_def Scope_def SelectionStatement_def Identifier_def switchSelectionBlock_def
  ConstantExpression_def FuncArgList_def VarDeclaration_def FuncDeclaration_def FLUSH_def ident_of_def

lemma lr_step_rest:
  "lr_step A (items, opd, t # us, s) = Inr (Some (items', opd', ts, s')) \<Longrightarrow>
   ts = us \<and> t \<noteq> Value Tok_End \<or> ts = t # us \<and> (\<exists>n n'. opd = Operand n \<and> opd' = Operand n')"
proof (cases opd)
  case No_Operand
  moreover assume "lr_step A (items, opd, t # us, s) = Inr (Some (items', opd', ts, s'))"
  ultimately show ?thesis by (auto simp: lr_start_def split: if_splits symbol.splits)
next
  case (Operand n)
  moreover assume step: "lr_step A (items, opd, t # us, s) = Inr (Some (items', opd', ts, s'))"
  ultimately consider "lr_shift items n t us s = Inr (Some (items', opd', ts, s'))" "continues t"
    | "lr_reduce A items n t us s = Inr (Some (items', opd', ts, s'))" by (auto split: if_splits)
  then show ?thesis
  proof cases
    case 1
    then show ?thesis by (auto simp: lr_shift_def continues_def binary_signs_def split: if_splits option.splits)
  next
    case 2
    then show ?thesis
      using Operand by (cases "(A, items, n, t, us, s)" rule: lr_reduce.cases) (auto split: if_splits)
  qed
qed

lemma Expression_end_size:
  "Expression_end fuel hs g n t yytext s = Inr (Some c) \<Longrightarrow> yy_size c < yy_size (hs, At_Expr g [] (Operand n), Some t, yytext, s)"
  by (cases g) (auto simp: FLUSH_def split: if_splits)

lemma Expression_cases:
  assumes "Expression fuel hs g items opd t yytext s = Inr (Some c)"
  obtains name where "opd = No_Operand" "ident_of t = Some name" "c = (hs, At_Ident g items name, None, yytext, s)"
    | items' opd' ts s' where "lr_step yacc_actions (items, opd, [t], s) = Inr (Some (items', opd', ts, s'))"
      "c = (hs, At_Expr g items' opd', if ts = [] then None else Some t, yytext, s')"
    | n where "items = []" "opd = Operand n" "Expression_end fuel hs g n t yytext s = Inr (Some c)"
proof (cases "opd = No_Operand \<and> ident_of t \<noteq> None")
  case True
  with assms that(1) show thesis by (auto simp: Expression_def)
next
  case False
  let ?k = "\<lambda>r. case r of
      Some (items', opd', ts, s) \<Rightarrow> Inr (Some (hs, At_Expr g items' opd', if ts = [] then None else Some t, yytext, s))
    | None \<Rightarrow> (case (items, opd) of ([], Operand n) \<Rightarrow> Expression_end fuel hs g n t yytext s | _ \<Rightarrow> Inr None)"
  have "Expression fuel hs g items opd t yytext s = sbind (lr_step yacc_actions (items, opd, [t], s)) ?k"
    using False by (auto simp: Expression_def split: operand.splits option.splits)
  with assms obtain r where r: "lr_step yacc_actions (items, opd, [t], s) = Inr r" "?k r = Inr (Some c)"
    unfolding sbind_eq_Inr by auto
  show thesis
  proof (cases r)
    case None
    with r(2) that(3) show thesis by (auto split: list.splits operand.splits)
  next
    case (Some a)
    obtain items' opd' ts s' where "a = (items', opd', ts, s')" by (cases a)
    with r Some that(2) show thesis by simp
  qed
qed

lemma Expression_size:
  assumes "Expression fuel hs g items opd t yytext s = Inr (Some c)"
  shows "yy_size c < yy_size (hs, At_Expr g items opd, Some t, yytext, s)"
  using assms
proof (cases rule: Expression_cases)
  case (1 name)
  then show ?thesis by (auto simp: ident_of_def split: symbol.splits token.splits)
next
  case (2 items' opd' ts s')
  with lr_step_rest [OF 2(1)] lr_step_size [OF 2(1)] show ?thesis by (cases opd; cases opd'; auto)
next
  case (3 n)
  with Expression_end_size show ?thesis by simp
qed

lemma act_size:
  assumes "yy_act fuel hs m t yytext s = Inr (Some c)"
  shows "yy_size c < yy_size (hs, m, Some t, yytext, s)"
proof (cases m)
  case (At_Expr g items opd)
  with assms Expression_size show ?thesis by (simp add: yy_act_def)
qed (use assms in \<open>auto simp: yy_act_def yy_action_defs split: if_splits option.splits list.splits hole.splits symbol.splits token.splits\<close>)

lemma Scope_end_size:
  "Scope_end fuel hs n la yytext s = Inr (Some c) \<Longrightarrow> yy_size c < yy_size (hs, At_Scope_End n, la, yytext, s)"
  by (cases "(fuel, hs, n, la, yytext, s)" rule: Scope_end.cases) auto

lemma elif_size:
  "elifSelectionBlock fuel hs b p la yytext s = Inr (Some c) \<Longrightarrow> yy_size c < yy_size (hs, At_Branch_End b p, la, yytext, s)"
  by (cases "(fuel, hs, b, p, la, yytext, s)" rule: elifSelectionBlock.cases) auto

lemma yy_step_size: "yy_step fuel c = Inr (Some c') \<Longrightarrow> yy_size c' < yy_size c"
proof (cases c)
  case (fields hs m la yytext s)
  assume step: "yy_step fuel c = Inr (Some c')"
  have *: "(case la of None \<Rightarrow> fetch hs m yytext s | Some t \<Rightarrow> yy_act fuel hs m t yytext s) = Inr (Some c') \<Longrightarrow>
    yy_size c' < yy_size (hs, m, la, yytext, s)" for m
    using fetch_size act_size by (cases la) (simp_all del: yy_size.simps)
  show ?thesis
    using step unfolding fields by (cases m) (simp_all add: * Scope_end_size elif_size del: yy_size.simps)
qed

function yy_run :: "nat \<Rightarrow> parser \<Rightarrow> parser result" where
  "yy_run fuel c = sbind (yy_step fuel c) (\<lambda>r. case r of None \<Rightarrow> Inr c | Some c' \<Rightarrow> yy_run fuel c')"
  by auto

termination
  by (relation "measure (\<lambda>(fuel, c). yy_size c)") (simp_all add: yy_step_size)

declare yy_run.simps [simp del]

text \<open>The parser returns 0 when the text ends behind a statement, and 1 after a syntax error.\<close>

definition yyparse :: "nat \<Rightarrow> string \<Rightarrow> front \<Rightarrow> (int \<times> front) result" where
  "yyparse fuel yytext s =
     sbind (yy_run fuel ([], At_Start, None, yytext, s)) (\<lambda>(hs, m, la, rest, s).
       if hs = [] \<and> m = At_Stat \<and> la = Some (Value Tok_End) then Inr (0, s)
       else Inr (1, yyerror ''syntax error'' s))"

end
