(* ===== verification/Yyparse_Expr.thy ===== *)
theory Yyparse_Expr
  imports Yyparse Grammar_Claims Scanner_Claims
begin

text \<open>
  The parser on the text of an expression: it reads the tokens one by one and takes the steps of
  the automaton of \<open>Grammar\<close>.
\<close>

subsection \<open>Reading tokens\<close>

text \<open>
  \<open>scanned t\<close> is what the scanner does to the lexer state for the symbol \<open>t\<close>; \<open>class\<close> and \<open>func\<close>,
  which can also print a message, are not in the texts considered here.
\<close>

definition scanned :: "symbol \<Rightarrow> front \<Rightarrow> front" where
  "scanned t s =
     (if t = Value Tok_If then keyword lexer_handle_keyword_if s
      else if t = Value Tok_While then keyword lexer_handle_keyword_while s
      else if t = Value Tok_Switch then keyword lexer_handle_keyword_switch s
      else s)"

definition reads_token :: "string \<Rightarrow> symbol \<Rightarrow> string \<Rightarrow> bool" where
  "reads_token yytext t rest \<longleftrightarrow>
     (\<forall>s. \<exists>st. yylex (f_lexer s) yytext = Inr ([], t, st, rest) \<and> scanned t s = s\<lparr>f_lexer := st\<rparr>)"

fun scans :: "string \<Rightarrow> symbol list \<Rightarrow> string \<Rightarrow> bool" where
  "scans yytext [] rest \<longleftrightarrow> rest = yytext"
| "scans yytext (t # ts) rest \<longleftrightarrow> (\<exists>yytext'. reads_token yytext t yytext' \<and> scans yytext' ts rest)"

lemma scans_append: "scans yytext (ts @ us) rest \<longleftrightarrow> (\<exists>mid. scans yytext ts mid \<and> scans mid us rest)"
  by (induction ts arbitrary: yytext) auto

text \<open>The state is the same until a keyword is read.\<close>

definition no_keyword :: "symbol \<Rightarrow> bool" where
  "no_keyword t \<longleftrightarrow> t \<noteq> Value Tok_If \<and> t \<noteq> Value Tok_While \<and> t \<noteq> Value Tok_Switch"

lemma scanned_no_keyword: "no_keyword t \<Longrightarrow> scanned t s = s"
  by (simp add: scanned_def no_keyword_def)

subsection \<open>Runs of the parser\<close>

lemma yy_run_step: "yy_step fuel c = Inr (Some c') \<Longrightarrow> yy_run fuel c = yy_run fuel c'"
  by (subst yy_run.simps) simp

lemma yy_run_bind:
  "yy_step fuel c = sbind m (\<lambda>(n, s). Inr (Some (f n s))) \<Longrightarrow> yy_run fuel c = sbind m (\<lambda>(n, s). yy_run fuel (f n s))"
  by (subst yy_run.simps) (cases m; auto)

fun looks_ahead :: "mode \<Rightarrow> bool" where
  "looks_ahead (At_Scope_End n) = False"
| "looks_ahead (At_Branch_End b p) = False"
| "looks_ahead m = True"

lemma yy_step_ahead:
  "looks_ahead m \<Longrightarrow> yy_step fuel (hs, m, None, yytext, s) = fetch hs m yytext s"
  "looks_ahead m \<Longrightarrow> yy_step fuel (hs, m, Some t, yytext, s) = yy_act fuel hs m t yytext s"
  by (cases m; simp)+

lemma yy_run_fetch:
  assumes "reads_token yytext t rest" "looks_ahead m"
  shows "yy_run fuel (hs, m, None, yytext, s) = yy_run fuel (hs, m, Some t, rest, scanned t s)"
proof -
  obtain st where "yylex (f_lexer s) yytext = Inr ([], t, st, rest)" "scanned t s = s\<lparr>f_lexer := st\<rparr>"
    using assms(1) by (auto simp: reads_token_def)
  then have "yy_step fuel (hs, m, None, yytext, s) = Inr (Some (hs, m, Some t, rest, scanned t s))"
    unfolding yy_step_ahead(1) [OF assms(2)] fetch_def by simp
  then show ?thesis by (rule yy_run_step)
qed

lemma yy_run_act:
  "looks_ahead m \<Longrightarrow> yy_act fuel hs m t yytext s = Inr (Some c) \<Longrightarrow> yy_run fuel (hs, m, Some t, yytext, s) = yy_run fuel c"
  by (rule yy_run_step) (simp only: yy_step_ahead)

lemma yy_run_act_bind:
  "looks_ahead m \<Longrightarrow> yy_act fuel hs m t yytext s = sbind a (\<lambda>(n, s). Inr (Some (f n s))) \<Longrightarrow>
   yy_run fuel (hs, m, Some t, yytext, s) = sbind a (\<lambda>(n, s). yy_run fuel (f n s))"
  by (rule yy_run_bind) (simp only: yy_step_ahead)

subsection \<open>Expressions\<close>

text \<open>No two names stand side by side: that would be a declaration.\<close>

fun apart :: "symbol list \<Rightarrow> bool" where
  "apart (t # u # ts) = ((ident_of t = None \<or> ident_of u = None) \<and> apart (u # ts))"
| "apart ts = True"

lemma apart_Cons: "ident_of t = None \<Longrightarrow> apart (t # ts) = apart ts"
  by (cases ts) simp_all

lemma sign_not_ident: "oper \<in> snd ` set binary_signs \<Longrightarrow> ident_of (sign_of oper) = None"
  by (auto simp: binary_signs_def sign_of_def ident_of_def)

lemma apart_tokens:
  "grammatical e \<Longrightarrow> ident_of t = None \<Longrightarrow> apart (t # ts) \<Longrightarrow> apart (tokens_of e @ t # ts)"
proof (induction e arbitrary: t ts)
  case (Binary_Op ty oper l r)
  show ?case
  proof (cases "oper = FUNCTION_CALL")
    case True
    then obtain ty' a where r: "r = Group ty' a" using Binary_Op.prems by (auto split: expr.splits)
    have "apart (tokens_of r @ t # ts)" using Binary_Op by simp
    with r have "apart (tokens_of l @ Const 259 # tokens_of a @ Const 260 # t # ts)"
      using Binary_Op.prems(1) by (intro Binary_Op.IH(1)) (simp_all add: ident_of_def)
    with r True show ?thesis by simp
  next
    case False
    then have "oper \<in> snd ` set binary_signs" using Binary_Op.prems(1) by simp
    note sign = sign_not_ident [OF this]
    have "apart (tokens_of l @ sign_of oper # tokens_of r @ t # ts)"
      by (rule Binary_Op.IH(1)) (use Binary_Op.prems Binary_Op.IH(2) sign False in \<open>simp_all add: apart_Cons\<close>)
    with False show ?thesis by simp
  qed
qed (auto simp: apart_Cons ident_of_def)

lemma no_keyword_tokens: "grammatical e \<Longrightarrow> list_all no_keyword (tokens_of e)"
proof (induction e)
  case (Binary_Op ty oper l r)
  have "no_keyword (sign_of oper)" if "oper \<in> snd ` set binary_signs"
    using that by (auto simp: binary_signs_def sign_of_def no_keyword_def)
  with Binary_Op show ?case by (auto split: if_splits)
qed (auto simp: no_keyword_def)

text \<open>A step of the automaton does not depend on the tokens behind the lookahead.\<close>

lemma lr_step_tail:
  "lr_step A (items, opd, t # us, s) =
   sbind (lr_step A (items, opd, [t], s)) (\<lambda>r. Inr (map_option (\<lambda>(items, opd, ts, s). (items, opd, ts @ us, s)) r))"
proof (cases opd)
  case No_Operand
  then show ?thesis by (auto simp: lr_start_def sbind_assoc split_def split: symbol.splits)
next
  case (Operand n)
  then show ?thesis
    by (cases "(A, items, n, t, us, s)" rule: lr_reduce.cases)
      (auto simp: lr_shift_def sbind_assoc split_def split: option.splits)
qed

lemma lr_run_tail:
  "lr_run A (items, opd, t # us, s) =
   sbind (lr_step A (items, opd, [t], s)) (\<lambda>r.
     case r of None \<Rightarrow> Inr (items, opd, t # us, s) | Some (items, opd, ts, s) \<Rightarrow> lr_run A (items, opd, ts @ us, s))"
proof (cases "lr_step A (items, opd, [t], s)")
  case (Inl f)
  then show ?thesis by (simp only: lr_run.simps [of A "(items, opd, t # us, s)"] lr_step_tail [of A items opd t us s] sbind_Inl)
next
  case (Inr r)
  then show ?thesis
    by (simp only: lr_run.simps [of A "(items, opd, t # us, s)"] lr_step_tail [of A items opd t us s] sbind_Inr)
      (simp split: option.split)
qed

lemma ident_of_Some: "ident_of t = Some name \<longleftrightarrow> t = Value (Tok_Ident name)"
  by (auto simp: ident_of_def split: symbol.splits token.splits)

lemma Expression_lr:
  "opd \<noteq> No_Operand \<or> ident_of t = None \<Longrightarrow>
   Expression fuel hs g items opd t yytext s =
     sbind (lr_step yacc_actions (items, opd, [t], s)) (\<lambda>r.
       case r of
         Some (items', opd', ts, s) \<Rightarrow>
           Inr (Some (hs, At_Expr g items' opd', if ts = [] then None else Some t, yytext, s))
       | None \<Rightarrow>
           (case (items, opd) of ([], Operand n) \<Rightarrow> Expression_end fuel hs g n t yytext s | _ \<Rightarrow> Inr None))"
  by (cases opd; cases "ident_of t"; hypsubst?; simp add: Expression_def del: lr_step.simps)

lemma Expression_step:
  assumes "opd \<noteq> No_Operand \<or> ident_of t = None"
  shows "lr_step yacc_actions (items, opd, [t], s) = Inr (Some (items', opd', ts, s')) \<Longrightarrow>
   Expression fuel hs g items opd t yytext s =
     Inr (Some (hs, At_Expr g items' opd', if ts = [] then None else Some t, yytext, s'))"
  "lr_step yacc_actions (items, opd, [t], s) = Inl f \<Longrightarrow> Expression fuel hs g items opd t yytext s = Inl f"
  unfolding Expression_lr [OF assms] by (simp_all only: sbind_Inr sbind_Inl option.case prod.case)

lemma run_identifier:
  assumes "reads_token yytext t rest" "no_keyword t" "ident_of t = None"
  shows "yy_run fuel (hs, At_Expr g items No_Operand, Some (Value (Tok_Ident name)), yytext, s) =
    sbind (yacc_atom (Tok_Ident name) s) (\<lambda>(n, s). yy_run fuel (hs, At_Expr g items (Operand n), Some t, rest, s))"
proof -
  have "yy_run fuel (hs, At_Expr g items No_Operand, Some (Value (Tok_Ident name)), yytext, s) =
      yy_run fuel (hs, At_Ident g items name, None, yytext, s)"
    by (rule yy_run_act) (simp_all add: yy_act_def Expression_def ident_of_def)
  also have "\<dots> = yy_run fuel (hs, At_Ident g items name, Some t, rest, s)"
    using yy_run_fetch [OF assms(1)] scanned_no_keyword [OF assms(2)] by simp
  also have "\<dots> = sbind (yacc_atom (Tok_Ident name) s) (\<lambda>(n, s). yy_run fuel (hs, At_Expr g items (Operand n), Some t, rest, s))"
    by (rule yy_run_act_bind) (simp_all add: yy_act_def Identifier_def assms(3))
  finally show ?thesis .
qed

lemma yy_run_expr:
  assumes "lr_run yacc_actions (items, opd, t # ts, s) = sbind m (\<lambda>(n, s). Inr ([], Operand n, [u], s))"
    and "scans yytext ts rest" "list_all no_keyword ts" "apart (t # ts)" "last (t # ts) = u" "ident_of u = None"
  shows "yy_run fuel (hs, At_Expr g items opd, Some t, yytext, s) =
    sbind m (\<lambda>(n, s). yy_run fuel (hs, At_Expr g [] (Operand n), Some u, rest, s))"
  using assms
proof (induction "lr_size (items, opd, t # ts, s)" arbitrary: items opd t ts s yytext rule: less_induct)
  case less
  note run = less.prems(1) [unfolded lr_run_tail]
  consider (name) name where "opd = No_Operand" "t = Value (Tok_Ident name)" | (other) "opd \<noteq> No_Operand \<or> ident_of t = None"
    by (cases opd; cases "ident_of t") (simp_all add: ident_of_Some)
  then show ?case
  proof cases
    case name
    have "ts \<noteq> []" using less.prems(5,6) name by (auto simp: ident_of_def)
    then obtain t2 ts2 text2 where ts: "ts = t2 # ts2" "reads_token yytext t2 text2" "scans text2 ts2 rest"
      using less.prems(2) by (cases ts) auto
    have t2: "no_keyword t2" "ident_of t2 = None" using less.prems(3,4) ts(1) name by (auto simp: ident_of_def)
    show ?thesis
    proof (cases "yacc_atom (Tok_Ident name) s")
      case (Inl f)
      then have "m = Inl f" using run name by (cases m) (auto simp: lr_start_def yacc_actions_def)
      with Inl show ?thesis using run_identifier [OF ts(2) t2] name by simp
    next
      case (Inr r)
      obtain n s' where r: "r = (n, s')" by (cases r)
      have "lr_run yacc_actions (items, Operand n, t2 # ts2, s') = sbind m (\<lambda>(n, s). Inr ([], Operand n, [u], s))"
        using run name Inr r ts(1) by (simp add: lr_start_def yacc_actions_def)
      with less.hyps [of items "Operand n" t2 ts2 s' text2] show ?thesis
        using run_identifier [OF ts(2) t2] less.prems(3-6) name Inr r ts by (simp add: lr_start_def)
    qed
  next
    case other
    note step = Expression_step [OF other]
    show ?thesis
    proof (cases "lr_step yacc_actions (items, opd, [t], s)")
      case (Inl f)
      then have "m = Inl f" using run by (cases m) auto
      moreover have "yy_step fuel (hs, At_Expr g items opd, Some t, yytext, s) = Inl f"
        using step(2) [OF Inl] by (simp add: yy_act_def)
      ultimately show ?thesis by (subst yy_run.simps) simp
    next
      case (Inr r)
      show ?thesis
      proof (cases r)
        case None
        with run Inr obtain n where "m = Inr (n, s)" "items = []" "opd = Operand n" "ts = []" "t = u"
          by (cases m) auto
        with less.prems(2) show ?thesis by simp
      next
        case (Some a)
        obtain items' opd' us s' where a: "a = (items', opd', us, s')" by (cases a)
        note st = Inr [unfolded Some a]
        have lr: "lr_run yacc_actions (items', opd', us @ ts, s') = sbind m (\<lambda>(n, s). Inr ([], Operand n, [u], s))"
          using run st by simp
        have small: "lr_size (items', opd', us @ ts, s') < lr_size (items, opd, t # ts, s)"
          by (rule lr_step_size [of yacc_actions]) (simp only: lr_step_tail [of _ _ _ t ts] st, simp)
        have yy: "yy_run fuel (hs, At_Expr g items opd, Some t, yytext, s) =
            yy_run fuel (hs, At_Expr g items' opd', if us = [] then None else Some t, yytext, s')"
          by (rule yy_run_act) (simp_all add: yy_act_def step(1) [OF st])
        from lr_step_rest [OF st] consider "us = [t]" | "us = []" by auto
        then show ?thesis
        proof cases
          case 1
          have "lr_size (items', opd', t # ts, s') < lr_size (items, opd, t # ts, s)" using small 1 by simp
          with less.hyps [of items' opd' t ts s' yytext] 1 lr less.prems(2-6) yy show ?thesis by simp
        next
          case 2
          have "ts \<noteq> []"
          proof
            assume "ts = []"
            with 2 have "lr_run yacc_actions (items', opd', us @ ts, s') = Inr (items', opd', [], s')"
              by (subst lr_run.simps) simp
            with lr show False by (cases m) auto
          qed
          then obtain t2 ts2 text2 where ts: "ts = t2 # ts2" "reads_token yytext t2 text2" "scans text2 ts2 rest"
            using less.prems(2) by (cases ts) auto
          have "scanned t2 s' = s'" using less.prems(3) ts(1) scanned_no_keyword by simp
          with yy 2 have yy2: "yy_run fuel (hs, At_Expr g items opd, Some t, yytext, s) =
              yy_run fuel (hs, At_Expr g items' opd', Some t2, text2, s')"
            using yy_run_fetch [OF ts(2), of "At_Expr g items' opd'"] by simp
          have "lr_size (items', opd', t2 # ts2, s') < lr_size (items, opd, t # ts, s)"
            using small 2 ts(1) by simp
          with less.hyps [of items' opd' t2 ts2 s' text2] yy2 lr less.prems(3-6) ts 2 show ?thesis by simp
        qed
      qed
    qed
  qed
qed

text \<open>The parser in front of an expression, with the token behind it read.\<close>

lemma yy_expression:
  assumes "grammatical e" "\<not> continues u" "ident_of u = None" "no_keyword u" "scans yytext (tokens_of e @ [u]) rest"
  shows "yy_run fuel (hs, At_Expr g [] No_Operand, None, yytext, s) =
    sbind (parse_expr e s) (\<lambda>(n, s). yy_run fuel (hs, At_Expr g [] (Operand n), Some u, rest, s))"
proof -
  obtain t ts where ts: "tokens_of e @ [u] = t # ts" by (cases "tokens_of e @ [u]") auto
  then obtain text2 where r: "reads_token yytext t text2" "scans text2 ts rest" using assms(5) by auto
  have k: "list_all no_keyword (tokens_of e @ [u])" using no_keyword_tokens [OF assms(1)] assms(4) by simp
  have a: "apart (tokens_of e @ [u])" using apart_tokens [OF assms(1,3), of "[]"] by simp
  have "lr_run yacc_actions ([], No_Operand, t # ts, s) = sbind (parse_expr e s) (\<lambda>(n, s). Inr ([], Operand n, [u], s))"
    using run_expression [OF assms(1,2), of yacc_actions "[]" s] unfolding ts parse_expr_actions by simp
  from yy_run_expr [OF this r(2)] k a assms(3) ts last_snoc [of "tokens_of e" u] show ?thesis
    using yy_run_fetch [OF r(1)] scanned_no_keyword [of t] by simp
qed

end
