(* ===== verification/Yyparse_Stat.thy ===== *)
theory Yyparse_Stat
  imports Yyparse_Expr
begin

text \<open>
  The concrete syntax of statements and the parser on it: for a written statement the parser
  makes the calls of \<open>parse_stat\<close>, in spite of the tokens it reads ahead.
\<close>

subsection \<open>Written statements\<close>

definition flushes :: "symbol list \<Rightarrow> bool" where
  "flushes fs \<longleftrightarrow> fs \<noteq> [] \<and> list_all FLUSH fs"

text \<open>
  A statement ends in one or more line breaks or semicolons; one more may follow an opening
  brace. A block is listed from behind its opening brace.
\<close>

inductive written :: "stat \<Rightarrow> symbol list \<Rightarrow> bool"
  and written_block :: "stat list \<Rightarrow> symbol list \<Rightarrow> bool"
  and written_list :: "stat list \<Rightarrow> symbol list \<Rightarrow> bool" where
  written_expr: "grammatical e \<Longrightarrow> flushes fs \<Longrightarrow> written (Stat_Expr e) (tokens_of e @ fs)"
| written_ret: "grammatical e \<Longrightarrow> flushes fs \<Longrightarrow> written (Stat_Ret e) (Const 270 # tokens_of e @ fs)"
| written_if: "grammatical e \<Longrightarrow> written_block ts us \<Longrightarrow> flushes fs \<Longrightarrow>
    written (Stat_If e ts None) (Value Tok_If # tokens_of e @ Const 261 # us @ fs)"
| written_else: "grammatical e \<Longrightarrow> written_block ts us \<Longrightarrow> written_block es vs \<Longrightarrow> flushes fs \<Longrightarrow>
    written (Stat_If e ts (Some es)) (Value Tok_If # tokens_of e @ Const 261 # us @ Const 273 # Const 261 # vs @ fs)"
| written_while: "grammatical e \<Longrightarrow> written_block ss us \<Longrightarrow> flushes fs \<Longrightarrow>
    written (Stat_While e ss) (Value Tok_While # tokens_of e @ Const 261 # us @ fs)"
| written_block: "written_list ss us \<Longrightarrow> fs = [] \<or> fs = [f] \<and> FLUSH f \<Longrightarrow> written_block ss (fs @ us @ [Const 262])"
| written_nil: "written_list [] []"
| written_cons: "written st us \<Longrightarrow> written_list ss vs \<Longrightarrow> written_list (st # ss) (us @ vs)"

text \<open>The first token of an expression, and of a statement.\<close>

definition starts :: "symbol \<Rightarrow> bool" where
  "starts t \<longleftrightarrow> (\<exists>tok. t = Value tok \<and> atom_token tok) \<or> t = Const 259 \<or> t = Character (CHR ''!'') \<or> t = Character (CHR ''-'')"

lemma tokens_start: "grammatical e \<Longrightarrow> \<exists>t ts. tokens_of e = t # ts \<and> starts t"
proof (induction e)
  case (Binary_Op ty oper l r)
  then show ?case by auto
qed (auto simp: starts_def)

lemma newline_other: "newline \<noteq> CHR ''!''" "newline \<noteq> CHR ''-''" "newline \<noteq> CHR '';''"
  unfolding newline_def by code_simp+

lemma starts_statement: "starts t \<Longrightarrow> Statement hs t yytext s = Inr (Some (hs, At_Expr For_Stat [] No_Operand, Some t, yytext, s))"
  by (auto simp: starts_def Statement_def)

lemma starts_not_flush: "starts t \<Longrightarrow> \<not> FLUSH t"
  using newline_other by (auto simp: starts_def FLUSH_def)

lemma written_start:
  assumes "written st us"
  shows "\<exists>t ts. us = t # ts \<and> \<not> FLUSH t"
  using assms
proof (cases rule: written.cases)
  case (written_expr e fs)
  then show ?thesis using tokens_start [of e] starts_not_flush by auto
qed (auto simp: FLUSH_def)

lemma written_list_start: "written_list ss us \<Longrightarrow> \<exists>t ts. us @ [Const 262] = t # ts \<and> \<not> FLUSH t"
  by (cases rule: written_list.cases) (auto simp: FLUSH_def dest!: written_start)

lemma flush_plain:
  assumes "FLUSH t"
  shows "no_keyword t" "ident_of t = None" "\<not> continues t" "t \<noteq> Const 272" "t \<noteq> Const 273"
proof -
  have "\<not> continues (Character (CHR '';''))" by (simp add: continues_def binary_signs_def)
  with assms newline_ends show "\<not> continues t" by (auto simp: FLUSH_def)
qed (use assms in \<open>auto simp: FLUSH_def no_keyword_def ident_of_def\<close>)

lemma brace_plain: "no_keyword (Const k)" "ident_of (Const k) = None" "\<not> continues (Const 261)"
  by (simp_all add: no_keyword_def ident_of_def continues_def binary_signs_def)

subsection \<open>Single steps\<close>

lemma run_flush: "FLUSH t \<Longrightarrow> yy_run fuel (hs, At_Stat_End p, Some t, yytext, s) = yy_run fuel (hs, At_Stat_End p, None, yytext, s)"
  by (rule yy_run_act) (simp_all add: yy_act_def)

lemma run_flushes:
  "list_all FLUSH fs \<Longrightarrow> scans yytext fs rest \<Longrightarrow>
   yy_run fuel (hs, At_Stat_End p, None, yytext, s) = yy_run fuel (hs, At_Stat_End p, None, rest, s)"
proof (induction fs arbitrary: yytext)
  case (Cons f fs)
  then obtain mid where m: "reads_token yytext f mid" "scans mid fs rest" "FLUSH f" by auto
  have "yy_run fuel (hs, At_Stat_End p, None, yytext, s) = yy_run fuel (hs, At_Stat_End p, Some f, mid, s)"
    using yy_run_fetch [OF m(1)] scanned_no_keyword [OF flush_plain(1) [OF m(3)]] by simp
  with run_flush [OF m(3)] Cons m show ?case by simp
qed simp

lemma run_expression_end:
  assumes "\<not> continues u" "Expression_end fuel hs g n u rest s = sbind a (\<lambda>(p, s). Inr (Some (f p s)))"
  shows "yy_run fuel (hs, At_Expr g [] (Operand n), Some u, rest, s) = sbind a (\<lambda>(p, s). yy_run fuel (f p s))"
  by (rule yy_run_act_bind) (use assms in \<open>simp_all add: yy_act_def Expression_def\<close>)

lemma run_condition_end:
  assumes "\<not> continues u" "Expression_end fuel hs g n u rest s = Inr (Some c)"
  shows "yy_run fuel (hs, At_Expr g [] (Operand n), Some u, rest, s) = yy_run fuel c"
  by (rule yy_run_act) (use assms in \<open>simp_all add: yy_act_def Expression_def\<close>)

text \<open>A condition up to its opening brace.\<close>

lemma run_condition:
  assumes "grammatical e" "scans yytext (tokens_of e @ [Const 261]) rest"
    and "\<And>n s. Expression_end fuel hs g n (Const 261) rest s = Inr (Some (h n # hs, At_Open, None, rest, s))"
  shows "yy_run fuel (hs, At_Expr g [] No_Operand, None, yytext, s) =
    sbind (parse_expr e s) (\<lambda>(n, s). yy_run fuel (h n # hs, At_Open, None, rest, s))"
proof -
  have "yy_run fuel (hs, At_Expr g [] (Operand n), Some (Const 261), rest, s) =
      yy_run fuel (h n # hs, At_Open, None, rest, s)" for n s
    by (rule run_condition_end [OF brace_plain(3) assms(3)])
  then show ?thesis using yy_expression [OF assms(1) brace_plain(3,2,1) assms(2)] by simp
qed

text \<open>The first token of a statement, a keyword or a brace.\<close>

lemma run_keyword:
  assumes "reads_token yytext t rest" "m = At_Start \<or> m = At_Stat"
    and "Statement hs t rest (scanned t s) = Inr (Some c)"
  shows "yy_run fuel (hs, m, None, yytext, s) = yy_run fuel c"
proof -
  have m: "looks_ahead m" using assms(2) by auto
  have "yy_run fuel (hs, m, Some t, rest, scanned t s) = yy_run fuel c"
    by (rule yy_run_act [OF m]) (use assms(2,3) in \<open>auto simp: yy_act_def\<close>)
  with yy_run_fetch [OF assms(1) m] show ?thesis by simp
qed

text \<open>A token read ahead before a link does not change what the link does.\<close>

lemma link_scanned:
  "ast_link_node_stat_list l p (scanned t s) = sbind (ast_link_node_stat_list l p s) (\<lambda>(l, s). Inr (l, scanned t s))"
  by (auto simp: ast_link_node_stat_list_def sbind_assoc split_def intro!: sbind_cong split: option.splits)

lemma run_link:
  assumes "reads_token yytext t rest" "\<not> FLUSH t"
  shows "yy_run fuel (In_Block l # hs, At_Stat_End p, None, yytext, s) =
    sbind (ast_link_node_stat_list l p s) (\<lambda>(l, s). yy_run fuel (In_Block l # hs, At_Stat, None, yytext, s))"
proof -
  have "yy_run fuel (In_Block l # hs, At_Stat_End p, None, yytext, s) =
      yy_run fuel (In_Block l # hs, At_Stat_End p, Some t, rest, scanned t s)"
    by (rule yy_run_fetch [OF assms(1)]) simp
  also have "\<dots> = sbind (ast_link_node_stat_list l p (scanned t s)) (\<lambda>(l, s). yy_run fuel (In_Block l # hs, At_Stat, Some t, rest, s))"
    by (rule yy_run_act_bind) (simp_all add: yy_act_def assms(2))
  also have "\<dots> = sbind (ast_link_node_stat_list l p s) (\<lambda>(l, s). yy_run fuel (In_Block l # hs, At_Stat, None, yytext, s))"
    using yy_run_fetch [OF assms(1), of At_Stat] by (simp add: link_scanned sbind_assoc split_def)
  finally show ?thesis .
qed

lemma run_brace_open:
  assumes "scans yytext (fs @ t # ts) rest" "fs = [] \<or> fs = [f] \<and> FLUSH f" "\<not> FLUSH t"
  obtains mid where "scans mid (t # ts) rest"
    "\<And>fuel hs s. yy_run fuel (hs, At_Open, None, yytext, s) =
      sbind (ast_new_node_stat_list None s) (\<lambda>(l, s). yy_run fuel (In_Block l # hs, At_Stat, None, mid, s))"
proof (cases fs)
  case Nil
  then obtain yytext2 where r: "reads_token yytext t yytext2" using assms(1) by auto
  have "yy_run fuel (hs, At_Open, None, yytext, s) =
      sbind (ast_new_node_stat_list None s) (\<lambda>(l, s). yy_run fuel (In_Block l # hs, At_Stat, None, yytext, s))" for fuel hs s
  proof -
    have "yy_run fuel (hs, At_Open, Some t, yytext2, scanned t s) =
        yy_run fuel (In_Block (Some (N_Stat_List [])) # hs, At_Stat, Some t, yytext2, scanned t s)"
      by (rule yy_run_act) (simp_all add: yy_act_def Scope_def ast_new_node_stat_list_def assms(3))
    then show ?thesis
      using yy_run_fetch [OF r, of At_Open] yy_run_fetch [OF r, of At_Stat] by (simp add: ast_new_node_stat_list_def)
  qed
  with that [of yytext] assms(1) Nil show thesis by simp
next
  case (Cons f' fs')
  then have f: "fs = [f]" "FLUSH f" using assms(2) by auto
  then obtain mid where r: "reads_token yytext f mid" "scans mid (t # ts) rest" using assms(1) by auto
  have "yy_run fuel (hs, At_Open, None, yytext, s) =
      sbind (ast_new_node_stat_list None s) (\<lambda>(l, s). yy_run fuel (In_Block l # hs, At_Stat, None, mid, s))" for fuel hs s
  proof -
    have "yy_run fuel (hs, At_Open, Some f, mid, s) =
        yy_run fuel (In_Block (Some (N_Stat_List [])) # hs, At_Stat, None, mid, s)"
      by (rule yy_run_act) (simp_all add: yy_act_def Scope_def ast_new_node_stat_list_def f(2))
    then show ?thesis
      using yy_run_fetch [OF r(1), of At_Open] scanned_no_keyword [OF flush_plain(1) [OF f(2)]]
      by (simp add: ast_new_node_stat_list_def)
  qed
  with that [of mid] r(2) show thesis by simp
qed

subsection \<open>Statements\<close>

definition parses :: "stat \<Rightarrow> symbol list \<Rightarrow> bool" where
  "parses st us \<longleftrightarrow> (\<forall>fuel hs m yytext rest s. m = At_Start \<or> m = At_Stat \<longrightarrow> scans yytext us rest \<longrightarrow>
     yy_run fuel (hs, m, None, yytext, s) =
       sbind (parse_stat fuel st s) (\<lambda>(p, s). yy_run fuel (hs, At_Stat_End p, None, rest, s)))"

definition parses_block :: "stat list \<Rightarrow> symbol list \<Rightarrow> bool" where
  "parses_block ss us \<longleftrightarrow> (\<forall>fuel hs yytext rest s. scans yytext us rest \<longrightarrow>
     yy_run fuel (hs, At_Open, None, yytext, s) =
       sbind (ast_new_node_stat_list None s) (\<lambda>(l, s). sbind (parse_stats fuel ss l s) (\<lambda>(l, s).
         sbind (ast_new_node_scope l s) (\<lambda>(n, s). yy_run fuel (hs, At_Scope_End n, None, rest, s)))))"

definition parses_list :: "stat list \<Rightarrow> symbol list \<Rightarrow> bool" where
  "parses_list ss us \<longleftrightarrow> (\<forall>fuel hs l yytext rest s. scans yytext (us @ [Const 262]) rest \<longrightarrow>
     yy_run fuel (In_Block l # hs, At_Stat, None, yytext, s) =
       sbind (parse_stats fuel ss l s) (\<lambda>(l, s).
         sbind (ast_new_node_scope l s) (\<lambda>(n, s). yy_run fuel (hs, At_Scope_End n, None, rest, s))))"

lemma parses_nil: "parses_list [] []"
  unfolding parses_list_def
proof (intro allI impI)
  fix fuel hs l yytext rest s
  assume "scans yytext ([] @ [Const 262]) rest"
  then have r: "reads_token yytext (Const 262) rest" by simp
  have "yy_run fuel (In_Block l # hs, At_Stat, None, yytext, s) = yy_run fuel (In_Block l # hs, At_Stat, Some (Const 262), rest, s)"
    using yy_run_fetch [OF r, of At_Stat] scanned_no_keyword [OF brace_plain(1)] by simp
  also have "\<dots> = sbind (ast_new_node_scope l s) (\<lambda>(n, s). yy_run fuel (hs, At_Scope_End n, None, rest, s))"
    by (rule yy_run_act_bind) (simp_all add: yy_act_def Statement_def)
  finally show "yy_run fuel (In_Block l # hs, At_Stat, None, yytext, s) =
       sbind (parse_stats fuel [] l s) (\<lambda>(l, s).
         sbind (ast_new_node_scope l s) (\<lambda>(n, s). yy_run fuel (hs, At_Scope_End n, None, rest, s)))"
    by simp
qed

lemma parses_cons:
  assumes "parses st us" "parses_list ss vs" "written_list ss vs"
  shows "parses_list (st # ss) (us @ vs)"
  unfolding parses_list_def
proof (intro allI impI)
  fix fuel hs l yytext rest s
  assume "scans yytext ((us @ vs) @ [Const 262]) rest"
  then obtain mid where m: "scans yytext us mid" "scans mid (vs @ [Const 262]) rest" by (auto simp: scans_append)
  obtain t ts where t: "vs @ [Const 262] = t # ts" "\<not> FLUSH t" using written_list_start [OF assms(3)] by blast
  then obtain mid2 where "reads_token mid t mid2" using m(2) by auto
  note link = run_link [OF this t(2)]
  have "yy_run fuel (In_Block l # hs, At_Stat, None, yytext, s) =
      sbind (parse_stat fuel st s) (\<lambda>(p, s). yy_run fuel (In_Block l # hs, At_Stat_End p, None, mid, s))"
    using assms(1) m(1) by (simp add: parses_def)
  also have "\<dots> = sbind (parse_stats fuel (st # ss) l s) (\<lambda>(l, s).
         sbind (ast_new_node_scope l s) (\<lambda>(n, s). yy_run fuel (hs, At_Scope_End n, None, rest, s)))"
    using assms(2) m(2) by (simp add: link parses_list_def sbind_assoc split_def)
  finally show "yy_run fuel (In_Block l # hs, At_Stat, None, yytext, s) =
      sbind (parse_stats fuel (st # ss) l s) (\<lambda>(l, s).
         sbind (ast_new_node_scope l s) (\<lambda>(n, s). yy_run fuel (hs, At_Scope_End n, None, rest, s)))" .
qed

lemma parses_braces:
  assumes "parses_list ss us" "written_list ss us" "fs = [] \<or> fs = [f] \<and> FLUSH f"
  shows "parses_block ss (fs @ us @ [Const 262])"
  unfolding parses_block_def
proof (intro allI impI)
  fix fuel hs yytext rest s
  assume sc: "scans yytext (fs @ us @ [Const 262]) rest"
  obtain t ts where t: "us @ [Const 262] = t # ts" "\<not> FLUSH t" using written_list_start [OF assms(2)] by blast
  obtain mid where m: "scans mid (us @ [Const 262]) rest"
    "\<And>fuel hs s. yy_run fuel (hs, At_Open, None, yytext, s) =
      sbind (ast_new_node_stat_list None s) (\<lambda>(l, s). yy_run fuel (In_Block l # hs, At_Stat, None, mid, s))"
    using run_brace_open [OF sc [unfolded t(1)] assms(3) t(2)] t(1) by metis
  show "yy_run fuel (hs, At_Open, None, yytext, s) =
       sbind (ast_new_node_stat_list None s) (\<lambda>(l, s). sbind (parse_stats fuel ss l s) (\<lambda>(l, s).
         sbind (ast_new_node_scope l s) (\<lambda>(n, s). yy_run fuel (hs, At_Scope_End n, None, rest, s))))"
    using assms(1) m(1) by (simp add: m(2) parses_list_def)
qed

lemma flushes_first:
  assumes "flushes fs" "scans yytext fs rest"
  obtains f fs' mid where "fs = f # fs'" "FLUSH f" "reads_token yytext f mid" "scans mid fs' rest" "list_all FLUSH fs'"
  using assms by (cases fs) (auto simp: flushes_def)

lemma parses_expr:
  assumes "grammatical e" "flushes fs"
  shows "parses (Stat_Expr e) (tokens_of e @ fs)"
  unfolding parses_def
proof (intro allI impI)
  fix fuel hs m yytext rest s
  assume m: "m = At_Start \<or> m = At_Stat" and "scans yytext (tokens_of e @ fs) rest"
  then obtain mid where mid: "scans yytext (tokens_of e) mid" "scans mid fs rest" by (auto simp: scans_append)
  obtain f fs' mid2 where f: "fs = f # fs'" "FLUSH f" "reads_token mid f mid2" "scans mid2 fs' rest" "list_all FLUSH fs'"
    using flushes_first [OF assms(2) mid(2)] .
  have sc: "scans yytext (tokens_of e @ [f]) mid2" using mid(1) f(3) by (auto simp: scans_append)
  obtain t ts where t: "tokens_of e = t # ts" "starts t" using tokens_start [OF assms(1)] by blast
  then obtain mid1 where r: "reads_token yytext t mid1" using mid(1) by auto
  have "no_keyword t" using no_keyword_tokens [OF assms(1)] t(1) by simp
  note t0 = scanned_no_keyword [OF this]
  have "yy_run fuel (hs, m, None, yytext, s) = yy_run fuel (hs, At_Expr For_Stat [] No_Operand, Some t, mid1, s)"
    by (rule run_keyword [OF r m]) (simp add: t0 starts_statement [OF t(2)])
  also have "\<dots> = yy_run fuel (hs, At_Expr For_Stat [] No_Operand, None, yytext, s)"
    using yy_run_fetch [OF r, of "At_Expr For_Stat [] No_Operand"] t0 by simp
  also have "\<dots> = sbind (parse_expr e s) (\<lambda>(n, s). yy_run fuel (hs, At_Expr For_Stat [] (Operand n), Some f, mid2, s))"
    by (rule yy_expression [OF assms(1) flush_plain(3,2,1) [OF f(2)] sc])
  also have "\<dots> = sbind (parse_stat fuel (Stat_Expr e) s) (\<lambda>(p, s). yy_run fuel (hs, At_Stat_End p, None, rest, s))"
  proof -
    have "yy_run fuel (hs, At_Expr For_Stat [] (Operand n), Some f, mid2, s) =
        sbind (ast_new_node_stat_expr fuel n s) (\<lambda>(p, s). yy_run fuel (hs, At_Stat_End p, None, mid2, s))" for n s
      by (rule run_expression_end [OF flush_plain(3) [OF f(2)]]) (simp add: f(2))
    then show ?thesis using run_flushes [OF f(5,4)] by (simp add: sbind_assoc split_def)
  qed
  finally show "yy_run fuel (hs, m, None, yytext, s) =
      sbind (parse_stat fuel (Stat_Expr e) s) (\<lambda>(p, s). yy_run fuel (hs, At_Stat_End p, None, rest, s))" .
qed

lemma parses_ret:
  assumes "grammatical e" "flushes fs"
  shows "parses (Stat_Ret e) (Const 270 # tokens_of e @ fs)"
  unfolding parses_def
proof (intro allI impI)
  fix fuel hs m yytext rest s
  assume m: "m = At_Start \<or> m = At_Stat" and "scans yytext (Const 270 # tokens_of e @ fs) rest"
  then obtain mid0 mid where mid: "reads_token yytext (Const 270) mid0" "scans mid0 (tokens_of e) mid" "scans mid fs rest"
    by (auto simp: scans_append)
  obtain f fs' mid2 where f: "fs = f # fs'" "FLUSH f" "reads_token mid f mid2" "scans mid2 fs' rest" "list_all FLUSH fs'"
    using flushes_first [OF assms(2) mid(3)] .
  have sc: "scans mid0 (tokens_of e @ [f]) mid2" using mid(2) f(3) by (auto simp: scans_append)
  have "yy_run fuel (hs, m, None, yytext, s) = yy_run fuel (hs, At_Expr For_Return [] No_Operand, None, mid0, s)"
    by (rule run_keyword [OF mid(1) m]) (simp add: scanned_no_keyword [OF brace_plain(1)] Statement_def)
  also have "\<dots> = sbind (parse_expr e s) (\<lambda>(n, s). yy_run fuel (hs, At_Expr For_Return [] (Operand n), Some f, mid2, s))"
    by (rule yy_expression [OF assms(1) flush_plain(3,2,1) [OF f(2)] sc])
  also have "\<dots> = sbind (parse_stat fuel (Stat_Ret e) s) (\<lambda>(p, s). yy_run fuel (hs, At_Stat_End p, None, rest, s))"
  proof -
    have "yy_run fuel (hs, At_Expr For_Return [] (Operand n), Some f, mid2, s) =
        sbind (ast_new_node_stat_ret n s) (\<lambda>(p, s). yy_run fuel (hs, At_Stat_End p, Some f, mid2, s))" for n s
      by (rule run_expression_end [OF flush_plain(3) [OF f(2)]]) simp
    then show ?thesis using run_flushes [OF f(5,4)] by (simp add: run_flush [OF f(2)] sbind_assoc split_def)
  qed
  finally show "yy_run fuel (hs, m, None, yytext, s) =
      sbind (parse_stat fuel (Stat_Ret e) s) (\<lambda>(p, s). yy_run fuel (hs, At_Stat_End p, None, rest, s))" .
qed

text \<open>The end of a block, for the statement it belongs to.\<close>

lemma run_scope_end:
  "yy_run fuel (In_Then b e # hs, At_Scope_End n, la, yytext, s) = yy_run fuel (hs, At_Branch b e n, la, yytext, s)"
  "yy_run fuel (In_Else b e t # hs, At_Scope_End n, la, yytext, s) =
     sbind (ast_new_node_stat_if fuel e t n s) (\<lambda>(p, s). yy_run fuel (hs, At_Branch_End b p, la, yytext, s))"
  "yy_run fuel (In_While e # hs, At_Scope_End n, la, yytext, s) =
     sbind (ast_new_node_stat_while fuel e n s) (\<lambda>(p, s). yy_run fuel (hs, At_Stat_End p, la, yytext, s))"
  "yy_run fuel (hs, At_Branch_End If_Branch p, la, yytext, s) = yy_run fuel (hs, At_Stat_End p, la, yytext, s)"
  by (rule yy_run_step yy_run_bind, simp)+

lemma run_else:
  "yy_run fuel (hs, At_Branch b e n, Some (Const 273), yytext, s) = yy_run fuel (In_Else b e n # hs, At_Scope, None, yytext, s)"
  "yy_run fuel (hs, At_Scope, Some (Const 261), yytext, s) = yy_run fuel (hs, At_Open, None, yytext, s)"
  by (rule yy_run_act; simp add: yy_act_def SelectionStatement_def)+

lemma run_no_else:
  "FLUSH f \<Longrightarrow> yy_run fuel (hs, At_Branch If_Branch e n, Some f, yytext, s) =
     sbind (ast_new_node_stat_if fuel e n None s) (\<lambda>(p, s). yy_run fuel (hs, At_Stat_End p, None, yytext, s))"
proof -
  assume f: "FLUSH f"
  have "yy_run fuel (hs, At_Branch If_Branch e n, Some f, yytext, s) =
      sbind (ast_new_node_stat_if fuel e n None s) (\<lambda>(p, s). yy_run fuel (hs, At_Branch_End If_Branch p, Some f, yytext, s))"
    by (rule yy_run_act_bind) (simp_all add: yy_act_def SelectionStatement_def flush_plain [OF f])
  then show ?thesis by (simp add: run_scope_end run_flush [OF f])
qed

lemma parses_if:
  assumes "grammatical e" "parses_block ts us" "flushes fs"
  shows "parses (Stat_If e ts None) (Value Tok_If # tokens_of e @ Const 261 # us @ fs)"
  unfolding parses_def
proof (intro allI impI)
  fix fuel hs m yytext rest s
  let ?s = "keyword lexer_handle_keyword_if s"
  assume m: "m = At_Start \<or> m = At_Stat" and "scans yytext (Value Tok_If # tokens_of e @ Const 261 # us @ fs) rest"
  then obtain mid0 mid1 mid2 where mid: "reads_token yytext (Value Tok_If) mid0" "scans mid0 (tokens_of e @ [Const 261]) mid1"
      "scans mid1 us mid2" "scans mid2 fs rest"
    by (auto simp: scans_append)
  obtain f fs' mid3 where f: "fs = f # fs'" "FLUSH f" "reads_token mid2 f mid3" "scans mid3 fs' rest" "list_all FLUSH fs'"
    using flushes_first [OF assms(3) mid(4)] .
  have "yy_run fuel (hs, m, None, yytext, s) = yy_run fuel (hs, At_Expr (For_Cond If_Branch) [] No_Operand, None, mid0, ?s)"
    by (rule run_keyword [OF mid(1) m]) (simp add: scanned_def Statement_def)
  also have "\<dots> = sbind (parse_expr e ?s) (\<lambda>(n, s). yy_run fuel (In_Then If_Branch n # hs, At_Open, None, mid1, s))"
    by (rule run_condition [OF assms(1) mid(2)]) simp
  also have "\<dots> = sbind (parse_stat fuel (Stat_If e ts None) s) (\<lambda>(p, s). yy_run fuel (hs, At_Stat_End p, None, rest, s))"
  proof -
    have "yy_run fuel (hs, At_Branch If_Branch n k, None, mid2, s) =
        sbind (ast_new_node_stat_if fuel n k None s) (\<lambda>(p, s). yy_run fuel (hs, At_Stat_End p, None, rest, s))" for n k s
      using yy_run_fetch [OF f(3), of "At_Branch If_Branch n k"] run_no_else [OF f(2)] run_flushes [OF f(5,4)]
        scanned_no_keyword [OF flush_plain(1) [OF f(2)]] by simp
    with assms(2) mid(3) show ?thesis by (simp add: parses_block_def run_scope_end sbind_assoc split_def)
  qed
  finally show "yy_run fuel (hs, m, None, yytext, s) =
      sbind (parse_stat fuel (Stat_If e ts None) s) (\<lambda>(p, s). yy_run fuel (hs, At_Stat_End p, None, rest, s))" .
qed

lemma parses_else:
  assumes "grammatical e" "parses_block ts us" "parses_block es vs" "flushes fs"
  shows "parses (Stat_If e ts (Some es)) (Value Tok_If # tokens_of e @ Const 261 # us @ Const 273 # Const 261 # vs @ fs)"
  unfolding parses_def
proof (intro allI impI)
  fix fuel hs m yytext rest s
  let ?s = "keyword lexer_handle_keyword_if s"
  assume m: "m = At_Start \<or> m = At_Stat"
    and "scans yytext (Value Tok_If # tokens_of e @ Const 261 # us @ Const 273 # Const 261 # vs @ fs) rest"
  then obtain mid0 mid1 mid2 mid3 mid4 mid5 where mid: "reads_token yytext (Value Tok_If) mid0"
      "scans mid0 (tokens_of e @ [Const 261]) mid1" "scans mid1 us mid2" "reads_token mid2 (Const 273) mid3"
      "reads_token mid3 (Const 261) mid4" "scans mid4 vs mid5" "scans mid5 fs rest"
    by (simp add: scans_append) blast
  have fs: "list_all FLUSH fs" using assms(4) by (simp add: flushes_def)
  have "yy_run fuel (hs, m, None, yytext, s) = yy_run fuel (hs, At_Expr (For_Cond If_Branch) [] No_Operand, None, mid0, ?s)"
    by (rule run_keyword [OF mid(1) m]) (simp add: scanned_def Statement_def)
  also have "\<dots> = sbind (parse_expr e ?s) (\<lambda>(n, s). yy_run fuel (In_Then If_Branch n # hs, At_Open, None, mid1, s))"
    by (rule run_condition [OF assms(1) mid(2)]) simp
  also have "\<dots> = sbind (parse_stat fuel (Stat_If e ts (Some es)) s) (\<lambda>(p, s). yy_run fuel (hs, At_Stat_End p, None, rest, s))"
  proof -
    have "yy_run fuel (hs, At_Branch If_Branch n k, None, mid2, s) =
        yy_run fuel (In_Else If_Branch n k # hs, At_Open, None, mid4, s)" for n k s
      using yy_run_fetch [OF mid(4), of "At_Branch If_Branch n k"] yy_run_fetch [OF mid(5), of At_Scope]
      by (simp add: scanned_no_keyword [OF brace_plain(1)] run_else)
    with assms(2,3) mid(3,6) run_flushes [OF fs mid(7)] show ?thesis
      by (simp add: parses_block_def run_scope_end sbind_assoc split_def)
  qed
  finally show "yy_run fuel (hs, m, None, yytext, s) =
      sbind (parse_stat fuel (Stat_If e ts (Some es)) s) (\<lambda>(p, s). yy_run fuel (hs, At_Stat_End p, None, rest, s))" .
qed

lemma parses_while:
  assumes "grammatical e" "parses_block ss us" "flushes fs"
  shows "parses (Stat_While e ss) (Value Tok_While # tokens_of e @ Const 261 # us @ fs)"
  unfolding parses_def
proof (intro allI impI)
  fix fuel hs m yytext rest s
  let ?s = "keyword lexer_handle_keyword_while s"
  assume m: "m = At_Start \<or> m = At_Stat" and "scans yytext (Value Tok_While # tokens_of e @ Const 261 # us @ fs) rest"
  then obtain mid0 mid1 mid2 where mid: "reads_token yytext (Value Tok_While) mid0"
      "scans mid0 (tokens_of e @ [Const 261]) mid1" "scans mid1 us mid2" "scans mid2 fs rest"
    by (auto simp: scans_append)
  have fs: "list_all FLUSH fs" using assms(3) by (simp add: flushes_def)
  have "yy_run fuel (hs, m, None, yytext, s) = yy_run fuel (hs, At_Expr For_While [] No_Operand, None, mid0, ?s)"
    by (rule run_keyword [OF mid(1) m]) (simp add: scanned_def Statement_def)
  also have "\<dots> = sbind (parse_expr e ?s) (\<lambda>(n, s). yy_run fuel (In_While n # hs, At_Open, None, mid1, s))"
    by (rule run_condition [OF assms(1) mid(2)]) simp
  also have "\<dots> = sbind (parse_stat fuel (Stat_While e ss) s) (\<lambda>(p, s). yy_run fuel (hs, At_Stat_End p, None, rest, s))"
    using assms(2) mid(3) run_flushes [OF fs mid(4)]
    by (simp add: parses_block_def run_scope_end sbind_assoc split_def)
  finally show "yy_run fuel (hs, m, None, yytext, s) =
      sbind (parse_stat fuel (Stat_While e ss) s) (\<lambda>(p, s). yy_run fuel (hs, At_Stat_End p, None, rest, s))" .
qed

lemma written_parses:
  "written st us \<Longrightarrow> parses st us" "written_block ss us \<Longrightarrow> parses_block ss us"
  "written_list ss us \<Longrightarrow> parses_list ss us"
proof (induction rule: written_written_block_written_list.inducts)
  case (written_block ss us fs f)
  then show ?case by (intro parses_braces)
next
  case (written_cons st us ss vs)
  then show ?case by (intro parses_cons)
qed (auto intro: parses_expr parses_ret parses_if parses_else parses_while parses_nil)

subsection \<open>Programs\<close>

text \<open>At the top level the value of a statement is dropped when the next token is seen.\<close>

lemma run_dropped:
  assumes "reads_token yytext t rest" "\<not> FLUSH t"
  shows "yy_run fuel ([], At_Stat_End p, None, yytext, s) = yy_run fuel ([], At_Stat, None, yytext, s)"
proof -
  have "yy_run fuel ([], At_Stat_End p, Some t, rest, scanned t s) = yy_run fuel ([], At_Stat, Some t, rest, scanned t s)"
    by (rule yy_run_act) (simp_all add: yy_act_def assms(2))
  then show ?thesis
    using yy_run_fetch [OF assms(1), of "At_Stat_End p"] yy_run_fetch [OF assms(1), of At_Stat] by simp
qed

lemma run_statements:
  assumes "written_list ss us" "scans yytext us mid" "reads_token mid t rest" "\<not> FLUSH t"
  shows "yy_run fuel ([], At_Stat, None, yytext, s) =
    sbind (parse_program fuel ss s) (\<lambda>s. yy_run fuel ([], At_Stat, None, mid, s))"
  using assms(1,2)
proof (induction ss arbitrary: us yytext s)
  case Nil
  then have "us = []" by (auto elim: written_list.cases)
  then show ?case using Nil by simp
next
  case (Cons st ss)
  then obtain us1 us2 where u: "us = us1 @ us2" "written st us1" "written_list ss us2"
    by (auto elim: written_list.cases)
  obtain mid1 where mid1: "scans yytext us1 mid1" "scans mid1 us2 mid"
    using Cons.prems(2) u(1) by (auto simp: scans_append)
  have "\<exists>t ts. us2 @ [v] = t # ts \<and> \<not> FLUSH t" if "\<not> FLUSH v" for v
    using u(3) that by (cases rule: written_list.cases) (auto dest!: written_start)
  moreover have "scans mid1 (us2 @ [t]) rest" using mid1(2) assms(3) by (auto simp: scans_append)
  ultimately obtain t' mid2 where t': "reads_token mid1 t' mid2" "\<not> FLUSH t'"
    using assms(4) by (metis scans.simps(2))
  have "yy_run fuel ([], At_Stat, None, yytext, s) =
      sbind (parse_stat fuel st s) (\<lambda>(p, s). yy_run fuel ([], At_Stat_End p, None, mid1, s))"
    using written_parses(1) [OF u(2)] mid1(1) by (simp add: parses_def)
  also have "\<dots> = sbind (parse_program fuel (st # ss) s) (\<lambda>s. yy_run fuel ([], At_Stat, None, mid, s))"
    using Cons.IH [OF u(3) mid1(2)] by (simp add: run_dropped [OF t'] sbind_assoc split_def)
  finally show ?case .
qed

lemma run_start:
  assumes "written_list ss us" "ss \<noteq> []" "scans yytext us mid"
  shows "yy_run fuel ([], At_Start, None, yytext, s) = yy_run fuel ([], At_Stat, None, yytext, s)"
proof -
  obtain st ss' us1 us2 where u: "us = us1 @ us2" "written st us1"
    using assms(1,2) by (auto elim: written_list.cases)
  obtain mid1 where "scans yytext us1 mid1" using assms(3) u(1) by (auto simp: scans_append)
  then show ?thesis using written_parses(1) [OF u(2)] by (simp add: parses_def)
qed

text \<open>A token that no statement starts with, and not the end of the text either.\<close>

definition no_statement :: "symbol \<Rightarrow> bool" where
  "no_statement t \<longleftrightarrow>
     \<not> starts t \<and> \<not> FLUSH t \<and>
     t \<notin> {Const 261, Const 270, Value Tok_If, Value Tok_While, Value Tok_Switch, Value Tok_Func, Value Tok_End}"

lemma run_no_statement:
  assumes "no_statement t"
  obtains m where "m \<noteq> At_Stat" "yy_run fuel ([], At_Stat, Some t, rest, s) = Inr ([], m, Some t, rest, s)"
  | "t = Const 262" "yy_run fuel ([], At_Stat, Some t, rest, s) = Inr ([], At_Stat, Some t, rest, s)"
proof (cases "t = Const 262")
  case True
  then have "yy_run fuel ([], At_Stat, Some t, rest, s) = Inr ([], At_Stat, Some t, rest, s)"
    by (subst yy_run.simps) (simp add: yy_act_def Statement_def)
  then show thesis using that(2) True by blast
next
  case False
  let ?m = "At_Expr For_Stat [] No_Operand"
  have "ident_of t = None" using assms by (auto simp: no_statement_def starts_def ident_of_def split: symbol.splits token.splits)
  moreover have "lr_start yacc_actions [] t [] s = Inr None"
    using assms by (auto simp: no_statement_def starts_def lr_start_def split: symbol.splits)
  ultimately have "yy_act fuel [] ?m t rest s = Inr None" by (simp add: yy_act_def Expression_lr)
  then have "yy_run fuel ([], ?m, Some t, rest, s) = Inr ([], ?m, Some t, rest, s)" by (subst yy_run.simps) simp
  moreover have "yy_run fuel ([], At_Stat, Some t, rest, s) = yy_run fuel ([], ?m, Some t, rest, s)"
    by (rule yy_run_act) (use assms False in \<open>simp_all add: yy_act_def Statement_def no_statement_def\<close>)
  ultimately show thesis using that(1) [of ?m] by simp
qed

text \<open>A program has at least one statement.\<close>

lemma yyparse_written:
  assumes "written_list ss us" "ss \<noteq> []" "scans yytext (us @ [Value Tok_End]) rest"
  shows "yyparse fuel yytext s = sbind (parse_program fuel ss s) (\<lambda>s. Inr (0, s))"
proof -
  obtain mid where mid: "scans yytext us mid" "reads_token mid (Value Tok_End) rest"
    using assms(3) by (auto simp: scans_append)
  have "yy_run fuel ([], At_Stat, None, mid, s) = Inr ([], At_Stat, Some (Value Tok_End), rest, s)" for s
  proof -
    have "yy_run fuel ([], At_Stat, Some (Value Tok_End), rest, s) = Inr ([], At_Stat, Some (Value Tok_End), rest, s)"
      by (subst yy_run.simps) (simp add: yy_act_def Statement_def)
    then show ?thesis using yy_run_fetch [OF mid(2), of At_Stat] by (simp add: scanned_def)
  qed
  then show ?thesis
    using run_start [OF assms(1,2) mid(1)] run_statements [OF assms(1) mid] by (simp add: yyparse_def sbind_assoc FLUSH_def)
qed

lemma yyparse_stopped:
  assumes "written_list ss us" "ss \<noteq> []" "scans yytext (us @ [t]) rest" "no_statement t"
  shows "yyparse fuel yytext s = sbind (parse_program fuel ss s) (\<lambda>s. Inr (1, yyerror ''syntax error'' s))"
proof -
  obtain mid where mid: "scans yytext us mid" "reads_token mid t rest" using assms(3) by (auto simp: scans_append)
  have t: "\<not> FLUSH t" "t \<noteq> Value Tok_End" "no_keyword t" using assms(4) by (auto simp: no_statement_def no_keyword_def)
  have stop: "sbind (yy_run fuel ([], At_Stat, None, mid, s)) (\<lambda>(hs, m, la, rest, s).
       if hs = [] \<and> m = At_Stat \<and> la = Some (Value Tok_End) then Inr (0, s)
       else Inr (1, yyerror ''syntax error'' s)) = Inr (1, yyerror ''syntax error'' s)" for s
  proof -
    have ahead: "yy_run fuel ([], At_Stat, None, mid, s) = yy_run fuel ([], At_Stat, Some t, rest, s)"
      using yy_run_fetch [OF mid(2), of At_Stat] scanned_no_keyword [OF t(3)] by simp
    show ?thesis
      by (rule run_no_statement [OF assms(4), of fuel rest s]) (simp_all add: ahead t(2))
  qed
  then show ?thesis
    by (simp only: yyparse_def run_start [OF assms(1,2) mid(1)] run_statements [OF assms(1) mid t(1)] sbind_assoc stop)
qed

subsection \<open>A switch over several lines\<close>

text \<open>Behind the block of a choice only another choice or the closing brace is read.\<close>

lemma run_choices_stuck:
  assumes "FLUSH f"
  shows "yy_run fuel (hs, At_Choices e chain, Some f, yytext, s) = Inr (hs, At_Choices e chain, Some f, yytext, s)"
  by (subst yy_run.simps) (use assms in \<open>auto simp: yy_act_def switchSelectionBlock_def FLUSH_def\<close>)

lemma run_switch:
  assumes "grammatical e" "parses_block ss us" "FLUSH f"
    and "scans yytext (Value Tok_Switch # tokens_of e @ Const 261 # Const 278 # Value (Tok_Int n) # Const 261 # us @ [f]) rest"
  shows "yy_run fuel ([], At_Start, None, yytext, s) =
    sbind (parse_expr e (keyword lexer_handle_keyword_switch s)) (\<lambda>(p, s).
    sbind (parse_choices fuel [(Some (Literal_Int n), ss)] [] s) (\<lambda>(chain, s).
      Inr ([], At_Choices p chain, Some f, rest, s)))"
proof -
  obtain mid0 mid1 mid2 mid3 mid4 mid5 where mid: "reads_token yytext (Value Tok_Switch) mid0"
      "scans mid0 (tokens_of e @ [Const 261]) mid1" "reads_token mid1 (Const 278) mid2" "reads_token mid2 (Value (Tok_Int n)) mid3"
      "reads_token mid3 (Const 261) mid4" "scans mid4 us mid5" "reads_token mid5 f rest"
    using assms(4) by (simp add: scans_append) blast
  let ?s = "keyword lexer_handle_keyword_switch s"
  have k: "no_keyword (Value (Tok_Int n))" by (simp add: no_keyword_def)
  note plain = scanned_no_keyword [OF brace_plain(1)] scanned_no_keyword [OF k] scanned_no_keyword [OF flush_plain(1) [OF assms(3)]]
  have "yy_run fuel ([], At_Start, None, yytext, s) = yy_run fuel ([], At_Expr For_Switch [] No_Operand, None, mid0, ?s)"
    by (rule run_keyword [OF mid(1)]) (simp_all add: scanned_def Statement_def)
  also have "\<dots> = sbind (parse_expr e ?s) (\<lambda>(p, s). yy_run fuel ([], At_Expr For_Switch [] (Operand p), Some (Const 261), mid1, s))"
    by (rule yy_expression [OF assms(1) brace_plain(3,2,1) mid(2)])
  also have "\<dots> = sbind (parse_expr e ?s) (\<lambda>(p, s).
    sbind (parse_choices fuel [(Some (Literal_Int n), ss)] [] s) (\<lambda>(chain, s).
      Inr ([], At_Choices p chain, Some f, rest, s)))"
  proof -
    have "yy_run fuel ([], At_Expr For_Switch [] (Operand p), Some (Const 261), mid1, s) =
        yy_run fuel ([], At_Switch_Open p, None, mid1, s)" for p s
      by (rule run_condition_end [OF brace_plain(3)]) simp
    moreover have "yy_run fuel ([], At_Switch_Open p, Some (Const 278), mid2, s) =
        yy_run fuel ([], At_Choices p [], Some (Const 278), mid2, s)" for p s
      by (rule yy_run_act) (simp_all add: yy_act_def FLUSH_def)
    moreover have "yy_run fuel ([], At_Choices p [], Some (Const 278), mid2, s) = yy_run fuel ([], At_Case p [], None, mid2, s)" for p s
      by (rule yy_run_act) (simp_all add: yy_act_def switchSelectionBlock_def)
    moreover have "yy_run fuel ([], At_Case p [], Some (Value (Tok_Int n)), mid3, s) =
        sbind (ast_new_node_literal_int n s) (\<lambda>(k, s). yy_run fuel ([In_Choice p [] k], At_Scope, None, mid3, s))" for p s
      by (rule yy_run_act_bind) (simp_all add: yy_act_def ConstantExpression_def ident_of_def)
    moreover have "yy_run fuel ([In_Choice p [] k], At_Scope_End b, None, mid5, s) =
        sbind (ast_new_node_stat_switch_choice k b [] s) (\<lambda>(q, chain', s). yy_run fuel ([], At_Choices p (opt_list q), None, mid5, s))"
      for p k b s
      by (subst yy_run.simps) (cases "ast_new_node_stat_switch_choice k b [] s"; auto)
    ultimately show ?thesis
      using assms(2) mid(6) yy_run_fetch [OF mid(3)] yy_run_fetch [OF mid(4)] yy_run_fetch [OF mid(5)] yy_run_fetch [OF mid(7)]
      by (simp add: parses_block_def plain run_else run_choices_stuck [OF assms(3)] sbind_assoc split_def)
  qed
  finally show ?thesis .
qed

end
