(* ===== verification/Compiler_Fuel.thy ===== *)
theory Compiler_Fuel
  imports Compiler VM_Props
begin

text \<open>
  Fuel only bounds the runs of an unbuffered emitter: a compilation that succeeds with some fuel
  succeeds in the same way with more.
\<close>

definition less_stuck :: "'a result \<Rightarrow> 'a result \<Rightarrow> bool" where
  "less_stuck m m' \<longleftrightarrow> (\<forall>r. m = Inr r \<longrightarrow> m' = Inr r)"

named_theorems fuel_mono \<open>monotonicity in the fuel\<close>

lemma less_stuckD: "less_stuck m m' \<Longrightarrow> m = Inr r \<Longrightarrow> m' = Inr r"
  by (simp add: less_stuck_def)

lemma less_stuck_refl [simp, fuel_mono]: "less_stuck m m"
  by (simp add: less_stuck_def)

lemma less_stuck_sbind [fuel_mono]:
  "less_stuck m m' \<Longrightarrow> (\<And>a. m = Inr a \<Longrightarrow> less_stuck (f a) (f' a)) \<Longrightarrow> less_stuck (sbind m f) (sbind m' f')"
  by (auto simp: less_stuck_def)

lemma less_stuck_cbind [fuel_mono]:
  assumes "less_stuck m m'" "\<And>c. m = Inr (0, c) \<Longrightarrow> less_stuck (f c) (f' c)"
  shows "less_stuck (cbind m f) (cbind m' f')"
  unfolding cbind_def by (rule less_stuck_sbind [OF assms(1)]) (use assms(2) in \<open>auto split: prod.split\<close>)

lemma less_stuck_cseq [fuel_mono]:
  assumes "less_stuck m m'" "\<And>ret c. m = Inr (ret, c) \<Longrightarrow> less_stuck (f c) (f' c)"
  shows "less_stuck (cseq m f) (cseq m' f')"
  unfolding cseq_def by (rule less_stuck_sbind [OF assms(1)]) (use assms(2) in \<open>auto split: prod.split\<close>)

lemma emit_n_fuel [fuel_mono]: "fuel \<le> fuel' \<Longrightarrow> less_stuck (compiler_emit_n fuel data c) (compiler_emit_n fuel' data c)"
  using vm_execute_opcodes_mono [of fuel fuel' data "c_vm c"]
  by (auto simp: compiler_emit_n_def less_stuck_def split: emitter_kind.split)

lemma emit_opcode_fuel [fuel_mono]:
  "fuel \<le> fuel' \<Longrightarrow> less_stuck (emit_opcode fuel opcode c) (emit_opcode fuel' opcode c)"
  by (simp add: emit_opcode_def compiler_emit_0_def emit_n_fuel)

lemma compile_ident_fuel:
  "fuel \<le> fuel' \<Longrightarrow> less_stuck (compile_ident fuel name c) (compile_ident fuel' name c)"
  by (simp add: compile_ident_def compiler_emit_1_def Let_def emit_n_fuel split: option.split)

lemma compile_expression_fuel:
  assumes "fuel \<le> fuel'"
  shows "less_stuck (compile_expression fuel e c) (compile_expression fuel' e c)"
    "less_stuck (compile_call_args fuel e c) (compile_call_args fuel' e c)"
  using assms
proof (induction fuel e c and fuel e c rule: compile_expression_compile_call_args.induct)
  case (5 fuel t oper e c)
  then show ?case by (auto simp: Let_def intro!: fuel_mono)
next
  case (6 fuel t oper left right c)
  show ?case
  proof (cases "oper = ASSIGNMENT")
    case True
    then show ?thesis
      using "6.prems" "6.IH"(1)
      by (auto simp: Let_def compiler_emit_1_def intro!: fuel_mono split: if_splits)
  next
    case False
    show ?thesis
    proof (cases "oper = FUNCTION_CALL")
      case True
      then show ?thesis
        using "6.prems" "6.IH"(2) False
        by (auto simp: Let_def compiler_emit_2_def simp del: compile_call_args.simps intro!: fuel_mono split: expr.split)
    next
      case nf: False
      show ?thesis
        using "6.prems" "6.IH"(3,4) False nf
        by (auto simp: Let_def simp del: ast_node_trace_data_type.simps compile_call_args.simps
            intro!: fuel_mono split: expr.split)
    qed
  qed
next
  case (7 fuel t opcode e c)
  then show ?case by (auto intro!: fuel_mono)
next
  case (12 fuel current_arg c)
  then show ?case
    unfolding compile_call_args.simps [of fuel current_arg] compile_call_args.simps [of fuel' current_arg]
    by (auto simp del: compile_call_args.simps intro!: fuel_mono split: expr.split)
qed (simp_all add: compile_literal_int_def compile_literal_float_def compile_ident_fuel emit_n_fuel)

lemma emit_selection_fuel [fuel_mono]:
  "fuel \<le> fuel' \<Longrightarrow> less_stuck (emit_selection fuel te fe c) (emit_selection fuel' te fe c)"
  by (auto simp: emit_selection_def Let_def intro!: fuel_mono)

lemma emit_loop_fuel [fuel_mono]:
  "fuel \<le> fuel' \<Longrightarrow> less_stuck (emit_loop fuel ee be c) (emit_loop fuel' ee be c)"
  by (auto simp: emit_loop_def Let_def intro!: fuel_mono)

lemma compile_statement_fuel:
  assumes "fuel \<le> fuel'"
  shows "less_stuck (compile_statement fuel s c) (compile_statement fuel' s c)"
    "less_stuck (compile_scope fuel ss c) (compile_scope fuel' ss c)"
  using assms
proof (induction fuel s c and fuel ss c rule: compile_statement_compile_scope.induct)
  case (2 fuel e true_scope false_scope c)
  then show ?case
    by (auto simp del: compile_expression.simps intro!: fuel_mono compile_expression_fuel split: option.split)
next
  case (3 fuel e loop_scope c)
  then show ?case by (auto simp del: compile_expression.simps intro!: fuel_mono compile_expression_fuel)
next
  case (7 fuel stat stats c)
  then show ?case by (auto intro!: fuel_mono)
qed (simp_all del: compile_expression.simps add: compile_expression_fuel)

lemma compile_func_fuel:
  "fuel \<le> fuel' \<Longrightarrow> less_stuck (compile_func fuel func c) (compile_func fuel' func c)"
  unfolding compile_func_def
  by (intro fuel_mono) (auto simp: Let_def split: prod.split intro!: fuel_mono compile_statement_fuel)

lemma compiler_compile_fuel [fuel_mono]:
  "fuel \<le> fuel' \<Longrightarrow> less_stuck (compiler_compile fuel node c) (compiler_compile fuel' node c)"
  by (auto simp: compiler_compile_def compile_statement_fuel compile_func_fuel split: global_node.split)



end
