(* ===== verification/Stat_Interactive.thy ===== *)
theory Stat_Interactive
  imports Stat_Exec Compiler_Fuel
begin

text \<open>
  Interactive mode: statements compiled in the root scope, whose emitter hands every emission to
  the machine at once. Branches and bodies are still compiled into buffers.
\<close>

subsection \<open>The state of a session\<close>

text \<open>
  \<open>session cap c env \<rho>\<close>: the root scope \<open>c\<close> is ready for the next statement, the slots of its
  variables are those of \<open>env\<close> and hold the store \<open>\<rho>\<close>.
\<close>

definition session :: "nat \<Rightarrow> compiler \<Rightarrow> env \<Rightarrow> store \<Rightarrow> bool" where
  "session cap c env \<rho> \<longleftrightarrow>
     sc_vars_cap (c_scope c) = cap \<and> sc_emitter (c_scope c) = Unbuffered \<and> scope_env c = env \<and>
     (case env of (\<Gamma>, k, n, m) \<Rightarrow> holds \<Gamma> n \<rho> (locals (current_frame (c_vm c))))"

text \<open>What a statement leaves alone: the operand stack, the capacities, the callers.\<close>

definition same_frame :: "compiler \<Rightarrow> compiler \<Rightarrow> bool" where
  "same_frame c c' \<longleftrightarrow> (\<exists>lcs pc. c_vm c' = set_frame (c_vm c) (stack (current_frame (c_vm c))) lcs pc \<and>
     length lcs = length (locals (current_frame (c_vm c))))"

lemma same_frame_trans: "same_frame c c1 \<Longrightarrow> same_frame c1 c2 \<Longrightarrow> same_frame c c2"
  unfolding same_frame_def by (metis set_frame_sel(1,2) set_frame_twice)

lemma same_frame_stack:
  "same_frame c c' \<Longrightarrow> stack (current_frame (c_vm c')) = stack (current_frame (c_vm c)) \<and>
     stack_cap (current_frame (c_vm c')) = stack_cap (current_frame (c_vm c)) \<and>
     length (locals (current_frame (c_vm c'))) = length (locals (current_frame (c_vm c)))"
  unfolding same_frame_def by auto

lemma sessionI:
  assumes "sc_vars_cap (c_scope c') = cap" "sc_emitter (c_scope c') = Unbuffered" "scope_env c' = (\<Gamma>, k, n, m)"
    and "c_vm c' = set_frame (c_vm c) (stack (current_frame (c_vm c))) lcs pc" "holds \<Gamma> n \<rho> lcs"
    and "length lcs = length (locals (current_frame (c_vm c)))"
  shows "session cap c' (\<Gamma>, k, n, m) \<rho> \<and> same_frame c c'"
  using assms unfolding session_def same_frame_def by auto

lemma emit_run:
  assumes "sc_emitter (c_scope c) = Unbuffered" "exec_block code (c_vm c) st'"
  shows "\<exists>fuel0. \<forall>fuel \<ge> fuel0. compiler_emit_n fuel code c = Inr (0, c\<lparr>c_vm := st'\<rparr>)"
proof -
  obtain f where f: "vm_execute_opcodes f code (c_vm c) = Inr st'" using exec_block_run [OF assms(2)] by blast
  then have "compiler_emit_n fuel code c = Inr (0, c\<lparr>c_vm := st'\<rparr>)" if "f \<le> fuel" for fuel
    using vm_execute_opcodes_mono [OF that] assms(1) by (simp add: compiler_emit_n_def)
  then show ?thesis by blast
qed

lemma scope_account_scope:
  "sc_vars_cap (c_scope (scope_account chunks c)) = sc_vars_cap (c_scope c)"
  "c_parents (scope_account chunks c) = c_parents c"
  "compiler_slots (scope_account chunks c) = compiler_slots c"
  "scope_env (scope_account chunks c) = scope_env c"
proof -
  obtain s m where "stack_account chunks (sc_stack_size (c_scope c), c_stack_max c) = (s, m)"
    by (cases "stack_account chunks (sc_stack_size (c_scope c), c_stack_max c)")
  then have a: "scope_account chunks c = set_scope_stack s m c" by (simp add: scope_account_def)
  show "sc_vars_cap (c_scope (scope_account chunks c)) = sc_vars_cap (c_scope c)"
    "c_parents (scope_account chunks c) = c_parents c"
    and sl: "compiler_slots (scope_account chunks c) = compiler_slots c"
    unfolding a by (simp_all add: set_scope_stack_def compiler_slots_def c_chain_def fun_eq_iff)
  show "scope_env (scope_account chunks c) = scope_env c"
    using sl unfolding a by (simp add: set_scope_stack_def scope_env_def)
qed

lemma vm_update_scope [simp]:
  "scope_env (c\<lparr>c_vm := vm\<rparr>) = scope_env c" "compiler_slots (c\<lparr>c_vm := vm\<rparr>) = compiler_slots c"
  by (simp_all add: scope_env_def compiler_slots_def c_chain_def fun_eq_iff)

subsection \<open>Statements\<close>

lemma assign_interactive:
  assumes s: "session cap c (\<Gamma>, k, n, m) \<rho>"
    and elab: "elab_stat cap page (\<Gamma>, k, n, m) (assign x e) = Some ((\<Gamma>', k', n', m'), code)"
    and v: "eval \<rho> e = Some v" "case \<rho> x of None \<Rightarrow> v' = v | Some w \<Rightarrow> convert (val_type w) v = Some v'"
    and room: "m' \<le> length (locals (current_frame (c_vm c)))"
      "4 * (length (stack (current_frame (c_vm c))) + stat_depth (assign x e)) \<le> stack_cap (current_frame (c_vm c))"
  shows "\<exists>fuel c'. compile_statement fuel (assign x e) c = Inr (0, c') \<and>
    session cap c' (\<Gamma>', k', n', m') (\<rho>(x \<mapsto> v')) \<and> same_frame c c'"
proof -
  let ?f = "current_frame (c_vm c)"
  have c: "sc_vars_cap (c_scope c) = cap" "sc_emitter (c_scope c) = Unbuffered" "scope_env c = (\<Gamma>, k, n, m)"
    "holds \<Gamma> n \<rho> (locals ?f)" using s by (simp_all add: session_def)
  obtain chunks where ch: "elab_assign cap (\<Gamma>, k, n, m) x e = Some ((\<Gamma>', k', n', m'), chunks)"
    using elab by (auto split: if_splits simp del: elab_assign.simps)
  obtain c1 where c1: "\<forall>fuel. compile_statement fuel (assign x e) c = emit_seq fuel chunks c1"
    "scope_env c1 = (\<Gamma>', k', n', m')" "sc_emitter (c_scope c1) = Unbuffered" "sc_vars_cap (c_scope c1) = cap"
    "c_vm c1 = c_vm c"
    using assign_emits [of c x e] ch c by metis
  obtain lcs' where l: "exec_chunks chunks (c_vm c) (set_frame (c_vm c) (stack ?f) lcs' (int (length (concat chunks))))"
    "holds \<Gamma>' n' (\<rho>(x \<mapsto> v')) lcs'" "length lcs' = length (locals ?f)"
    using exec_assign [OF ch c(4) v room(1), of "stack ?f" "c_vm c" 0] room(2) by (auto simp: set_frame_id)
  from emit_seq_unbuffered [OF c1(3)] l(1) c1(5) obtain f0 where f0: "\<And>fuel. f0 \<le> fuel \<Longrightarrow>
    emit_seq fuel chunks c1 = Inr (0, (scope_account chunks c1)\<lparr>c_vm :=
      set_frame (c_vm c) (stack ?f) lcs' (int (length (concat chunks)))\<rparr>)" by metis
  have "session cap ((scope_account chunks c1)\<lparr>c_vm := set_frame (c_vm c) (stack ?f) lcs' (int (length (concat chunks)))\<rparr>)
      (\<Gamma>', k', n', m') (\<rho>(x \<mapsto> v')) \<and>
    same_frame c ((scope_account chunks c1)\<lparr>c_vm := set_frame (c_vm c) (stack ?f) lcs' (int (length (concat chunks)))\<rparr>)"
    by (rule sessionI [where lcs = lcs' and pc = "int (length (concat chunks))"])
      (use c1 l in \<open>simp_all add: scope_account_scope\<close>)
  with c1(1) f0 [of f0] show ?thesis by (metis order_refl)
qed

text \<open>A condition leaves its value on the stack and is followed by the two branches in one emission.\<close>

lemma cond_interactive:
  assumes "session cap c (\<Gamma>, k, n, m) \<rho>" "type_of \<Gamma> e = Some TYPE_INT" "eval \<rho> e = Some (Int_Val w)"
    and "4 * (length (stack (current_frame (c_vm c))) + expr_depth e) \<le> stack_cap (current_frame (c_vm c))"
  obtains f0 c1 pc where "\<forall>fuel \<ge> f0. compile_expression fuel e c = Inr (0, c1)"
    "sc_vars_cap (c_scope c1) = cap" "sc_emitter (c_scope c1) = Unbuffered" "scope_env c1 = (\<Gamma>, k, n, m)"
    "c_vm c1 = set_frame (c_vm c) (w # stack (current_frame (c_vm c))) (locals (current_frame (c_vm c))) pc"
proof -
  let ?f = "current_frame (c_vm c)" and ?ch = "code_of \<Gamma> e"
  have c: "sc_vars_cap (c_scope c) = cap" "sc_emitter (c_scope c) = Unbuffered" "scope_env c = (\<Gamma>, k, n, m)"
    "holds \<Gamma> n \<rho> (locals ?f)" using assms(1) by (simp_all add: session_def)
  have G: "compiler_slots c = \<Gamma>" using c(3) by (simp add: scope_env_def)
  have "eval (machine_env \<Gamma> (locals ?f)) e = Some (Int_Val w)" using c(4) assms(3) by (simp add: holds_def)
  from exec_expression [OF assms(2) this assms(4), of 0]
  have run: "exec_chunks ?ch (c_vm c) (set_frame (c_vm c) (w # stack ?f) (locals ?f) (int (length (concat ?ch))))"
    by (simp add: set_frame_id)
  obtain f0 where f0: "\<And>fuel. f0 \<le> fuel \<Longrightarrow> emit_seq fuel ?ch c = Inr (0, (scope_account ?ch c)\<lparr>c_vm :=
      set_frame (c_vm c) (w # stack ?f) (locals ?f) (int (length (concat ?ch)))\<rparr>)"
    using emit_seq_unbuffered [OF c(2) run] by blast
  have "compile_expression fuel e c = emit_seq fuel ?ch c" for fuel
    using compile_expression_emits [of c e TYPE_INT] assms(2) G by simp
  with f0 have "\<forall>fuel \<ge> f0. compile_expression fuel e c = Inr (0, (scope_account ?ch c)\<lparr>c_vm :=
      set_frame (c_vm c) (w # stack ?f) (locals ?f) (int (length (concat ?ch)))\<rparr>)" by simp
  then show ?thesis by (rule that) (simp_all add: scope_account_scope c)
qed

lemma if_interactive:
  assumes s: "session cap c (\<Gamma>, k, n, m) \<rho>"
    and elab: "elab_stat cap page (\<Gamma>, k, n, m) (Stat_If e ts fs) = Some ((\<Gamma>', k', n', m'), code)"
    and v: "eval \<rho> e = Some (Int_Val w)"
      "sem_scope (if w = 0 then case fs of None \<Rightarrow> [] | Some fs \<Rightarrow> fs else ts) \<rho> \<rho>1"
    and room: "m' \<le> length (locals (current_frame (c_vm c)))"
      "4 * (length (stack (current_frame (c_vm c))) + stat_depth (Stat_If e ts fs)) \<le> stack_cap (current_frame (c_vm c))"
  shows "\<exists>fuel c'. compile_statement fuel (Stat_If e ts fs) c = Inr (0, c') \<and>
    session cap c' (\<Gamma>', k', n', m') (\<rho>1 |` dom \<rho>) \<and> same_frame c c'"
proof -
  let ?f = "current_frame (c_vm c)"
  have c: "holds \<Gamma> n \<rho> (locals ?f)" using s by (simp add: session_def)
  obtain \<Gamma>t kt nt m1 t \<Gamma>f kf nf f where tf:
    "elab_scope cap 512 (\<Gamma>, 0, n, m) ts = Some ((\<Gamma>t, kt, nt, m1), t)"
    "elab_scope cap 512 (\<Gamma>, 0, n, m1) (case fs of None \<Rightarrow> [] | Some fs \<Rightarrow> fs) = Some ((\<Gamma>f, kf, nf, m'), f)"
    "type_of \<Gamma> e = Some TYPE_INT" "length t + 3 < 256" "length f \<le> 65535" and \<Gamma>': "\<Gamma>' = \<Gamma>" "k' = k" "n' = n"
    by (rule elab_If [OF elab]) auto
  have d: "4 * (length (stack ?f) + expr_depth e) \<le> stack_cap ?f"
    "4 * (length (stack ?f) + scope_depth (if w = 0 then case fs of None \<Rightarrow> [] | Some fs \<Rightarrow> fs else ts)) \<le> stack_cap ?f"
    using room(2) by (auto split: option.split)
  obtain f0 c1 pc where c1: "\<forall>fuel \<ge> f0. compile_expression fuel e c = Inr (0, c1)"
    "sc_vars_cap (c_scope c1) = cap" "sc_emitter (c_scope c1) = Unbuffered" "scope_env c1 = (\<Gamma>, k, n, m)"
    "c_vm c1 = set_frame (c_vm c) (w # stack ?f) (locals ?f) pc"
    by (rule cond_interactive [OF s tf(3) v(1) d(1)])
  have mle: "m1 \<le> m'" using elab_grows(2) [OF tf(2)] by (simp add: env_grows_def)
  obtain lcs' where l: "if w = 0
      then exec_block f (set_frame (c_vm c) (stack ?f) (locals ?f) (pc + int (length t + 6)))
             (set_frame (c_vm c) (stack ?f) lcs' (pc + int (length t + 6 + length f)))
      else exec_block t (set_frame (c_vm c) (stack ?f) (locals ?f) (pc + 3))
             (set_frame (c_vm c) (stack ?f) lcs' (pc + int (3 + length t)))"
    "holds \<Gamma> n (\<rho>1 |` dom \<rho>) lcs'" "length lcs' = length (locals ?f)"
  proof (cases "w = 0")
    case True
    have sim: "simulates (c_vm c) (stack ?f) (\<Gamma>, 0, n, m1) (\<Gamma>f, kf, nf, m') f \<rho> \<rho>1"
      using sem_simulates(2) [OF _ tf(2)] v(2) d(2) True by simp
    obtain lcs' where "exec_block f (set_frame (c_vm c) (stack ?f) (locals ?f) (pc + int (length t + 6)))
        (set_frame (c_vm c) (stack ?f) lcs' (pc + int (length t + 6) + int (length f)))"
      "holds \<Gamma> n (\<rho>1 |` dom \<rho>) lcs'" "length lcs' = length (locals ?f)"
      by (rule simulates_block [OF sim elab_grows(2) [OF tf(2)] c room(1)])
    with True show ?thesis by (intro that [of lcs']) (simp_all add: add.assoc)
  next
    case False
    have sim: "simulates (c_vm c) (stack ?f) (\<Gamma>, 0, n, m) (\<Gamma>t, kt, nt, m1) t \<rho> \<rho>1"
      using sem_simulates(2) [OF _ tf(1)] v(2) d(2) False by simp
    have "m1 \<le> length (locals ?f)" using mle room(1) by simp
    with simulates_block [OF sim elab_grows(2) [OF tf(1)] c] obtain lcs' where
      "exec_block t (set_frame (c_vm c) (stack ?f) (locals ?f) (pc + 3))
        (set_frame (c_vm c) (stack ?f) lcs' (pc + 3 + int (length t)))"
      "holds \<Gamma> n (\<rho>1 |` dom \<rho>) lcs'" "length lcs' = length (locals ?f)" by metis
    with False show ?thesis by (intro that [of lcs']) (simp_all add: add.assoc)
  qed
  let ?st = "set_frame (c_vm c) (stack ?f) lcs' (pc + int (length (if_code t f)))"
  have run: "exec_block (if_code t f) (c_vm c1) ?st"
    unfolding c1(5) by (rule exec_selection [OF tf(4,5) l(1)])
  obtain f1 where f1: "\<And>fuel c3. f1 \<le> fuel \<Longrightarrow> sc_emitter (c_scope c3) = Unbuffered \<Longrightarrow> c_vm c3 = c_vm c1 \<Longrightarrow>
      compiler_emit_n fuel (if_code t f) c3 = Inr (0, c3\<lparr>c_vm := ?st\<rparr>)"
  proof -
    obtain f1 where "vm_execute_opcodes f1 (if_code t f) (c_vm c1) = Inr ?st" using exec_block_run [OF run] by blast
    then have "compiler_emit_n fuel (if_code t f) c3 = Inr (0, c3\<lparr>c_vm := ?st\<rparr>)"
      if "f1 \<le> fuel" "sc_emitter (c_scope c3) = Unbuffered" "c_vm c3 = c_vm c1" for fuel c3
      using vm_execute_opcodes_mono [OF that(1)] that(2,3) by (simp add: compiler_emit_n_def)
    then show ?thesis by (rule that)
  qed
  let ?F = "max f0 f1"
  have ts: "compiles cap (compile_scope ?F ts) 512 (\<Gamma>, 0, n, m) (\<Gamma>t, kt, nt, m1) t"
    by (rule elab_compiles(2) [OF tf(1)]) simp
  have fsc: "case fs of None \<Rightarrow> f = [] \<and> m' = m1
      | Some ss \<Rightarrow> compiles cap (compile_scope ?F ss) 512 (\<Gamma>, 0, n, m1) (\<Gamma>f, kf, nf, m') f"
    using tf(2) elab_compiles(2) [of cap 512 "(\<Gamma>, 0, n, m1)" _ _ f ?F] by (cases fs) auto
  obtain bt bf where b: "compile_scope ?F ts (enter_block (sc_stack_size (c_scope c1)) c1) = Inr (0, bt)"
    "(case fs of None \<Rightarrow> Inr (0, enter_block (sc_stack_size (c_scope (leave_scope bt))) (leave_scope bt))
      | Some stats \<Rightarrow> compile_scope ?F stats (enter_block (sc_stack_size (c_scope (leave_scope bt))) (leave_scope bt))) =
     Inr (0, bf)"
    "em_wf (block_emitter bt)" "em_bytes (block_emitter bt) = t" "em_page_size (block_emitter bt) = 512"
    "em_size (block_emitter bf) = length f" "compiler_emitter_sink (block_emitter bf) = Inr f"
    "c_scope (leave_scope bf) = c_scope c1" "c_parents (leave_scope bf) = c_parents c1" "c_vm (leave_scope bf) = c_vm c1"
    "scope_env (leave_scope bf) = (\<Gamma>, k, n, m')"
    by (rule compile_branches [OF ts fsc c1(2,4)])
  let ?c' = "(leave_scope bf)\<lparr>c_vm := ?st\<rparr>"
  have "emit_selection ?F (block_emitter bt) (block_emitter bf) (leave_scope bf) = Inr (0, ?c')"
    using emit_selection_code [OF b(3-7) _ tf(5)] tf(4) f1 [of ?F "leave_scope bf"] b(8,10) c1(3) by simp
  then have "compile_statement ?F (Stat_If e ts fs) c = Inr (0, ?c')"
    using c1(1) b(1,2) by (cases fs) (simp_all del: compile_expression.simps)
  moreover have "session cap ?c' (\<Gamma>, k, n, m') (\<rho>1 |` dom \<rho>) \<and> same_frame c ?c'"
    by (rule sessionI [where lcs = lcs']) (use b c1 l in simp_all)
  ultimately show ?thesis unfolding \<Gamma>' by blast
qed

lemma while_interactive:
  assumes s: "session cap c (\<Gamma>, k, n, m) \<rho>"
    and elab: "elab_stat cap page (\<Gamma>, k, n, m) (Stat_While e body) = Some ((\<Gamma>', k', n', m'), code)"
    and sem: "sem_stat (Stat_While e body) \<rho> \<rho>'"
    and room: "m' \<le> length (locals (current_frame (c_vm c)))"
      "4 * (length (stack (current_frame (c_vm c))) + stat_depth (Stat_While e body)) \<le> stack_cap (current_frame (c_vm c))"
  shows "\<exists>fuel c'. compile_statement fuel (Stat_While e body) c = Inr (0, c') \<and>
    session cap c' (\<Gamma>', k', n', m') \<rho>' \<and> same_frame c c'"
proof -
  let ?f = "current_frame (c_vm c)"
  have c: "sc_vars_cap (c_scope c) = cap" "sc_emitter (c_scope c) = Unbuffered" "scope_env c = (\<Gamma>, k, n, m)"
    "holds \<Gamma> n \<rho> (locals ?f)" using s by (simp_all add: session_def)
  obtain \<Gamma>b kb nb b where b: "elab_scope cap 512 (\<Gamma>, 0, n, m) body = Some ((\<Gamma>b, kb, nb, m'), b)"
    "type_of \<Gamma> e = Some TYPE_INT" "length (concat (code_of \<Gamma> e)) + length b + 6 < 256"
    and \<Gamma>': "\<Gamma>' = \<Gamma>" "k' = k" "n' = n" and code: "code = while_code (concat (code_of \<Gamma> e)) b"
    by (rule elab_While [OF elab]) auto
  from sem_simulates(1) [OF sem elab room(2)] c(4) room(1) obtain lcs' where
    "exec_block code (set_frame (c_vm c) (stack ?f) (locals ?f) 0) (set_frame (c_vm c) (stack ?f) lcs' (0 + int (length code)))"
    and l: "holds \<Gamma> n \<rho>' lcs'" "length lcs' = length (locals ?f)"
    unfolding \<Gamma>' by (elim simulatesE)
  then have run: "exec_block code (c_vm c) (set_frame (c_vm c) (stack ?f) lcs' (int (length code)))"
    by (simp add: set_frame_id)
  let ?st = "set_frame (c_vm c) (stack ?f) lcs' (int (length code))"
  obtain F where F: "vm_execute_opcodes F code (c_vm c) = Inr ?st" using exec_block_run [OF run] by blast
  have cb: "compiles cap (compile_scope F body) 512 (\<Gamma>, 0, n, m) (\<Gamma>b, kb, nb, m') b"
    by (rule elab_compiles(2) [OF b(1)]) simp
  obtain c1 bb c3 where p:
    "compile_expression F e (set_emitter (Buffered (compiler_emitter_buffered_new 256)) c) = Inr (0, c1)"
    "truncate_vars (length (sc_vars (c_scope c))) c1 = c1" "compile_scope F body (enter_block 0 c1) = Inr (0, bb)"
    "em_size (block_emitter (leave_scope bb)) = length (concat (code_of \<Gamma> e))"
    "compiler_emitter_sink (block_emitter (leave_scope bb)) = Inr (concat (code_of \<Gamma> e))"
    "em_size (block_emitter bb) = length b" "compiler_emitter_sink (block_emitter bb) = Inr b"
    "c3 = set_emitter (sc_emitter (c_scope c)) (leave_scope bb)"
    "scope_env c3 = (\<Gamma>, k, n, m')" "sc_emitter (c_scope c3) = sc_emitter (c_scope c)"
    "sc_vars_off (c_scope c3) = sc_vars_off (c_scope c)" "sc_vars_cap (c_scope c3) = sc_vars_cap (c_scope c)"
    "sc_is_function_scope (c_scope c3) = sc_is_function_scope (c_scope c)" "c_parents c3 = c_parents c"
    "c_vm c3 = c_vm c" by (rule compile_loop_parts [OF cb b(2) c(1,3)])
  have "emit_loop F (block_emitter (leave_scope bb)) (block_emitter bb) c3 = Inr (0, c3\<lparr>c_vm := ?st\<rparr>)"
    unfolding emit_loop_code [OF p(4-7) b(3)] code [symmetric]
    using F p(10,15) c(2) by (simp add: compiler_emit_n_def)
  then have "compile_statement F (Stat_While e body) c = Inr (0, c3\<lparr>c_vm := ?st\<rparr>)"
    using p(1-3,8) by (simp del: compile_expression.simps)
  moreover have "session cap (c3\<lparr>c_vm := ?st\<rparr>) (\<Gamma>, k, n, m') \<rho>' \<and> same_frame c (c3\<lparr>c_vm := ?st\<rparr>)"
    by (rule sessionI [where lcs = lcs']) (use p c l in simp_all)
  ultimately show ?thesis unfolding \<Gamma>' by blast
qed

lemma statement_interactive:
  assumes "sem_stat s \<rho> \<rho>'" "session cap c (\<Gamma>, k, n, m) \<rho>"
    and "elab_stat cap page (\<Gamma>, k, n, m) s = Some ((\<Gamma>', k', n', m'), code)"
    and "m' \<le> length (locals (current_frame (c_vm c)))"
      "4 * (length (stack (current_frame (c_vm c))) + stat_depth s) \<le> stack_cap (current_frame (c_vm c))"
  shows "\<exists>fuel c'. compile_statement fuel s c = Inr (0, c') \<and> session cap c' (\<Gamma>', k', n', m') \<rho>' \<and> same_frame c c'"
  using assms(1)
proof (cases rule: sem_stat.cases)
  case (sem_assign_new x e v)
  then show ?thesis using assign_interactive [of cap c \<Gamma> k n m \<rho> page x e _ _ _ _ _ v v] assms(2-) by simp
next
  case (sem_assign x w e v v')
  then show ?thesis using assign_interactive [of cap c \<Gamma> k n m \<rho> page x e _ _ _ _ _ v v'] assms(2-) by simp
next
  case (sem_if_true e w ts \<rho>1 fs)
  then show ?thesis using if_interactive [of cap c \<Gamma> k n m \<rho> page e ts fs _ _ _ _ _ w] assms(2-) by simp
next
  case (sem_if_false e fs \<rho>1 ts)
  then show ?thesis using if_interactive [of cap c \<Gamma> k n m \<rho> page e ts fs _ _ _ _ _ 0] assms(2-) by simp
next
  case (sem_while_end e body)
  then show ?thesis using while_interactive [of cap c \<Gamma> k n m \<rho> page e body] assms by simp
next
  case (sem_while e w body \<rho>1)
  then show ?thesis using while_interactive [of cap c \<Gamma> k n m \<rho> page e body] assms by simp
qed

end
