(* ===== verification/Session.thy ===== *)
theory Session
  imports Stat_Interactive Parser_Calls
begin

text \<open>
  The whole shell in interactive mode: the statements of a session, as the parser hands them to
  the actions, run on the machine with the result the semantics of the source gives.
\<close>

subsection \<open>A list of statements\<close>

definition start :: front where
  "start = front_init (lexer_init\<lparr>is_interactive := True\<rparr>)"

lemma start_idle: "idle start"
  by (simp add: start_def front_init_def idle_def not_inside_func_def selection_def iteration_def lexer_init_def)

lemma start_session:
  "session 64 (f_compiler start) (Map.empty, 0, 0, 0) Map.empty"
  "stack (current_frame (c_vm (f_compiler start))) = []"
  "stack_cap (current_frame (c_vm (f_compiler start))) = 1024"
  "length (locals (current_frame (c_vm (f_compiler start)))) = 256"
  by (simp_all add: start_def front_init_def lexer_init_def compiler_init_def compiler_get_root_frame_def session_def
      scope_env_def compiler_slots_def c_chain_def fun_eq_iff holds_def slots_ok_def machine_env_def
      vm_static_init_def new_frame_def)

text \<open>No statement of the fragment is a \<open>return\<close>, and a session of such statements stays idle.\<close>

lemma elab_not_ret: "elab_stat cap page env st = Some r \<Longrightarrow> st \<noteq> Stat_Ret e"
  by auto

lemma program_interactive:
  assumes "sem_scope ss \<rho> \<rho>'" "elab_scope cap page env ss = Some ((\<Gamma>', k', n', m'), code)"
    and "session cap (f_compiler s) env \<rho>" "idle s" "\<forall>st \<in> set ss. plain_stat st"
    and "m' \<le> length (locals (current_frame (c_vm (f_compiler s))))"
      "4 * (length (stack (current_frame (c_vm (f_compiler s)))) + scope_depth ss) \<le>
        stack_cap (current_frame (c_vm (f_compiler s)))"
  shows "\<exists>fuel0 s'. (\<forall>fuel \<ge> fuel0. parse_program fuel ss s = Inr s') \<and> idle s' \<and>
    session cap (f_compiler s') (\<Gamma>', k', n', m') \<rho>' \<and> same_frame (f_compiler s) (f_compiler s')"
  using assms
proof (induction ss arbitrary: \<rho> env code s)
  case Nil
  then have "\<rho>' = \<rho>" "env = (\<Gamma>', k', n', m')" by (auto elim: sem_scope.cases)
  moreover have "same_frame (f_compiler s) (f_compiler s)"
    unfolding same_frame_def by (metis set_frame_id)
  ultimately show ?case using Nil by (intro exI [of _ 0] exI [of _ s]) simp
next
  case (Cons st ss)
  obtain \<rho>1 where sem: "sem_stat st \<rho> \<rho>1" "sem_scope ss \<rho>1 \<rho>'" using Cons.prems(1) by (auto elim: sem_scope.cases)
  obtain env1 a b where el: "elab_stat cap page env st = Some (env1, a)"
    "elab_scope cap page env1 ss = Some ((\<Gamma>', k', n', m'), b)"
    using Cons.prems(2) by (auto split: option.splits)
  obtain \<Gamma> k n m \<Gamma>1 k1 n1 m1 where env: "env = (\<Gamma>, k, n, m)" "env1 = (\<Gamma>1, k1, n1, m1)" by (metis prod.exhaust)
  let ?c = "f_compiler s"
  have m1: "m1 \<le> length (locals (current_frame (c_vm ?c)))"
    using elab_grows(2) [OF el(2)] env Cons.prems(6) by (simp add: env_grows_def)
  have "4 * (length (stack (current_frame (c_vm ?c))) + stat_depth st) \<le> stack_cap (current_frame (c_vm ?c))"
    using Cons.prems(7) by simp
  from statement_interactive [OF sem(1) _ _ m1 this] Cons.prems(3) el(1) env
  obtain f0 c1 where c1: "compile_statement f0 st ?c = Inr (0, c1)" "session cap c1 (\<Gamma>1, k1, n1, m1) \<rho>1" "same_frame ?c c1"
    by blast
  have c1': "compile_statement fuel st ?c = Inr (0, c1)" if "f0 \<le> fuel" for fuel
    using less_stuckD [OF compile_statement_fuel(1) [OF that] c1(1)] .
  obtain j where j: "\<And>fuel. parse_stat fuel st s = sbind (compile_statement fuel st ?c)
      (\<lambda>(res, c). Inr (None, (add_overrun j s)\<lparr>f_compiler := c\<rparr>))"
    using parse_top [of st s] Cons.prems(4,5) elab_not_ret [OF el(1)] by auto
  let ?s1 = "(add_overrun j s)\<lparr>f_compiler := c1\<rparr>"
  have idle: "idle ?s1" using Cons.prems(4) by (simp add: idle_def)
  have "\<exists>fuel0 s'. (\<forall>fuel \<ge> fuel0. parse_program fuel ss ?s1 = Inr s') \<and> idle s' \<and>
    session cap (f_compiler s') (\<Gamma>', k', n', m') \<rho>' \<and> same_frame (f_compiler ?s1) (f_compiler s')"
    by (rule Cons.IH [OF sem(2) el(2) _ idle])
      (use c1(2) env(2) Cons.prems(5-7) same_frame_stack [OF c1(3)] in simp_all)
  then obtain f1 s' where s': "\<And>fuel. f1 \<le> fuel \<Longrightarrow> parse_program fuel ss ?s1 = Inr s'" "idle s'"
    "session cap (f_compiler s') (\<Gamma>', k', n', m') \<rho>'" "same_frame c1 (f_compiler s')" by auto
  have "parse_program fuel (st # ss) s = Inr s'" if "max f0 f1 \<le> fuel" for fuel
    using j [of fuel] c1' [of fuel] s'(1) [of fuel] that by simp
  with s' same_frame_trans [OF c1(3) s'(4)] show ?case by blast
qed

subsection \<open>Properties\<close>

text \<open>
  The interpreter is correct. Take a session of assignments, selections and loops in the
  fragment of \<open>elab_scope\<close>, as written in the source, whose variables fit the 256 slots of the root
  frame and whose expressions fit its operand stack of 1024 bytes. If the semantics takes the
  empty store to \<open>\<rho>'\<close>, then the program, started in interactive mode, reads the session to its
  end without a fault, leaves its operand stack empty, and its variables hold \<open>\<rho>'\<close>.
\<close>

theorem interactive_session_correct:
  assumes "sem_scope ss Map.empty \<rho>'" "\<forall>st \<in> set ss. plain_stat st"
    and "elab_scope 64 page (Map.empty, 0, 0, 0) ss = Some ((\<Gamma>', k', n', m'), code)"
    and "m' \<le> 256" "scope_depth ss \<le> 256"
  shows "\<exists>fuel0 s'. (\<forall>fuel \<ge> fuel0. parse_program fuel ss (front_init (lexer_init\<lparr>is_interactive := True\<rparr>)) = Inr s') \<and>
    compiler_slots (f_compiler s') = \<Gamma>' \<and>
    machine_env \<Gamma>' (locals (current_frame (c_vm (f_compiler s')))) = \<rho>' \<and>
    stack (current_frame (c_vm (f_compiler s'))) = []"
proof -
  obtain f0 s' where s': "\<And>fuel. f0 \<le> fuel \<Longrightarrow> parse_program fuel ss start = Inr s'"
    "session 64 (f_compiler s') (\<Gamma>', k', n', m') \<rho>'" "same_frame (f_compiler start) (f_compiler s')"
    using program_interactive [OF assms(1,3) start_session(1) start_idle assms(2)] assms(4,5) start_session(2-4) by auto
  have "compiler_slots (f_compiler s') = \<Gamma>'" using s'(2) by (simp add: session_def scope_env_def)
  moreover have "machine_env \<Gamma>' (locals (current_frame (c_vm (f_compiler s')))) = \<rho>'"
    using s'(2) by (simp add: session_def holds_def)
  moreover have "stack (current_frame (c_vm (f_compiler s'))) = []"
    using same_frame_stack [OF s'(3)] start_session(2) by simp
  ultimately show ?thesis using s'(1) unfolding start_def by blast
qed

text \<open>
  The session \<open>y = 3; while (0 < y) { y = y - 3 }; if (y) { y = 7 } else { y = 8 }\<close>.
\<close>

definition demo_session :: "stat list" where
  "demo_session =
     [assign ''y'' (Literal_Int 3),
      Stat_While (Binary_Op 0 LESS_THAN (Literal_Int 0) (Ident 0 ''y''))
        [assign ''y'' (Binary_Op 0 SUBTRACTION (Ident 0 ''y'') (Literal_Int 3))],
      Stat_If (Ident 0 ''y'') [assign ''y'' (Literal_Int 7)] (Some [assign ''y'' (Literal_Int 8)])]"

lemma demo_session_sem: "sem_scope demo_session Map.empty [''y'' \<mapsto> Int_Val 8]"
proof -
  let ?r = "\<lambda>i. [''y'' \<mapsto> Int_Val i]"
  let ?e = "Binary_Op 0 LESS_THAN (Literal_Int 0) (Ident 0 ''y'')"
  let ?b = "[assign ''y'' (Binary_Op 0 SUBTRACTION (Ident 0 ''y'') (Literal_Int 3))]"
  have 1: "sem_stat (assign ''y'' (Literal_Int 3)) Map.empty (Map.empty(''y'' \<mapsto> Int_Val 3))"
    by (rule sem_assign_new) simp_all
  have body: "sem_scope ?b (?r 3) ((?r 3)(''y'' \<mapsto> Int_Val 0))"
    by (rule sem_Cons [OF sem_assign [where w = "Int_Val 3" and v = "Int_Val 0" and v' = "Int_Val 0"] sem_Nil])
      (simp_all add: binary_value_def convert_def)
  have dom: "(?r 3)(''y'' \<mapsto> Int_Val 0) |` dom (?r 3) = ?r 0" by (rule ext) (simp add: restrict_map_def)
  have "sem_stat (Stat_While ?e ?b) ((?r 3)(''y'' \<mapsto> Int_Val 0) |` dom (?r 3)) (?r 0)"
    unfolding dom by (rule sem_while_end) (simp add: binary_value_def)
  then have 2: "sem_stat (Stat_While ?e ?b) (?r 3) (?r 0)"
    by (rule sem_while [OF _ _ body, of _ 1, rotated 2]) (simp_all add: binary_value_def)
  have "sem_scope [assign ''y'' (Literal_Int 8)] (?r 0) ((?r 0)(''y'' \<mapsto> Int_Val 8))"
    by (rule sem_Cons [OF sem_assign [where w = "Int_Val 0" and v = "Int_Val 8" and v' = "Int_Val 8"] sem_Nil])
      (simp_all add: convert_def)
  then have "sem_stat (Stat_If (Ident 0 ''y'') [assign ''y'' (Literal_Int 7)] (Some [assign ''y'' (Literal_Int 8)]))
      (?r 0) ((?r 0)(''y'' \<mapsto> Int_Val 8) |` dom (?r 0))"
    by (intro sem_if_false) simp_all
  moreover have "(?r 0)(''y'' \<mapsto> Int_Val 8) |` dom (?r 0) = ?r 8" by (rule ext) (simp add: restrict_map_def)
  ultimately have 3: "sem_stat (Stat_If (Ident 0 ''y'') [assign ''y'' (Literal_Int 7)] (Some [assign ''y'' (Literal_Int 8)]))
      (?r 0) (?r 8)" by simp
  from sem_Cons [OF 1 sem_Cons [OF 2 sem_Cons [OF 3 sem_Nil]]] show ?thesis by (simp add: demo_session_def)
qed

lemma demo_session_elab:
  "elab_scope 64 100 (Map.empty, 0, 0, 0) demo_session = Some (([''y'' \<mapsto> (TYPE_INT, 0)], 1, 1, 1),
     [0x36, 0, 0, 0, 3, 0x33, 0] @
     [0x36, 0, 0, 0, 0, 0x32, 0, 0x4c, 0x62, 0, 13, 0x32, 0, 0x36, 0, 0, 0, 3, 0x43, 0x33, 0, 0x61, 0, 24] @
     [0x32, 0, 0x62, 0, 10, 0x36, 0, 0, 0, 7, 0x33, 0, 0x60, 0, 7, 0x36, 0, 0, 0, 8, 0x33, 0])"
  by (simp add: demo_session_def result_type_def int_operator_to_opcode_def binary_opcode_def while_code_def
        if_code_def jump_lo_def be32_bytes_def be16_bytes_def OPCODE_SAVE_def OPCODE_LOAD_def promote_def)

lemma interactive_session_correct_witness:
  "\<exists>fuel0 s'. (\<forall>fuel \<ge> fuel0. parse_program fuel demo_session (front_init (lexer_init\<lparr>is_interactive := True\<rparr>)) = Inr s') \<and>
    compiler_slots (f_compiler s') = [''y'' \<mapsto> (TYPE_INT, 0)] \<and>
    machine_env [''y'' \<mapsto> (TYPE_INT, 0)] (locals (current_frame (c_vm (f_compiler s')))) = [''y'' \<mapsto> Int_Val 8] \<and>
    stack (current_frame (c_vm (f_compiler s'))) = []"
  by (rule interactive_session_correct [OF demo_session_sem _ demo_session_elab]) (simp_all add: demo_session_def)

end
