(* ===== verification/Main_Options.thy ===== *)
theory Main_Options
  imports Frontend
begin

text \<open>
  The start of the program (\<open>main.c\<close>): the words of the command line set the mode and open the
  source. Opening a file is up to the operating system and is a parameter, \<open>openable\<close>. The shift
  an option reader returns only tells whether the word was understood; every word advances by one.
\<close>

datatype exit_reason = Empty_Short_Option | Empty_Long_Option | Cannot_Open string | Option_Parse_Error

fun exit_code :: "exit_reason \<Rightarrow> int" where
  "exit_code (Cannot_Open file) = - 1"
| "exit_code Empty_Short_Option = - 2"
| "exit_code Empty_Long_Option = - 2"
| "exit_code Option_Parse_Error = - 2"

definition read_short_option :: "string \<Rightarrow> lexer_state \<Rightarrow> nat \<times> lexer_state" where
  "read_short_option word lexer =
     (if word = ''-i'' then (1, lexer\<lparr>is_interactive := True\<rparr>) else (0, lexer))"

definition read_long_option :: "string \<Rightarrow> lexer_state \<Rightarrow> nat \<times> lexer_state" where
  "read_long_option word lexer =
     (if word = ''--interactive'' then (1, lexer\<lparr>is_interactive := True\<rparr>) else (0, lexer))"

text \<open>The source the lexer reads: standard input or the file opened last.\<close>

fun read_options :: "(string \<Rightarrow> bool) \<Rightarrow> string list \<Rightarrow> lexer_state \<Rightarrow> string option \<Rightarrow>
    exit_reason + (lexer_state \<times> string option)" where
  "read_options openable [] lexer source = Inr (lexer, source)"
| "read_options openable (word # words) lexer source =
     (if take 1 word = ''-'' then
        if drop 1 word = '''' then Inl Empty_Short_Option
        else if take 1 (drop 1 word) = ''-'' then
          if drop 2 word = '''' then Inl Empty_Long_Option
          else case read_long_option word lexer of
                 (shift, lexer) \<Rightarrow>
                   if shift = 0 then Inl Option_Parse_Error else read_options openable words lexer source
        else case read_short_option word lexer of
               (shift, lexer) \<Rightarrow>
                 if shift = 0 then Inl Option_Parse_Error else read_options openable words lexer source
      else if openable word then read_options openable words lexer (Some word)
      else Inl (Cannot_Open word))"

text \<open>
  The state \<open>main\<close> hands to the parser. The machine and the compiler are initialised before the
  options are read; the root scope of the compiler is made when the first statement is compiled,
  after them.
\<close>

definition main_init :: "(string \<Rightarrow> bool) \<Rightarrow> string list \<Rightarrow> exit_reason + (front \<times> string option)" where
  "main_init openable words =
     sbind (read_options openable words lexer_init None) (\<lambda>(lexer, source). Inr (front_init lexer, source))"

lemma main_init_Inr:
  "main_init openable words = Inr (s, source) \<longleftrightarrow>
     (\<forall>w \<in> set words. if take 1 w = ''-'' then w \<in> {''-i'', ''--interactive''} else openable w) \<and>
     s = front_init (lexer_init\<lparr>is_interactive := ''-i'' \<in> set words \<or> ''--interactive'' \<in> set words\<rparr>) \<and>
     source = (case filter (\<lambda>w. take 1 w \<noteq> ''-'') words of [] \<Rightarrow> None | fs \<Rightarrow> Some (last fs))"
proof -
  have "read_options openable words lexer src = Inr (lexer', source) \<longleftrightarrow>
     (\<forall>w \<in> set words. if take 1 w = ''-'' then w \<in> {''-i'', ''--interactive''} else openable w) \<and>
     lexer' = lexer\<lparr>is_interactive := is_interactive lexer \<or> ''-i'' \<in> set words \<or> ''--interactive'' \<in> set words\<rparr> \<and>
     source = (case filter (\<lambda>w. take 1 w \<noteq> ''-'') words of [] \<Rightarrow> src | fs \<Rightarrow> Some (last fs))" for lexer lexer' src
  proof (induction words arbitrary: lexer src)
    case (Cons w ws)
    show ?case
    proof (cases "take 1 w = ''-''")
      case True
      have "drop 1 w \<noteq> []" "take 1 (drop 1 w) \<noteq> ''-''" if "w = ''-i''" using that by simp_all
      then show ?thesis
        using True Cons by (auto simp: read_long_option_def read_short_option_def split: if_splits)
    next
      case False
      then have "w \<noteq> ''-i''" "w \<noteq> ''--interactive''" by auto
      then show ?thesis using False Cons by (auto split: list.split)
    qed
  qed auto
  then show ?thesis by (auto simp: main_init_def lexer_init_def)
qed

text \<open>
  C23. The command line is accepted exactly when every word is one of the two options or a file
  that can be opened; then the mode is interactive exactly when one of the options was given, and
  the last file is the source.
\<close>

theorem main_init_accepts:
  "main_init openable words = Inr (s, source) \<longleftrightarrow>
     (\<forall>w \<in> set words. if take 1 w = ''-'' then w \<in> {''-i'', ''--interactive''} else openable w) \<and>
     s = front_init (lexer_init\<lparr>is_interactive := ''-i'' \<in> set words \<or> ''--interactive'' \<in> set words\<rparr>) \<and>
     source = (case filter (\<lambda>w. take 1 w \<noteq> ''-'') words of [] \<Rightarrow> None | fs \<Rightarrow> Some (last fs))"
  by (rule main_init_Inr)

lemma main_init_accepts_witness:
  "main_init (\<lambda>file. file = ''a.psh'') [''-i'', ''a.psh''] =
     Inr (front_init (lexer_init\<lparr>is_interactive := True\<rparr>), Some ''a.psh'')"
  by (subst main_init_accepts) simp

end
