(* ===== verification/Text_Session.thy ===== *)
theory Text_Session
  imports Yyparse_Stat Session Main_Options
begin

text \<open>
  From the characters of a program to the variables of the machine: scanner, parser, actions,
  compiler and virtual machine together.
\<close>

subsection \<open>Scanning for the parser\<close>

definition plain_lexeme :: "lexeme \<Rightarrow> bool" where
  "plain_lexeme l \<longleftrightarrow> proper l \<and> l \<noteq> L_Word ''class'' \<and> l \<noteq> L_Word ''func''"

lemma scanned_symbol:
  assumes "plain_lexeme l"
  shows "scanned (symbol_of l) s = s\<lparr>f_lexer := state_after l (f_lexer s)\<rparr>"
proof (cases l)
  case (L_Word w)
  with assms show ?thesis
    by (auto simp: plain_lexeme_def keyword_table_def scanned_def state_after_def keyword_def)
next
  case (L_Sign w)
  with assms show ?thesis by (auto simp: plain_lexeme_def sign_table_def scanned_def state_after_def)
qed (auto simp: scanned_def state_after_def lexer_handle_float_def)

lemma reads_lexeme:
  assumes "plain_lexeme l" "is_blank c"
  shows "reads_token (text_of l @ c # r) (symbol_of l) (c # r)"
proof -
  have "errors_of l st = []" for st using assms(1) by (simp add: plain_lexeme_def errors_of_def)
  moreover have "proper l" using assms(1) by (simp add: plain_lexeme_def)
  ultimately show ?thesis
    using yylex_text [OF _ assms(2)] scanned_symbol [OF assms(1)] by (simp add: reads_token_def)
qed

lemma scans_blank:
  "is_blank c \<Longrightarrow> us \<noteq> [] \<Longrightarrow> scans (c # r) us rest = scans (dropWhile is_blank r) us rest"
  by (cases us) (simp_all add: reads_token_def yylex_blank)

lemma reads_end: "reads_token [] (Value Tok_End) []"
  by (simp add: reads_token_def scanned_def yylex.simps lexer_handle_eof_def)

lemma scans_text:
  "\<forall>(l, sep) \<in> set ls. plain_lexeme l \<and> blanks sep \<Longrightarrow>
   scans (write_text ls) (map (symbol_of \<circ> fst) ls @ [Value Tok_End]) []"
proof (induction ls)
  case Nil
  then show ?case by (simp add: write_text_def reads_end)
next
  case (Cons p ls)
  obtain l sep where p: "p = (l, sep)" by (cases p)
  then obtain c cs where sep: "sep = c # cs" "is_blank c" "list_all is_blank cs" "plain_lexeme l"
    using Cons.prems by (cases sep) (auto simp: blanks_def)
  have ls: "\<forall>(l, sep) \<in> set ls. plain_lexeme l \<and> blanks sep" using Cons.prems by simp
  then have "dropWhile is_blank (write_text ls) = write_text ls"
    by (intro write_text_start) (auto simp: plain_lexeme_def)
  then have "dropWhile is_blank (cs @ write_text ls) = write_text ls" using sep(3) by (induction cs) auto
  then have "scans (c # cs @ write_text ls) (map (symbol_of \<circ> fst) ls @ [Value Tok_End]) []"
    using Cons.IH [OF ls] scans_blank [OF sep(2)] by (simp add: comp_def)
  moreover have "write_text (p # ls) = text_of l @ c # cs @ write_text ls" by (simp add: write_text_def p sep(1))
  ultimately show ?case using reads_lexeme [OF sep(4,2)] p by (auto simp: comp_def simp del: append_assoc)
qed

subsection \<open>The program\<close>

text \<open>
  \<open>main\<close> with its command line, the files that can be opened and the standard input. The result of
  the parser is ignored: the exit code is 0 also after a syntax error.
\<close>

definition psh_main :: "nat \<Rightarrow> (string \<Rightarrow> string option) \<Rightarrow> string \<Rightarrow> string list \<Rightarrow> (int \<times> front option) result" where
  "psh_main fuel files stdin words =
     (case main_init (\<lambda>file. files file \<noteq> None) words of
        Inl reason \<Rightarrow> Inr (exit_code reason, None)
      | Inr (s, source) \<Rightarrow>
          sbind (yyparse fuel (case source of None \<Rightarrow> stdin | Some file \<Rightarrow> the (files file)) s) (\<lambda>(res, s).
            Inr (0, Some s)))"

subsection \<open>Properties\<close>


text \<open>The text of \<open>demo_session\<close>.\<close>

definition spaced :: "lexeme list \<Rightarrow> (lexeme \<times> string) list" where
  "spaced = map (\<lambda>l. (l, '' ''))"

definition demo_lexemes :: "lexeme list" where
  "demo_lexemes =
     [L_Name ''y'', L_Sign ''='', L_Int 3, L_Newline,
      L_Word ''while'', L_Int 0, L_Sign ''<'', L_Name ''y'', L_Sign ''{'', L_Newline,
      L_Name ''y'', L_Sign ''='', L_Name ''y'', L_Sign ''-'', L_Int 3, L_Newline,
      L_Sign ''}'', L_Newline,
      L_Word ''if'', L_Name ''y'', L_Sign ''{'', L_Name ''y'', L_Sign ''='', L_Int 7, L_Sign '';'', L_Sign ''}'',
      L_Word ''else'', L_Sign ''{'', L_Name ''y'', L_Sign ''='', L_Int 8, L_Newline, L_Sign ''}'', L_Newline]"

lemma flush_one: "flushes [Character newline]" "flushes [Character (CHR '';'')]"
  by (simp_all add: flushes_def FLUSH_def)

lemma demo_session_written: "written_list demo_session (map (symbol_of \<circ> fst) (spaced demo_lexemes))"
proof -
  have g: "grammatical (Literal_Int 3)" "grammatical (Ident 0 ''y'')"
    "grammatical (Binary_Op 0 ASSIGNMENT (Ident 0 ''y'') (Literal_Int i))"
    "grammatical (Binary_Op 0 ASSIGNMENT (Ident 0 ''y'') (Binary_Op 0 SUBTRACTION (Ident 0 ''y'') (Literal_Int i)))"
    "grammatical (Binary_Op 0 LESS_THAN (Literal_Int i) (Ident 0 ''y''))" for i
    by (simp_all add: infix_operators next_sign_def sign_of_def binary_signs_def shifts_def token_prec_def)
  note a = written_expr [OF g(3) flush_one(1)] written_expr [OF g(3) flush_one(2)] written_expr [OF g(4) flush_one(1)]
  have 1: "written_block [assign ''y'' (Binary_Op 0 SUBTRACTION (Ident 0 ''y'') (Literal_Int 3))]
      ([Character newline] @ ((tokens_of (Binary_Op 0 ASSIGNMENT (Ident 0 ''y'') (Binary_Op 0 SUBTRACTION (Ident 0 ''y'') (Literal_Int 3))) @ [Character newline]) @ []) @ [Const 262])"
    by (rule written_block [where f = "Character newline", OF written_cons [OF a(3) written_nil]]) (simp add: FLUSH_def)
  have 2: "written_block [assign ''y'' (Literal_Int 7)]
      ([] @ ((tokens_of (Binary_Op 0 ASSIGNMENT (Ident 0 ''y'') (Literal_Int 7)) @ [Character (CHR '';'')]) @ []) @ [Const 262])"
    by (rule written_block [OF written_cons [OF a(2) written_nil]]) simp
  have 3: "written_block [assign ''y'' (Literal_Int 8)]
      ([] @ ((tokens_of (Binary_Op 0 ASSIGNMENT (Ident 0 ''y'') (Literal_Int 8)) @ [Character newline]) @ []) @ [Const 262])"
    by (rule written_block [OF written_cons [OF a(1) written_nil]]) simp
  from written_cons [OF a(1) [of 3] written_cons [OF written_while [OF g(5) [of 0] 1 flush_one(1)]
    written_cons [OF written_else [OF g(2) 2 3 flush_one(1)] written_nil]]]
  show ?thesis
    by (simp add: demo_session_def demo_lexemes_def spaced_def sign_of_def binary_signs_def
        keyword_table_def sign_table_def)
qed

lemma demo_lexemes_plain: "\<forall>(l, sep) \<in> set (spaced demo_lexemes). plain_lexeme l \<and> blanks sep"
  by (simp add: spaced_def demo_lexemes_def plain_lexeme_def blanks_def keyword_table_def sign_table_def char_classes)


text \<open>
  C15. A written program is parsed as the tree it was written for. On its text, tokens separated
  by blanks, statements ended by line breaks or semicolons, the scanner and the parser's automaton
  together make exactly the calls of \<open>parse_program\<close>, in its order and with its faults, although the
  parser reads a token ahead before many of them; then the parser returns 0.
\<close>

theorem text_parsed:
  assumes "written_list ss (map (symbol_of \<circ> fst) ls)" "\<forall>(l, sep) \<in> set ls. plain_lexeme l \<and> blanks sep" "ss \<noteq> []"
  shows "yyparse fuel (write_text ls) s = sbind (parse_program fuel ss s) (\<lambda>s. Inr (0, s))"
  by (rule yyparse_written [OF assms(1,3) scans_text [OF assms(2)]])

lemma text_parsed_witness:
  "yyparse 5 (write_text (spaced demo_lexemes)) start = sbind (parse_program 5 demo_session start) (\<lambda>s. Inr (0, s))"
  by (rule text_parsed [OF demo_session_written demo_lexemes_plain]) (simp add: demo_session_def)

text \<open>
  C38. A syntax error undoes nothing. If a token that starts no statement follows a program, such
  as an \<open>else\<close> on a line of its own, the parser has already compiled and run the whole program
  before it prints the error and gives up; what follows is not read.
\<close>

theorem syntax_error_stops:
  assumes "written_list ss (map (symbol_of \<circ> fst) ls)" "ss \<noteq> []" "no_statement (symbol_of l)"
    and "\<forall>(l, sep) \<in> set (ls @ (l, sep) # later). plain_lexeme l \<and> blanks sep"
  shows "yyparse fuel (write_text (ls @ (l, sep) # later)) s =
    sbind (parse_program fuel ss s) (\<lambda>s. Inr (1, yyerror ''syntax error'' s))"
proof -
  have "scans (write_text (ls @ (l, sep) # later))
      ((map (symbol_of \<circ> fst) ls @ [symbol_of l]) @ map (symbol_of \<circ> fst) later @ [Value Tok_End]) []"
    using scans_text [OF assms(4)] by simp
  then obtain rest where "scans (write_text (ls @ (l, sep) # later)) (map (symbol_of \<circ> fst) ls @ [symbol_of l]) rest"
    unfolding scans_append [of _ "map (symbol_of \<circ> fst) ls @ [symbol_of l]"] by blast
  from yyparse_stopped [OF assms(1,2) this assms(3)] show ?thesis .
qed

lemma syntax_error_stops_witness:
  "yyparse 5 (write_text (spaced demo_lexemes @ (L_Word ''else'', '' '') # spaced [L_Sign ''{'', L_Newline])) start =
    sbind (parse_program 5 demo_session start) (\<lambda>s. Inr (1, yyerror ''syntax error'' s))"
proof (rule syntax_error_stops [OF demo_session_written])
  show "no_statement (symbol_of (L_Word ''else''))"
    by (simp add: no_statement_def starts_def FLUSH_def keyword_table_def)
  show "\<forall>(l, sep) \<in> set (spaced demo_lexemes @ (L_Word ''else'', '' '') # spaced [L_Sign ''{'', L_Newline]).
      plain_lexeme l \<and> blanks sep"
    by (simp add: spaced_def demo_lexemes_def plain_lexeme_def blanks_def keyword_table_def sign_table_def char_classes)
qed (simp add: demo_session_def)



end
