(* ===== verification/Frontend_Claims.thy ===== *)
theory Frontend_Claims
  imports Parser_Calls
begin

text \<open>The properties of the parser actions, each with an instance where it has a hypothesis.\<close>

subsection \<open>Printing and freeing\<close>

text \<open>
  C14. The printed form of a tree overruns its blocks by an exactly known number of bytes: one
  for every identifier and every \<open>return\<close>, one for every ternary operator, three for a function
  without a return type, and what a float literal prints beyond 26 characters.
\<close>

theorem print_overrun_exact:
  assumes "ast_node_to_string n = Inr (s, k)"
  shows "k = node_overrun n"
  by (rule print_overrun(1) [OF assms])

lemma print_overrun_exact_witness: "ast_node_to_string (N_Stat_Ret (Some (N_Ident ''x''))) = Inr (''(ret (ident=x) ;)'', 2)"
proof -
  have "ast_node_to_string (N_Stat_Ret (Some (N_Ident ''x''))) = Inr (''(ret (ident=x) ;)'', 2)"
    by (simp add: to_string_defs sprintf_def)
  moreover from print_overrun_exact [OF this] have "node_overrun (N_Stat_Ret (Some (N_Ident ''x''))) = 2" by simp
  ultimately show ?thesis by simp
qed

text \<open>
  C13. Freeing a tree hands every block of the tree to \<open>free\<close>, each exactly once: the structs of
  all its nodes and the strings they own, nothing else.
\<close>

theorem free_everything_once:
  assumes "ast_free_node n = Inr blocks"
  shows "mset blocks = mset (node_blocks n)"
  by (rule free_blocks(1) [OF assms])

lemma free_everything_once_witness:
  "mset [Str ''x'', Struct (N_Ident ''x''), Struct (N_Group (Some (N_Ident ''x'')))] =
   mset (node_blocks (N_Group (Some (N_Ident ''x''))))"
  by (rule free_everything_once) simp

subsection \<open>Statements\<close>


definition demo_front :: front where
  "demo_front = front_init (lexer_init\<lparr>is_interactive := True\<rparr>)"

lemma demo_front_idle: "idle demo_front"
  by (simp add: demo_front_def front_init_def idle_def not_inside_func_def selection_def iteration_def lexer_init_def)

definition demo_if :: stat where
  "demo_if = Stat_If (Ident TYPE_UNKNWN ''x'') [Stat_Expr (Literal_Int 1)] (Some [])"


text \<open>The node of a function definition.\<close>

definition args_node :: "(string \<times> string) list \<Rightarrow> node" where
  "args_node args = N_Func_Arg_List (map (\<lambda>(name, type_name). N_Decl_Var name type_name) args)"

definition func_node :: "string \<Rightarrow> (string \<times> string) list \<Rightarrow> string option \<Rightarrow> stat list \<Rightarrow> node" where
  "func_node name args ret_type body = N_Decl_Func name (Some (args_node args)) ret_type (Some (scope_node body))"

lemma parse_args_node: "args \<noteq> [] \<Longrightarrow> parse_args args s = Inr (Some (args_node args), s)"
proof -
  have link: "link_args rest (Some (N_Func_Arg_List vs)) =
      Some (N_Func_Arg_List (vs @ map (\<lambda>(name, type_name). N_Decl_Var name type_name) rest))" for rest vs
    by (induction rest arbitrary: vs) auto
  assume "args \<noteq> []"
  then show ?thesis
    by (cases args) (auto simp: parse_args_def args_node_def ast_new_node_decl_var_def ast_new_node_func_arg_list_def
        NODE_UPCAST_def read_node_def link)
qed

lemma func_node_upcast:
  "NODE_UPCAST (Some (scope_node body)) AST_NODE_TYPE_SCOPE = Inr (Some (scope_node body))"
  "NODE_UPCAST (Some (args_node args)) AST_NODE_TYPE_FUNC_ARG_LIST = Inr (Some (args_node args))"
  by (simp_all add: NODE_UPCAST_def read_node_def scope_node_def args_node_def)

lemma func_node_printable: "printable (func_node name args ret_type body)"
proof -
  have "\<exists>ss j. ast_nodes_to_string (map (\<lambda>(name, type_name). N_Decl_Var name type_name) args) = Inr (ss, j)"
    by (induction args) (auto simp: to_string_defs sprintf_def)
  with printable_scope [of body] show ?thesis
    by (auto simp: printable_def func_node_def args_node_def to_string_defs sprintf_def arg_nodes_def Let_def)
qed

lemma func_node_freeable: "\<forall>st \<in> set body. plain_stat st \<Longrightarrow> freeable (func_node name args ret_type body)"
proof -
  assume b: "\<forall>st \<in> set body. plain_stat st"
  have "\<exists>bs. free_decl_vars (map (\<lambda>(name, type_name). N_Decl_Var name type_name) args) = Inr bs"
    by (induction args) (auto simp: ast_free_node_decl_var_def)
  moreover have "\<exists>bs. ast_free_nodes (map stat_node body) = Inr bs"
    by (rule freeable_list) (use b plain_stat_freeable in auto)
  ultimately show ?thesis
    by (auto simp: freeable_def func_node_def args_node_def ast_free_node_func_arg_list_def scope_node_def)
qed

lemma func_node_global:
  "\<forall>st \<in> set body. plain_stat st \<Longrightarrow> node_global (func_node name args ret_type body) =
     Some (Global_Func \<lparr>df_name = name, df_ret_type = ret_type, df_args = Some args, df_body = body\<rparr>)"
proof -
  assume b: "\<forall>st \<in> set body. plain_stat st"
  have "arg_pairs (map (\<lambda>(name, type_name). N_Decl_Var name type_name) args) = Some args" by (induction args) auto
  moreover have "node_stats (map stat_node body) = Some body"
    by (rule node_stats_map) (use b plain_stat_node in auto)
  ultimately show ?thesis
    by (simp add: node_global_def node_args_def scope_node_def func_node_def args_node_def)
qed



subsection \<open>Inputs the actions get wrong\<close>

lemma decl_var_upcast: "NODE_UPCAST_EXPR (Some (N_Decl_Var name type_name)) = Inr None"
  by (simp add: NODE_UPCAST_EXPR_def read_node_def)

text \<open>
  A variable declaration used as a statement, or as the target of an initialisation, is not an
  expression node: the check reports it and goes on, and printing the node that lacks its part
  dereferences NULL.
\<close>

theorem declaration_crashes:
  "ast_new_node_stat_expr fuel (Some (N_Decl_Var name type_name)) s = Inl Null_Deref \<and>
   (\<forall>right r. NODE_UPCAST_EXPR right = Inr (Some r) \<longrightarrow>
     ast_new_node_binary_op ASSIGNMENT (Some (N_Decl_Var name type_name)) right s = Inl Null_Deref)"
proof (intro conjI allI impI)
  fix right r
  assume "NODE_UPCAST_EXPR right = Inr (Some r)"
  then show "ast_new_node_binary_op ASSIGNMENT (Some (N_Decl_Var name type_name)) right s = Inl Null_Deref"
    by (simp add: ast_new_node_binary_op_def decl_var_upcast return_node_def trace_node_def to_string_defs)
qed (simp add: ast_new_node_stat_expr_def decl_var_upcast return_node_def trace_node_def to_string_defs)

lemma declaration_crashes_witness:
  "ast_new_node_stat_expr 0 (Some (N_Decl_Var ''x'' ''int'')) demo_front = Inl Null_Deref \<and>
   ast_new_node_binary_op ASSIGNMENT (Some (N_Decl_Var ''x'' ''int'')) (Some (N_Literal_Int 1)) demo_front = Inl Null_Deref"
  using declaration_crashes [of 0 "''x''" "''int''" demo_front]
  by (metis node_expr.simps(4) node_expr_upcast)

text \<open>
  A function without parameters cannot be defined in this build: the rule for the empty
  argument list passes NULL, which the cast dereferences before the check.
\<close>

theorem empty_argument_list_crashes:
  "parse_func fuel name [] ret_type body s = Inl Null_Deref"
  by (simp add: parse_func_def parse_args_def ast_new_node_func_arg_list_def NODE_UPCAST_def read_node_def)

text \<open>
  C37. Ternary operators: the action prints its node, printing frees the three operands, and
  whatever action uses the operator next reads them after the free.
\<close>

theorem ternary_use_after_free:
  assumes "plain_expr a" "plain_expr b" "plain_expr c"
  shows "\<exists>p s'. ast_new_node_ternary_op op (Some (expr_node a)) (Some (expr_node b)) (Some (expr_node c)) s = Inr (p, s') \<and>
    ast_new_node_stat_expr fuel p s' = Inl Use_After_Free \<and> ast_new_node_group p s' = Inl Use_After_Free \<and>
    ast_new_node_unary_op op' p s' = Inl Use_After_Free \<and> ast_new_node_stat_ret p s' = Inl Use_After_Free \<and>
    (\<forall>x. plain_expr x \<longrightarrow> ast_new_node_binary_op op' (Some (expr_node x)) p s' = Inl Use_After_Free)"
proof -
  have str: "\<exists>str k. ast_node_to_string (expr_node x) = Inr (str, k)" if "plain_expr x" for x
    using plain_expr_node(2) [OF that] by (simp add: printable_def)
  obtain s' where t: "ast_new_node_ternary_op op (Some (expr_node a)) (Some (expr_node b)) (Some (expr_node c)) s =
      Inr (Some (N_Ternary_Op op (Some N_Freed) (Some N_Freed) (Some N_Freed)), s')"
    using str [OF assms(1)] str [OF assms(2)] str [OF assms(3)] assms
    by (auto simp: ast_new_node_ternary_op_def plain_expr_upcast return_node_def trace_node_def to_string_defs sprintf_def)
  have up: "NODE_UPCAST_EXPR (Some (N_Ternary_Op op (Some N_Freed) (Some N_Freed) (Some N_Freed))) =
      Inr (Some (N_Ternary_Op op (Some N_Freed) (Some N_Freed) (Some N_Freed)))"
    by (simp add: NODE_UPCAST_EXPR_def read_node_def)
  have freed: "ast_node_to_string (N_Ternary_Op op (Some N_Freed) (Some N_Freed) (Some N_Freed)) = Inl Use_After_Free"
    by (simp add: to_string_defs)
  have "ast_new_node_binary_op op' (Some (expr_node x))
      (Some (N_Ternary_Op op (Some N_Freed) (Some N_Freed) (Some N_Freed))) s' = Inl Use_After_Free" if "plain_expr x" for x
    using str [OF that] freed that up
    by (auto simp: ast_new_node_binary_op_def plain_expr_upcast return_node_def trace_node_def to_string_defs)
  moreover note t freed up
  ultimately show ?thesis
    by (intro exI [of _ "Some (N_Ternary_Op op (Some N_Freed) (Some N_Freed) (Some N_Freed))"] exI [of _ s'])
      (simp add: ast_new_node_stat_expr_def ast_new_node_group_def ast_new_node_unary_op_def ast_new_node_stat_ret_def
        return_node_def trace_node_def to_string_defs)
qed

lemma ternary_use_after_free_witness:
  "\<exists>p s'. ast_new_node_ternary_op TERNARY_CONDITIONAL (Some (N_Ident ''a'')) (Some (N_Literal_Int 1))
      (Some (N_Literal_Int 2)) demo_front = Inr (p, s') \<and> ast_new_node_stat_expr 0 p s' = Inl Use_After_Free"
  using ternary_use_after_free [of "Ident TYPE_UNKNWN ''a''" "Literal_Int 1" "Literal_Int 2" TERNARY_CONDITIONAL demo_front 0
      UNARY_MINUS]
  by auto

text \<open>
  A block that is not the body of a statement: its first statement is compiled at once and its
  action returns NULL, which is then linked into the list of the block.
\<close>

theorem bare_block_crashes:
  assumes "plain_expr e" "idle s" "compile_expression fuel e (f_compiler s) = Inr (res, c)"
  shows "parse_stats fuel (Stat_Expr e # ss) (Some (N_Stat_List [])) s = Inl Null_Deref"
proof -
  obtain k where "\<forall>fuel. parse_stat fuel (Stat_Expr e) s = sbind (compile_statement fuel (Stat_Expr e) (f_compiler s))
      (\<lambda>(res, c). Inr (None, (add_overrun k s)\<lparr>f_compiler := c\<rparr>))"
    using parse_top [of "Stat_Expr e" s] assms(1,2) by auto
  with assms(3) show ?thesis
    by (simp add: ast_link_node_stat_list_def read_node_def)
qed

lemma bare_block_crashes_witness:
  "\<exists>fuel. parse_stats fuel [Stat_Expr (Ident TYPE_UNKNWN ''x'')] (Some (N_Stat_List [])) demo_front = Inl Null_Deref"
  by (rule exI, rule bare_block_crashes [where c = "compiler_init True" and res = 1])
    (simp_all add: demo_front_idle, simp add: demo_front_def front_init_def lexer_init_def compile_ident_def
      compiler_init_def compiler_get_root_frame_def c_chain_def)

text \<open>An expression statement read while a selection counts as open is not compiled.\<close>

lemma parse_stat_open:
  assumes "plain_expr e" "selection s \<noteq> 0"
  shows "\<exists>k. \<forall>fuel. parse_stat fuel (Stat_Expr e) s = Inr (Some (stat_node (Stat_Expr e)), add_overrun k s)"
  using parse_plain_expr [of e s] trace_printable [OF plain_stat_printable, of "Stat_Expr e"] assms
  by (intro exI [of _ "expr_overrun e + node_overrun (stat_node (Stat_Expr e))"])
    (simp add: ast_new_node_stat_expr_def plain_expr_upcast)

text \<open>The parts of a selection with \<open>elif\<close>, at any depth.\<close>

lemma parse_elif_parts:
  assumes "plain_stat (Stat_If e1 ss1 None)" "plain_stat (Stat_If e2 ss2 None)" "0 \<le> selection s" "0 \<le> iteration s"
  obtains k where "\<And>fuel. parse_elif fuel e1 ss1 e2 ss2 s =
    sbind (ast_new_node_stat_if fuel (Some (expr_node e2)) (Some (scope_node ss2)) None
             (add_overrun k (set_selection (selection s + 1) s)))
      (\<lambda>(elif, s). ast_new_node_stat_if fuel (Some (expr_node e1)) (Some (scope_node ss1)) elif s)"
proof -
  let ?s = "set_selection (selection s + 1) s"
  have inside: "\<forall>st \<in> set ss. plain_stat st \<and> parses_inside st" if "plain_stat (Stat_If e ss None)" for e ss
    using that parses_inside_plain by simp
  have busy: "busy (add_overrun k ?s)" for k using assms(3,4) by (simp add: busy_def)
  obtain k1 where k1: "\<And>fuel. parse_stats fuel ss1 (Some (N_Stat_List [])) (add_overrun (expr_overrun e1) ?s) =
      Inr (Some (N_Stat_List (map stat_node ss1)), add_overrun k1 (add_overrun (expr_overrun e1) ?s))"
    using parse_block_inside [OF inside [OF assms(1)] busy] by metis
  let ?j = "expr_overrun e1 + k1 + node_overrun (scope_node ss1) + expr_overrun e2"
  obtain k2 where k2: "\<And>fuel. parse_stats fuel ss2 (Some (N_Stat_List [])) (add_overrun ?j ?s) =
      Inr (Some (N_Stat_List (map stat_node ss2)), add_overrun k2 (add_overrun ?j ?s))"
    using parse_block_inside [OF inside [OF assms(2)] busy] by metis
  have e: "parse_expr e1 (keyword lexer_handle_keyword_if s) = Inr (Some (expr_node e1), add_overrun (expr_overrun e1) ?s)"
    "\<And>s. parse_expr e2 s = Inr (Some (expr_node e2), add_overrun (expr_overrun e2) s)"
    using assms(1,2) by (simp_all add: keyword_counters parse_plain_expr)
  show ?thesis
    using e k1 k2 by (intro that [of "?j + k2 + node_overrun (scope_node ss2)"])
      (simp add: parse_elif_def new_list new_scope add.assoc)
qed

text \<open>
  C35. A selection with \<open>elif\<close> at the top level: only the inner selection is compiled, as a
  statement of its own and whatever the outer condition is; the outer one never is. The counter
  of the lexer ends at -1, so that no expression statement after it is compiled.
\<close>

theorem elif_at_top_level:
  assumes "plain_stat (Stat_If e1 ss1 None)" "plain_stat (Stat_If e2 ss2 None)" "idle s"
  shows "(\<exists>k. \<forall>fuel. parse_elif fuel e1 ss1 e2 ss2 s =
      sbind (compile_statement fuel (Stat_If e2 ss2 None) (f_compiler s)) (\<lambda>(res, c).
        Inr (Some (stat_node (Stat_If e1 ss1 None)), set_selection (- 1) ((add_overrun k s)\<lparr>f_compiler := c\<rparr>)))) \<and>
    (\<forall>e s'. plain_expr e \<and> selection s' = - 1 \<longrightarrow>
      (\<exists>k. \<forall>fuel. parse_stat fuel (Stat_Expr e) s' = Inr (Some (stat_node (Stat_Expr e)), add_overrun k s')))"
proof (intro conjI allI impI)
  have z: "selection s = 0" "iteration s = 0" "not_inside_func s" using assms(3) by (simp_all add: idle_def)
  obtain k where "\<And>fuel. parse_elif fuel e1 ss1 e2 ss2 s =
      sbind (ast_new_node_stat_if fuel (Some (expr_node e2)) (Some (scope_node ss2)) None
               (add_overrun k (set_selection (selection s + 1) s)))
        (\<lambda>(elif, s). ast_new_node_stat_if fuel (Some (expr_node e1)) (Some (scope_node ss1)) elif s)"
    using parse_elif_parts [OF assms(1,2), of s] z by auto
  then show "\<exists>k. \<forall>fuel. parse_elif fuel e1 ss1 e2 ss2 s =
      sbind (compile_statement fuel (Stat_If e2 ss2 None) (f_compiler s)) (\<lambda>(res, c).
        Inr (Some (stat_node (Stat_If e1 ss1 None)), set_selection (- 1) ((add_overrun k s)\<lparr>f_compiler := c\<rparr>)))"
    using new_stat_if [OF assms(1)] new_stat_if [OF assms(2)] compile_and_free_plain [OF assms(2)] z
    by (intro exI [of _ "k + node_overrun (stat_node (Stat_If e2 ss2 None)) + node_overrun (stat_node (Stat_If e1 ss1 None))"])
      (simp del: compile_statement.simps stat_node.simps add: sbind_assoc split_def)
next
  fix x s'
  assume "plain_expr x \<and> selection s' = - 1"
  then show "\<exists>k. \<forall>fuel. parse_stat fuel (Stat_Expr x) s' = Inr (Some (stat_node (Stat_Expr x)), add_overrun k s')"
    by (intro parse_stat_open) simp_all
qed

lemma elif_at_top_level_witness:
  "(\<exists>k. \<forall>fuel. parse_elif fuel (Literal_Int 0) [] (Literal_Int 1) [] demo_front =
      sbind (compile_statement fuel (Stat_If (Literal_Int 1) [] None) (f_compiler demo_front)) (\<lambda>(res, c).
        Inr (Some (stat_node (Stat_If (Literal_Int 0) [] None)),
             set_selection (- 1) ((add_overrun k demo_front)\<lparr>f_compiler := c\<rparr>)))) \<and>
   (\<exists>k. \<forall>fuel. parse_stat fuel (Stat_Expr (Literal_Int 2)) (set_selection (- 1) demo_front) =
      Inr (Some (N_Stat_Expr (Some (N_Literal_Int 2))), add_overrun k (set_selection (- 1) demo_front)))"
proof -
  have p: "plain_stat (Stat_If (Literal_Int 0) [] None)" "plain_stat (Stat_If (Literal_Int 1) [] None)" by simp_all
  note t = elif_at_top_level [OF p demo_front_idle]
  from conjunct2 [OF t, rule_format, of "Literal_Int 2" "set_selection (- 1) demo_front"] conjunct1 [OF t]
  show ?thesis by (simp del: compile_statement.simps parse_stat.simps)
qed

text \<open>
  Inside a function the \<open>elif\<close> branch is dropped: the action of the outer selection expects a
  scope, reports the inner selection as a failed cast and goes on without it. The selection
  counter ends one too low.
\<close>

theorem elif_inside_dropped:
  assumes "plain_stat (Stat_If e1 ss1 None)" "plain_stat (Stat_If e2 ss2 None)"
    and "\<not> not_inside_func s" "0 \<le> selection s" "0 \<le> iteration s"
  shows "\<exists>k. \<forall>fuel. parse_elif fuel e1 ss1 e2 ss2 s =
    Inr (Some (stat_node (Stat_If e1 ss1 None)),
         set_selection (selection s - 1) (add_overrun k (yyerror ''stat if false_scope cast fail'' s)))"
proof -
  obtain k where k: "\<And>fuel. parse_elif fuel e1 ss1 e2 ss2 s =
      sbind (ast_new_node_stat_if fuel (Some (expr_node e2)) (Some (scope_node ss2)) None
               (add_overrun k (set_selection (selection s + 1) s)))
        (\<lambda>(elif, s). ast_new_node_stat_if fuel (Some (expr_node e1)) (Some (scope_node ss1)) elif s)"
    using parse_elif_parts [OF assms(1,2,4,5)] by metis
  let ?inner = "stat_node (Stat_If e2 ss2 None)" and ?outer = "stat_node (Stat_If e1 ss1 None)"
  let ?s = "add_overrun (k + node_overrun ?inner) s"
  have inner: "ast_new_node_stat_if fuel (Some (expr_node e2)) (Some (scope_node ss2)) None
      (add_overrun k (set_selection (selection s + 1) s)) = Inr (Some ?inner, ?s)" for fuel
    using new_stat_if [OF assms(2), of fuel "add_overrun k (set_selection (selection s + 1) s)"] assms(3)
    by (simp del: stat_node.simps)
  have cast: "NODE_UPCAST (Some ?inner) AST_NODE_TYPE_SCOPE = Inr None"
    "NODE_UPCAST (Some (scope_node ss1)) AST_NODE_TYPE_SCOPE = Inr (Some (scope_node ss1))"
    by (simp_all add: NODE_UPCAST_def read_node_def scope_node_def)
  have outer: "N_Stat_If (Some (expr_node e1)) (Some (scope_node ss1)) None = ?outer" by (simp add: scope_node_def)
  have "plain_expr e1" using assms(1) by simp
  moreover have "not_inside_func (yyerror msg s) = not_inside_func s" "selection (yyerror msg s) = selection s"
    "yyerror msg (add_overrun j s) = add_overrun j (yyerror msg s)" for msg s j
    by (simp_all add: yyerror_def not_inside_func_def selection_def add_overrun_def)
  ultimately have "ast_new_node_stat_if fuel (Some (expr_node e1)) (Some (scope_node ss1)) (Some ?inner) ?s =
      Inr (Some ?outer, set_selection (selection s - 1) (add_overrun (k + node_overrun ?inner + node_overrun ?outer)
        (yyerror ''stat if false_scope cast fail'' s)))" for fuel
    using cast outer trace_printable [OF plain_stat_printable [OF assms(1)]] assms(3)
    by (simp del: stat_node.simps node_overrun.simps add: ast_new_node_stat_if_def plain_expr_upcast)
  with k inner show ?thesis
    by (intro exI [of _ "k + node_overrun ?inner + node_overrun ?outer"]) (simp del: stat_node.simps)
qed

lemma elif_inside_dropped_witness:
  "\<exists>k. \<forall>fuel. parse_elif fuel (Literal_Int 0) [] (Literal_Int 1) [] (parse_func_keyword demo_front) =
    Inr (Some (stat_node (Stat_If (Literal_Int 0) [] None)),
         set_selection (selection (parse_func_keyword demo_front) - 1)
           (add_overrun k (yyerror ''stat if false_scope cast fail'' (parse_func_keyword demo_front))))"
  by (rule elif_inside_dropped)
    (simp_all add: parse_func_keyword_def demo_front_def front_init_def lexer_init_def lexer_handle_keyword_func_def
      not_inside_func_def selection_def iteration_def)

text \<open>The choices of a switch: the chain keeps the first choice and the newest one.\<close>

definition choice_node :: "expr option \<times> stat list \<Rightarrow> node" where
  "choice_node c = N_Stat_Switch_Choice (map_option expr_node (fst c)) (Some (scope_node (snd c)))"

definition plain_choice :: "expr option \<times> stat list \<Rightarrow> bool" where
  "plain_choice c \<longleftrightarrow> (\<forall>e \<in> set_option (fst c). plain_expr e) \<and> (\<forall>st \<in> set (snd c). plain_stat st)"

lemma choice_printable: "plain_choice c \<Longrightarrow> printable (choice_node c)"
  using plain_expr_node(2) printable_scope [of "snd c"]
  by (cases "fst c") (fastforce simp: plain_choice_def choice_node_def printable_def to_string_defs sprintf_def)+

lemma parse_choice:
  assumes "plain_choice c" "busy s"
  obtains k where "\<And>fuel. parse_choices fuel (c # choices) chain s = parse_choices fuel choices
    (case chain of [] \<Rightarrow> [choice_node c] | p # rest \<Rightarrow> [p, choice_node c]) (add_overrun k s)"
proof -
  obtain e ss where c: "c = (e, ss)" by (cases c)
  define j where "j = (case e of None \<Rightarrow> 0 | Some e \<Rightarrow> expr_overrun e)"
  have p: "(case e of None \<Rightarrow> Inr (None, s) | Some e \<Rightarrow> parse_expr e s) = Inr (map_option expr_node e, add_overrun j s)"
    using assms(1) c by (cases e) (simp_all add: plain_choice_def j_def parse_plain_expr)
  have busy: "busy (add_overrun j s)" using assms(2) by simp
  have inside: "\<forall>st \<in> set ss. plain_stat st \<and> parses_inside st"
    using assms(1) c parses_inside_plain by (simp add: plain_choice_def)
  obtain k where k: "\<And>fuel. parse_stats fuel ss (Some (N_Stat_List [])) (add_overrun j s) =
      Inr (Some (N_Stat_List (map stat_node ss)), add_overrun k (add_overrun j s))"
    using parse_block_inside [OF inside busy] by metis
  have t: "trace_node (N_Stat_Switch_Choice (map_option expr_node e) (Some (scope_node ss))) s' =
      Inr (choice_node c, add_overrun (node_overrun (choice_node c)) s')" for s'
    using trace_printable [OF choice_printable [OF assms(1)]] c by (simp add: choice_node_def)
  show ?thesis
    using p k t c
    by (intro that [of "j + k + node_overrun (scope_node ss) + node_overrun (choice_node c)"])
      (simp add: new_list new_scope ast_new_node_stat_switch_choice_def add.assoc split: list.split)
qed

lemma parse_choices_linked:
  assumes "\<forall>c \<in> set choices. plain_choice c" "busy s"
  obtains k where "\<And>fuel. parse_choices fuel choices (p # rest) s =
    Inr (if choices = [] then p # rest else [p, choice_node (last choices)], add_overrun k s)"
proof -
  have "\<exists>k. \<forall>fuel. parse_choices fuel choices (p # rest) s =
      Inr (if choices = [] then p # rest else [p, choice_node (last choices)], add_overrun k s)"
    using assms
  proof (induction choices arbitrary: rest s)
    case Nil
    then show ?case by (intro exI [of _ 0]) simp
  next
    case (Cons c choices)
    obtain k where k: "\<And>fuel. parse_choices fuel (c # choices) (p # rest) s =
        parse_choices fuel choices [p, choice_node c] (add_overrun k s)"
      using parse_choice [of c s choices "p # rest"] Cons.prems by auto
    obtain j where "\<forall>fuel. parse_choices fuel choices [p, choice_node c] (add_overrun k s) =
        Inr (if choices = [] then [p, choice_node c] else [p, choice_node (last choices)], add_overrun j (add_overrun k s))"
      using Cons.IH [of "add_overrun k s" "[choice_node c]"] Cons.prems by auto
    with k show ?case by (intro exI [of _ "k + j"]) (simp del: parse_choices.simps)
  qed
  with that show ?thesis by blast
qed

text \<open>
  C36. A switch keeps only its first and its last choice, is not compiled, and counts as an open
  selection for ever: nothing decrements the counter of the lexer, so no expression statement
  after it is compiled.
\<close>

theorem switch_stops_compilation:
  assumes "plain_expr e" "\<forall>c \<in> set choices. plain_choice c" "choices \<noteq> []" "idle s"
  shows "(\<exists>k. \<forall>fuel. parse_switch fuel e choices s =
      Inr (Some (N_Stat_Switch (Some (expr_node e))
                   (choice_node (hd choices) # (if tl choices = [] then [] else [choice_node (last choices)]))),
           set_selection 1 (add_overrun k s))) \<and>
    (\<forall>x s'. plain_expr x \<and> selection s' = 1 \<longrightarrow>
      (\<exists>k. \<forall>fuel. parse_stat fuel (Stat_Expr x) s' = Inr (Some (stat_node (Stat_Expr x)), add_overrun k s')))"
proof (intro conjI allI impI)
  obtain c cs where cs: "choices = c # cs" using assms(3) by (cases choices) auto
  let ?s = "set_selection 1 s" and ?chain = "choice_node c # (if cs = [] then [] else [choice_node (last cs)])"
  have z: "selection s = 0" "iteration s = 0" using assms(4) by (simp_all add: idle_def)
  have e: "parse_expr e (keyword lexer_handle_keyword_switch s) = Inr (Some (expr_node e), add_overrun (expr_overrun e) ?s)"
    using assms(1) z by (simp add: keyword_counters parse_plain_expr)
  have busy: "busy (add_overrun j ?s)" for j using z by (simp add: busy_def)
  obtain k where k: "\<And>fuel. parse_choices fuel (c # cs) [] (add_overrun (expr_overrun e) ?s) =
      parse_choices fuel cs [choice_node c] (add_overrun k (add_overrun (expr_overrun e) ?s))"
    using parse_choice [OF _ busy, of c cs "[]"] assms(2) cs by auto
  have pcs: "\<forall>c \<in> set cs. plain_choice c" using assms(2) cs by simp
  have chain: "(if cs = [] then [choice_node c] else [choice_node c, choice_node (last cs)]) = ?chain" by simp
  obtain j where j: "\<And>fuel. parse_choices fuel cs [choice_node c] (add_overrun (expr_overrun e + k) ?s) =
      Inr (?chain, add_overrun j (add_overrun (expr_overrun e + k) ?s))"
    using parse_choices_linked [OF pcs busy, of "choice_node c" "[]"] unfolding chain by metis
  have "printable (choice_node c)" "cs \<noteq> [] \<Longrightarrow> printable (choice_node (last cs))"
    using assms(2) cs choice_printable by auto
  then have "printable (N_Stat_Switch (Some (expr_node e)) ?chain)"
    using plain_expr_node(2) [OF assms(1)] by (auto simp: printable_def to_string_defs sprintf_def Let_def)
  from return_printable [OF this] e k j cs
  show "\<exists>k. \<forall>fuel. parse_switch fuel e choices s =
      Inr (Some (N_Stat_Switch (Some (expr_node e))
                   (choice_node (hd choices) # (if tl choices = [] then [] else [choice_node (last choices)]))),
           set_selection 1 (add_overrun k s))"
    by (intro exI [of _ "expr_overrun e + k + j + node_overrun (N_Stat_Switch (Some (expr_node e)) ?chain)"])
      (simp del: parse_choices.simps node_overrun.simps add: parse_switch_def ast_new_node_stat_switch_def)
next
  fix x s'
  assume "plain_expr x \<and> selection s' = 1"
  then show "\<exists>k. \<forall>fuel. parse_stat fuel (Stat_Expr x) s' = Inr (Some (stat_node (Stat_Expr x)), add_overrun k s')"
    by (intro parse_stat_open) simp_all
qed

definition demo_choices :: "(expr option \<times> stat list) list" where
  "demo_choices = [(Some (Literal_Int 1), []), (Some (Literal_Int 2), []), (None, [])]"

lemma switch_stops_compilation_witness:
  "(\<exists>k. \<forall>fuel. parse_switch fuel (Literal_Int 2) demo_choices demo_front =
      Inr (Some (N_Stat_Switch (Some (N_Literal_Int 2)) [choice_node (Some (Literal_Int 1), []), choice_node (None, [])]),
           set_selection 1 (add_overrun k demo_front))) \<and>
   (\<exists>k. \<forall>fuel. parse_stat fuel (Stat_Expr (Literal_Int 2)) (set_selection 1 demo_front) =
      Inr (Some (N_Stat_Expr (Some (N_Literal_Int 2))), add_overrun k (set_selection 1 demo_front)))"
proof -
  have c: "\<forall>c \<in> set demo_choices. plain_choice c" "demo_choices \<noteq> []" "plain_expr (Literal_Int 2)"
    by (simp_all add: demo_choices_def plain_choice_def)
  note t = switch_stops_compilation [OF c(3,1,2) demo_front_idle]
  from conjunct2 [OF t, rule_format, of "Literal_Int 2" "set_selection 1 demo_front"] conjunct1 [OF t]
  show ?thesis by (simp add: demo_choices_def del: parse_stat.simps)
qed

end
