(* ===== verification/Spec2Isabelle.thy ===== *)
theory Spec2Isabelle
  imports Crc32 Emitter_Props VM_Claims Expr_Claims Stat_Claims Stat_Safe Func_Claims Lexer_Claims Scanner_Claims Grammar_Claims Text_Session Frontend_Claims Main_Options Session
begin

text \<open>
  Phantom Shell: an interpreter for a small imperative language, in C. The sources are under
  \<open>src/src\<close>; file names below are relative to it.

  \<^bold>\<open>How the program works.\<close> \<open>main.c\<close> reads the options, initialises the virtual machine
  and the compiler and runs the generated parser. The scanner calls the handlers of \<open>lexer.c\<close>
  for its tokens, the grammar rules call the actions of \<open>parser.c\<close>, which build nodes. An action
  that completes a statement outside every function, selection and loop calls
  \<open>compiler_compile\<close> on it and frees it. The compiler (\<open>compiler*.c\<close>) writes bytecode through
  the emitter of the current scope: the blocks of selections and loops and the bodies of
  functions are collected in pages (\<open>compiler_emit.c\<close>); the root scope of an interactive session
  hands every emission to \<open>vm_execute_opcodes\<close> (\<open>vm/vm.c\<close>) at once. Finished functions are
  registered in the machine and found by name in a hash table (\<open>util/hashmap.c\<close>).

  \<^bold>\<open>Conventions.\<close> \<open>Prelude\<close>: bytes and 32-bit words are \<open>word\<close>s; a C function that may stop the
  process, or read or write where it must not, returns \<open>fault + 'a\<close>; NULL is \<open>None\<close>. Global state
  is passed and returned. Everything executes except that unbounded loops carry fuel (below).
  The model is the debug build, the default of \<open>build.sh\<close>: node printing and the null checks are
  compiled in. Output to the terminal is not modelled apart from parser error messages.

  \<^bold>\<open>Parts.\<close>
  \<^item> \<open>Opcodes\<close>, \<open>Float32\<close>: the constants of \<open>vm/opcodes.h\<close>, \<open>operator.h\<close> and \<open>types.h\<close>, the stack
    effect table, cast selection; C's \<open>float\<close> as IEEE 754 binary32 on its bit pattern.
  \<^item> \<open>Hashmap\<close>, \<open>Hashmap_Props\<close>, \<open>Crc32\<close>: the open addressing table. Without removals it is a
    finite map (locale \<open>string_map\<close>, interpreted on the code's table); put and resize, which call
    each other, terminate; the checksum is the CRC-32 remainder. A removal breaks the map: that is
    a theorem as well.
  \<^item> \<open>Emitter\<close>, \<open>Emitter_Props\<close>: pages and the sink. The emitter is a byte sink (locale
    \<open>byte_sink\<close>): what goes in comes out, for chunks of at most a page; the exact condition of an
    overrun.
  \<^item> \<open>VM\<close>, \<open>VM_Props\<close>, \<open>VM_Registry\<close>, \<open>VM_Claims\<close>: frames, one definition per opcode handler, the
    dispatch table, calls, the loop, constants and functions. A run keeps the operand stacks in
    bounds and the callers' frames untouched; the loop agrees with a step relation; the effects
    on the stack agree with the compiler's table.
  \<^item> \<open>Ast\<close>, \<open>Compiler_Scope\<close>, \<open>Compiler\<close>: the trees the compiler reads, scopes and variables, one
    definition per compile function. \<open>Compiler_Fuel\<close>: its answer does not depend on the fuel.
  \<^item> \<open>Expr_Correct\<close>, \<open>Expr_Exec\<close>, \<open>Expr_Claims\<close>: a semantics of expressions over named variables and the
    correctness of their code, buffered or run at once, with its need of stack.
  \<^item> \<open>Stat_Correct\<close>, \<open>Stat_Exec\<close>, \<open>Stat_Claims\<close>, \<open>Stat_Interactive\<close>: a big-step semantics of assignments,
    selections and loops and the correctness of their code. \<open>elab_stat\<close> describes the fragment:
    typed expressions without calls, jumps below 256 bytes, emissions of at most a page.
  \<^item> \<open>Stat_Safe\<close>: type soundness of that code, also where the semantics gives no result: it runs for
    ever, stops in the trap of a division, or ends with every variable of its static type.
  \<^item> \<open>Stat_Stack\<close>, \<open>Func_Correct\<close>, \<open>Func_Claims\<close>: the stack the compiler counts for statements covers
    what they need; parameters, signatures and the constant pool; a compiled function, called,
    does what its body means. \<open>scope_words\<close> bounds the count, which keeps the condition of every
    selection and loop.
  \<^item> \<open>Node\<close>, \<open>Node_String\<close>, \<open>Node_Print\<close>, \<open>Node_Free\<close>: the nodes of \<open>parser.h\<close>, their printers with
    the bytes written behind their blocks, and their destructors.
  \<^item> \<open>Scanner\<close>, \<open>Scanner_Claims\<close>: the rules of \<open>lexer.l\<close>, each a pattern with its action, and the choice
    of the longest match, the first rule on a tie. Tokens separated by blanks are read back; every
    text is read to its end.
  \<^item> \<open>Grammar\<close>, \<open>Grammar_Claims\<close>: the expression rules of \<open>parser.y\<close> as the shift-reduce automaton
    they mean, conflicts resolved by the declared precedences as bison's manual says. \<open>grammatical\<close>
    says of a tree that it follows the precedences; the automaton accepts exactly these trees and
    makes the calls of \<open>parse_expr\<close> for them.
  \<^item> \<open>Yyparse\<close>, \<open>Yyparse_Expr\<close>, \<open>Yyparse_Stat\<close>: all rules of \<open>parser.y\<close> as one automaton that pulls its
    tokens from the scanner, one token ahead where bison needs it, and reduces by default where
    bison does. \<open>written\<close> is the concrete syntax of the statements; on a written program the parser
    makes the calls of \<open>parse_program\<close>, whatever it reads ahead. It ends on every text.
  \<^item> \<open>Lexer\<close>, \<open>Lexer_Claims\<close>, \<open>Frontend\<close>, \<open>Parser_Calls\<close>, \<open>Frontend_Claims\<close>: the lexer state and the
    values of literals, the parser actions, the calls the grammar rules make. Statements are
    compiled exactly once and freed completely; what the actions do with \<open>elif\<close>, \<open>switch\<close>, ternary
    operators, declarations and bare blocks.
  \<^item> \<open>Main_Options\<close>, \<open>Session\<close>, \<open>Text_Session\<close>: the command line, and the whole \<open>main\<close>: the text of a
    program of the fragment, scanned, parsed, compiled and run statement by statement, computes
    what the semantics says; a syntax error stops it behind what has been run.

  \<^bold>\<open>Fuel.\<close> \<open>vm_run\<close> counts the handlers it calls; compilation needs fuel only where the root scope
  runs code. The properties about results say that enough fuel gives them, so they include
  termination; more fuel never changes an answer.

  \<^bold>\<open>Not modelled.\<close> The automaton flex generates from \<open>lexer.l\<close> and the tables bison generates from
  \<open>parser.y\<close> (that code is not in the repository; \<open>Yyparse\<close> has what they mean, \<open>Parser_Calls\<close> the
  calls for a tree whose statements end in a line break or a semicolon, so that no keyword is read
  ahead of an action that looks at the lexer's counters);
  measuring and printing times; \<open>OPERATOR_PRECEDENCE\<close>, whose mask \<open>r0x8000u\<close> does not compile and
  which nothing uses; \<open>hashmap_delete\<close>, which only frees, and the iterators, which are stubs; the
  release build. The field \<open>args_size\<close> of a function is written and never read. Casts the compiler
  inserts into a tree are freed with it and are not shown in the list of freed blocks.
\<close>

end
